(* ===== verification/Prelude.thy ===== *)
theory Prelude
  imports Main "HOL-Library.Word" "HOL-Library.Signed_Division"
begin

unbundle bit_operations_syntax

text \<open>
  Shared ground of the development: the fixed-width integer types of the target (32-bit ARM
  Linux), checked array access, the outcome type of a C function that may block or run into
  undefined behaviour, the little-endian layout of a 32-bit integer, the \<open>errno\<close> values the
  sources return, and the generic lemmas the component theories use.
\<close>

section \<open>Types of the target\<close>

type_synonym u8 = "8 word"
type_synonym u16 = "16 word"
type_synonym u32 = "32 word"
type_synonym u64 = "64 word"

named_theorems c_arr \<open>rules about checked access to C arrays\<close>
named_theorems c_num \<open>rules about C integer arithmetic on values that do not overflow\<close>

section \<open>Outcomes\<close>

text \<open>
  \<open>Done\<close> is a normal return. \<open>Blocked\<close> is a call that has not returned when the recorded
  environment events are used up (or that spins for ever). \<open>Undef\<close> is undefined behaviour: an
  access outside an object, a negative size handed to \<open>memcpy\<close>.
\<close>

datatype 'a run = Done 'a | Blocked | Undef

fun run_bind :: "'a run \<Rightarrow> ('a \<Rightarrow> 'b run) \<Rightarrow> 'b run" where
  "run_bind (Done x) f = f x"
| "run_bind Blocked f = Blocked"
| "run_bind Undef f = Undef"

definition of_option :: "'a option \<Rightarrow> 'a run" where
  "of_option x = (case x of None \<Rightarrow> Undef | Some v \<Rightarrow> Done v)"

lemma of_option_simps [simp]:
  "of_option None = Undef" "of_option (Some v) = Done v"
  by (simp_all add: of_option_def)

lemma of_option_eq_Done [simp]: "of_option x = Done v \<longleftrightarrow> x = Some v"
  by (cases x) simp_all

lemma run_bind_cong [fundef_cong]:
  "r = r' \<Longrightarrow> (\<And>x. r' = Done x \<Longrightarrow> f x = g x) \<Longrightarrow> run_bind r f = run_bind r' g"
  by (cases r') simp_all

lemma run_bind_eq_Done: "run_bind r f = Done y \<longleftrightarrow> (\<exists>x. r = Done x \<and> f x = Done y)"
  by (cases r) simp_all

section \<open>Checked array access\<close>

definition in_arr :: "'a list \<Rightarrow> int \<Rightarrow> bool" where
  "in_arr xs i \<longleftrightarrow> 0 \<le> i \<and> i < int (length xs)"

definition c_nth :: "'a list \<Rightarrow> int \<Rightarrow> 'a option" where
  "c_nth xs i = (if in_arr xs i then Some (xs ! nat i) else None)"

definition c_upd :: "'a list \<Rightarrow> int \<Rightarrow> 'a \<Rightarrow> 'a list option" where
  "c_upd xs i v = (if in_arr xs i then Some (xs[nat i := v]) else None)"

text \<open>\<open>c_slice xs off n\<close> reads \<open>n\<close> elements from \<open>off\<close>; \<open>c_store xs off ys\<close> writes
  \<open>ys\<close> there. Both fail when they leave the array.\<close>

definition c_slice :: "'a list \<Rightarrow> int \<Rightarrow> int \<Rightarrow> 'a list option" where
  "c_slice xs off n =
     (if 0 \<le> off \<and> 0 \<le> n \<and> off + n \<le> int (length xs)
      then Some (take (nat n) (drop (nat off) xs)) else None)"

definition c_store :: "'a list \<Rightarrow> int \<Rightarrow> 'a list \<Rightarrow> 'a list option" where
  "c_store xs off ys =
     (if 0 \<le> off \<and> off + int (length ys) \<le> int (length xs)
      then Some (take (nat off) xs @ ys @ drop (nat off + length ys) xs) else None)"

lemma c_nth_Some [c_arr]: "0 \<le> i \<Longrightarrow> i < int (length xs) \<Longrightarrow> c_nth xs i = Some (xs ! nat i)"
  by (simp add: c_nth_def in_arr_def)

lemma c_upd_Some [c_arr]: "0 \<le> i \<Longrightarrow> i < int (length xs) \<Longrightarrow> c_upd xs i v = Some (xs[nat i := v])"
  by (simp add: c_upd_def in_arr_def)

lemma c_nth_nat: "i < length xs \<Longrightarrow> c_nth xs (int i) = Some (xs ! i)"
  by (simp add: c_nth_Some)

lemma c_upd_nat: "i < length xs \<Longrightarrow> c_upd xs (int i) v = Some (xs[i := v])"
  by (simp add: c_upd_Some)

lemma c_upd_None [c_arr]: "\<not> in_arr xs i \<Longrightarrow> c_upd xs i v = None"
  by (simp add: c_upd_def)

lemma c_upd_SomeD: "c_upd xs i v = Some ys \<Longrightarrow> length ys = length xs \<and> in_arr xs i"
  by (auto simp: c_upd_def split: if_splits)

lemma c_slice_Some [c_arr]:
  "0 \<le> off \<Longrightarrow> 0 \<le> n \<Longrightarrow> off + n \<le> int (length xs) \<Longrightarrow>
   c_slice xs off n = Some (take (nat n) (drop (nat off) xs))"
  by (simp add: c_slice_def)

lemma c_store_Some [c_arr]:
  "0 \<le> off \<Longrightarrow> off + int (length ys) \<le> int (length xs) \<Longrightarrow>
   c_store xs off ys = Some (take (nat off) xs @ ys @ drop (nat off + length ys) xs)"
  by (simp add: c_store_def)

lemma c_slice_length: "c_slice xs off n = Some ys \<Longrightarrow> int (length ys) = n"
  by (auto simp: c_slice_def split: if_splits)

lemma c_store_length: "c_store xs off ys = Some zs \<Longrightarrow> length zs = length xs"
  by (auto simp: c_store_def split: if_splits)

lemma c_store_fits:
  "0 \<le> off \<Longrightarrow> nat off + length ys \<le> length xs \<Longrightarrow> \<exists>zs. c_store xs off ys = Some zs"
  by (auto simp: c_store_def nat_le_iff)

lemma c_slice_fits:
  "0 \<le> off \<Longrightarrow> nat off + n \<le> length xs \<Longrightarrow> \<exists>ys. c_slice xs off (int n) = Some ys"
  by (auto simp: c_slice_def nat_le_iff)

lemma c_slice_c_store: "c_store xs off ys = Some zs \<Longrightarrow> c_slice zs off (int (length ys)) = Some ys"
  by (auto simp: c_store_def c_slice_def min_def nat_le_iff split: if_splits)

lemma c_store_too_long: "length xs < length ys \<Longrightarrow> c_store xs off ys = None"
  by (auto simp: c_store_def)

section \<open>C division\<close>

text \<open>C's \<open>/\<close> and \<open>%\<close> truncate towards zero: \<open>sdiv\<close> and \<open>smod\<close>.\<close>

lemma smod_nonneg [c_num]: "0 \<le> a \<Longrightarrow> 0 < b \<Longrightarrow> (a::int) smod b = a mod b"
  by (simp add: signed_modulo_int_def signed_divide_int_def minus_div_mult_eq_mod sgn_if)

lemma sdiv_nonneg [c_num]: "0 \<le> a \<Longrightarrow> 0 < b \<Longrightarrow> (a::int) sdiv b = a div b"
  by (simp add: signed_divide_int_def sgn_if)

lemma smod_8_neg: "a < 0 \<Longrightarrow> (a::int) smod 8 = - ((- a) mod 8)"
  by (simp add: signed_modulo_int_def signed_divide_int_def sgn_if)

lemma smod_8_bounds: "-8 < (a::int) smod 8" "(a::int) smod 8 < 8"
  by (cases "a < 0"; simp add: smod_8_neg smod_nonneg)+

text \<open>One step of wrap-around.\<close>

lemma mod_wrap: "0 \<le> a \<Longrightarrow> a < 2 * n \<Longrightarrow> (a::int) mod n = (if a < n then a else a - n)"
  by (simp add: mod_pos_pos_trivial) (metis minus_mod_self2 mod_pos_pos_trivial diff_ge_0_iff_ge
      not_less add_diff_cancel_right' less_diff_eq mult_2 add.commute diff_less_eq)

section \<open>Error numbers\<close>

definition EIO :: int where "EIO = 5"
definition EAGAIN :: int where "EAGAIN = 11"
definition ENOMEM :: int where "ENOMEM = 12"
definition EFAULT :: int where "EFAULT = 14"
definition EINVAL :: int where "EINVAL = 22"
definition ENOTTY :: int where "ENOTTY = 25"
definition ESPIPE :: int where "ESPIPE = 29"

lemmas errno_defs = EIO_def EAGAIN_def ENOMEM_def EFAULT_def EINVAL_def ENOTTY_def ESPIPE_def

section \<open>Little-endian 32-bit layout\<close>

definition le32 :: "u32 \<Rightarrow> u8 list" where
  "le32 w = [ucast w, ucast (drop_bit 8 w), ucast (drop_bit 16 w), ucast (drop_bit 24 w)]"

fun of_le32 :: "u8 list \<Rightarrow> u32" where
  "of_le32 (a # b # c # d # _) =
     ucast a OR push_bit 8 (ucast b) OR push_bit 16 (ucast c) OR push_bit 24 (ucast d)"
| "of_le32 _ = 0"

lemma length_le32 [simp]: "length (le32 w) = 4"
  by (simp add: le32_def)

lemma of_le32_le32 [simp]: "of_le32 (le32 w @ xs) = w"
proof (rule bit_word_eqI)
  fix n
  assume "n < LENGTH(32)"
  then have n: "n < 32" by simp
  then consider "n < 8" | "8 \<le> n" "n < 16" | "16 \<le> n" "n < 24" | "24 \<le> n" "n < 32"
    by linarith
  then show "bit (of_le32 (le32 w @ xs)) n = bit w n"
    by cases (auto simp: le32_def bit_simps)
qed

lemma unat_u32_less: "unat (w :: u32) < 2 ^ 32"
proof -
  have "unat w < 2 ^ LENGTH(32)" by (rule unsigned_less)
  then show ?thesis by simp
qed

text \<open>A C \<open>int\<close> held in a 32-bit word, and the word that stores an \<open>int\<close>.\<close>

abbreviation s32 :: "u32 \<Rightarrow> int" where "s32 w \<equiv> sint w"

definition int32 :: "int \<Rightarrow> bool" where
  "int32 i \<longleftrightarrow> - (2 ^ 31) \<le> i \<and> i < 2 ^ 31"

text \<open>The value of an expression of type \<open>int\<close>: signed overflow is undefined behaviour.\<close>

definition c_int :: "int \<Rightarrow> int run" where
  "c_int i = (if int32 i then Done i else Undef)"

lemma c_int_of_nat: "c_int (int n) = (if n < 2 ^ 31 then Done (int n) else Undef)"
  by (simp add: c_int_def int32_def nat_less_iff)

lemma s32_of_int: "int32 i \<Longrightarrow> s32 (word_of_int i) = i"
  unfolding int32_def by (subst sint_sbintrunc', simp add: signed_take_bit_int_eq_self)


lemma s32_high:
  assumes "0x80000000 \<le> w"
  shows "s32 w = uint w - 2 ^ 32"
proof -
  have u: "uint w < 2 ^ 32" using unsigned_less [of w, where ?'a = int] by simp
  have l: "2 ^ 31 \<le> uint w" using assms by (simp add: word_le_def)
  have "(uint w + 2 ^ 31) mod 2 ^ 32 = uint w - 2 ^ 31"
    using u l mod_wrap [of "uint w + 2 ^ 31" "2 ^ 32"] by simp
  then show ?thesis
    by (simp add: sint_uint signed_take_bit_eq_take_bit_shift take_bit_eq_mod)
qed

text \<open>The remainder of a high address by 8 is negative in C unless the address is a multiple of 8.\<close>

lemma s32_high_smod:
  assumes "0x80000000 \<le> w" and "\<not> 8 dvd unat w"
  shows "s32 w smod 8 < 0"
proof -
  have u: "uint w < 2 ^ 32" using unsigned_less [of w, where ?'a = int] by simp
  have "\<not> 8 dvd uint w"
    using assms(2) by (metis int_dvd_int_iff of_nat_numeral uint_nat)
  then have "(4294967296 - uint w) mod 8 \<noteq> 0" by presburger
  then have "(- s32 w) mod 8 \<noteq> 0" by (simp add: s32_high [OF assms(1)])
  moreover have "s32 w < 0" using u by (simp add: s32_high [OF assms(1)])
  ultimately show ?thesis using pos_mod_sign [of 8 "- s32 w"] by (simp add: smod_8_neg)
qed

end
