(* ===== verification/Buf_Queue.thy ===== *)
theory Buf_Queue
  imports Prelude
begin

text \<open>
  The ring buffer of frame-buffer indices of the VPU test application
  (\<^verbatim>\<open>src/test/mxc_vpu_test/vpu_test.h\<close>: \<open>struct buf_queue\<close>, \<open>queue_size\<close>,
  \<open>queue_buf\<close>, \<open>dequeue_buf\<close>, \<open>peek_next_buf\<close>). The display threads use it to hand
  buffers back and forth. The interface \<open>bounded_fifo\<close> states what a client may rely on; the
  ring buffer is shown to provide it, and so to refine a list of at most \<open>MAX_BUF_NUM\<close>
  elements under every sequence of calls.
\<close>

section \<open>The ring buffer\<close>

definition MAX_BUF_NUM :: int where "MAX_BUF_NUM = 32"
definition QUEUE_SIZE :: int where "QUEUE_SIZE = MAX_BUF_NUM + 1"

record buf_queue =
  bq_list :: "int list"
  bq_head :: int
  bq_tail :: int

definition queue_size :: "buf_queue \<Rightarrow> int" where
  "queue_size q =
     (if bq_tail q \<ge> bq_head q then bq_tail q - bq_head q
      else (bq_tail q + QUEUE_SIZE) - bq_head q)"

definition queue_buf :: "buf_queue \<Rightarrow> int \<Rightarrow> (int \<times> buf_queue) option" where
  "queue_buf q idx =
     (if (bq_tail q + 1) smod QUEUE_SIZE = bq_head q then Some (-1, q)
      else case c_upd (bq_list q) (bq_tail q) idx of
             None \<Rightarrow> None
           | Some l \<Rightarrow> Some (0, q\<lparr>bq_list := l, bq_tail := (bq_tail q + 1) smod QUEUE_SIZE\<rparr>))"

definition dequeue_buf :: "buf_queue \<Rightarrow> (int \<times> buf_queue) option" where
  "dequeue_buf q =
     (if bq_tail q = bq_head q then Some (-1, q)
      else case c_nth (bq_list q) (bq_head q) of
             None \<Rightarrow> None
           | Some ret \<Rightarrow> Some (ret, q\<lparr>bq_head := (bq_head q + 1) smod QUEUE_SIZE\<rparr>))"

definition peek_next_buf :: "buf_queue \<Rightarrow> int option" where
  "peek_next_buf q =
     (if bq_tail q = bq_head q then Some (-1) else c_nth (bq_list q) (bq_head q))"

section \<open>Invariant and contents\<close>

definition bq_inv :: "buf_queue \<Rightarrow> bool" where
  "bq_inv q \<longleftrightarrow> length (bq_list q) = nat QUEUE_SIZE \<and>
     0 \<le> bq_head q \<and> bq_head q < QUEUE_SIZE \<and> 0 \<le> bq_tail q \<and> bq_tail q < QUEUE_SIZE"

definition bq_contents :: "buf_queue \<Rightarrow> int list" where
  "bq_contents q =
     map (\<lambda>k. bq_list q ! nat ((bq_head q + int k) mod QUEUE_SIZE)) [0..<nat (queue_size q)]"

definition bq_empty :: buf_queue where
  "bq_empty = \<lparr>bq_list = replicate 33 0, bq_head = 0, bq_tail = 0\<rparr>"

lemmas bq_consts = QUEUE_SIZE_def MAX_BUF_NUM_def

lemma queue_size_bounds: "bq_inv q \<Longrightarrow> 0 \<le> queue_size q \<and> queue_size q \<le> 32"
  by (auto simp: bq_inv_def queue_size_def bq_consts)

lemma length_bq_contents [simp]: "length (bq_contents q) = nat (queue_size q)"
  by (simp add: bq_contents_def)

lemma bq_empty_inv: "bq_inv bq_empty" and bq_empty_contents: "bq_contents bq_empty = []"
  by (simp_all add: bq_inv_def bq_empty_def bq_contents_def queue_size_def bq_consts)

text \<open>The slot of the \<open>k\<close>-th queued element is never the free slot at the tail.\<close>

lemma ring_slot_neq_tail:
  assumes "bq_inv q" and "k < nat (queue_size q)"
  shows "nat ((bq_head q + int k) mod QUEUE_SIZE) \<noteq> nat (bq_tail q)"
proof -
  have h: "0 \<le> bq_head q" "bq_head q < 33" "0 \<le> bq_tail q" "bq_tail q < 33"
    and k: "int k < queue_size q"
    using assms by (auto simp: bq_inv_def bq_consts)
  have "(bq_head q + int k) mod 33 \<noteq> bq_tail q"
    using h k by (auto simp: queue_size_def bq_consts mod_wrap split: if_splits)
  moreover have "0 \<le> (bq_head q + int k) mod 33" by simp
  ultimately show ?thesis using h by (simp add: bq_consts)
qed

lemma queue_full_iff:
  assumes "bq_inv q"
  shows "(bq_tail q + 1) mod QUEUE_SIZE = bq_head q \<longleftrightarrow> queue_size q = 32"
  using assms by (auto simp: bq_inv_def queue_size_def bq_consts mod_wrap)

lemma queue_buf_room:
  assumes inv: "bq_inv q" and room: "queue_size q < 32"
  shows "\<exists>q'. queue_buf q x = Some (0, q') \<and> bq_inv q' \<and> bq_contents q' = bq_contents q @ [x]"
proof -
  let ?t = "(bq_tail q + 1) mod QUEUE_SIZE"
  let ?q = "q\<lparr>bq_list := (bq_list q)[nat (bq_tail q) := x], bq_tail := ?t\<rparr>"
  have run: "queue_buf q x = Some (0, ?q)"
    using inv room queue_full_iff [OF inv]
    by (simp add: queue_buf_def bq_inv_def bq_consts c_arr c_num)
  have inv': "bq_inv ?q"
    using inv by (simp add: bq_inv_def bq_consts)
  have size: "queue_size ?q = queue_size q + 1"
    using inv room by (auto simp: bq_inv_def queue_size_def bq_consts mod_wrap split: if_splits)
  have bnd: "0 \<le> queue_size q" using queue_size_bounds [OF inv] by simp
  have last: "(bq_head q + queue_size q) mod QUEUE_SIZE = bq_tail q"
    using inv unfolding bq_inv_def queue_size_def bq_consts by (auto simp: mod_pos_pos_trivial)
  have len: "nat (bq_tail q) < length (bq_list q)"
    using inv by (auto simp: bq_inv_def bq_consts)
  have old: "(bq_list q)[nat (bq_tail q) := x] ! nat ((bq_head q + int k) mod QUEUE_SIZE) =
      bq_list q ! nat ((bq_head q + int k) mod QUEUE_SIZE)" if "k < nat (queue_size q)" for k
    using ring_slot_neq_tail [OF inv that] by (metis nth_list_update_neq)
  have "bq_contents ?q = bq_contents q @ [x]"
    using bnd last len old by (simp add: bq_contents_def size nat_add_distrib)
  with run inv' show ?thesis by blast
qed

lemma dequeue_buf_some:
  assumes inv: "bq_inv q" and c: "bq_contents q = x # xs"
  shows "\<exists>q'. dequeue_buf q = Some (x, q') \<and> bq_inv q' \<and> bq_contents q' = xs"
proof -
  let ?q = "q\<lparr>bq_head := (bq_head q + 1) mod QUEUE_SIZE\<rparr>"
  have pos: "0 < queue_size q"
    using c length_bq_contents [of q] by (cases "queue_size q \<le> 0") auto
  have neq: "bq_tail q \<noteq> bq_head q" using pos by (auto simp: queue_size_def)
  have upt: "[0..<nat (queue_size q)] = 0 # map Suc [0..<nat (queue_size q) - 1]"
    using pos by (simp add: map_Suc_upt upt_conv_Cons)
  have hd: "bq_list q ! nat (bq_head q) = x"
    using c inv unfolding bq_contents_def upt by (simp add: bq_inv_def mod_pos_pos_trivial)
  have run: "dequeue_buf q = Some (x, ?q)"
    using inv neq hd by (simp add: dequeue_buf_def bq_inv_def bq_consts c_arr c_num)
  have inv': "bq_inv ?q" using inv by (simp add: bq_inv_def bq_consts)
  have size: "queue_size ?q = queue_size q - 1"
    using inv neq by (auto simp: bq_inv_def queue_size_def bq_consts mod_wrap split: if_splits)
  have shift: "((bq_head q + 1) mod QUEUE_SIZE + int k) mod QUEUE_SIZE =
      (bq_head q + int (Suc k)) mod QUEUE_SIZE" for k
    by (simp add: mod_add_left_eq add.assoc)
  have "bq_contents ?q = tl (bq_contents q)"
    using pos unfolding bq_contents_def upt size
    by (simp add: comp_def nat_diff_distrib' shift del: of_nat_Suc)
  with c run inv' show ?thesis by simp
qed

lemma queue_buf_full: "bq_inv q \<Longrightarrow> queue_size q = 32 \<Longrightarrow> queue_buf q x = Some (-1, q)"
  using queue_full_iff [of q] by (simp add: queue_buf_def bq_inv_def bq_consts c_num)

lemma queue_size_0_iff: "bq_inv q \<Longrightarrow> queue_size q = 0 \<longleftrightarrow> bq_tail q = bq_head q"
  by (auto simp: queue_size_def bq_inv_def bq_consts)

lemma bq_contents_Nil_iff: "bq_inv q \<Longrightarrow> bq_contents q = [] \<longleftrightarrow> bq_tail q = bq_head q"
  using queue_size_bounds [of q] queue_size_0_iff [of q] by (auto simp flip: length_0_conv)

lemma peek_dequeue: "dequeue_buf q = Some (x, q') \<Longrightarrow> peek_next_buf q = Some x"
  by (auto simp: dequeue_buf_def peek_next_buf_def split: if_splits option.splits)

section \<open>The interface\<close>

text \<open>
  What a client of the queue relies on. The results follow the C convention: the flag or the
  element comes first, \<open>-1\<close> says full or empty, \<open>None\<close> is an access outside the array.
\<close>

datatype qop = Enq int | Deq | Peek | Size

fun fifo_step :: "nat \<Rightarrow> int list \<Rightarrow> qop \<Rightarrow> int \<times> int list" where
  "fifo_step cap xs (Enq x) = (if length xs = cap then (-1, xs) else (0, xs @ [x]))"
| "fifo_step cap xs Deq = (case xs of [] \<Rightarrow> (-1, []) | y # ys \<Rightarrow> (y, ys))"
| "fifo_step cap xs Peek = (case xs of [] \<Rightarrow> (-1, []) | y # ys \<Rightarrow> (y, xs))"
| "fifo_step cap xs Size = (int (length xs), xs)"

fun fifo_run :: "nat \<Rightarrow> int list \<Rightarrow> qop list \<Rightarrow> int list \<times> int list" where
  "fifo_run cap xs [] = ([], xs)"
| "fifo_run cap xs (p # ps) =
     (let (r, ys) = fifo_step cap xs p; (rs, zs) = fifo_run cap ys ps in (r # rs, zs))"

fun run_ops :: "('q \<Rightarrow> qop \<Rightarrow> (int \<times> 'q) option) \<Rightarrow> 'q \<Rightarrow> qop list \<Rightarrow> (int list \<times> 'q) option" where
  "run_ops step q [] = Some ([], q)"
| "run_ops step q (p # ps) =
     (case step q p of None \<Rightarrow> None
      | Some (r, q') \<Rightarrow> (case run_ops step q' ps of None \<Rightarrow> None
                         | Some (rs, q'') \<Rightarrow> Some (r # rs, q'')))"

fun bq_step :: "buf_queue \<Rightarrow> qop \<Rightarrow> (int \<times> buf_queue) option" where
  "bq_step q (Enq x) = queue_buf q x"
| "bq_step q Deq = dequeue_buf q"
| "bq_step q Peek = map_option (\<lambda>r. (r, q)) (peek_next_buf q)"
| "bq_step q Size = Some (queue_size q, q)"

locale bounded_fifo =
  fixes step :: "'q \<Rightarrow> qop \<Rightarrow> (int \<times> 'q) option"
    and contents :: "'q \<Rightarrow> int list"
    and inv :: "'q \<Rightarrow> bool"
    and cap :: nat
  assumes simulates: "inv q \<Longrightarrow>
      \<exists>q'. step q p = Some (fst (fifo_step cap (contents q) p), q') \<and> inv q' \<and>
           contents q' = snd (fifo_step cap (contents q) p)"
    and within: "inv q \<Longrightarrow> length (contents q) \<le> cap"
begin

lemma run_simulates:
  "inv q \<Longrightarrow> \<exists>q'. run_ops step q ps = Some (fst (fifo_run cap (contents q) ps), q') \<and> inv q' \<and>
      contents q' = snd (fifo_run cap (contents q) ps)"
proof (induction ps arbitrary: q)
  case Nil
  then show ?case by simp
next
  case (Cons p ps)
  from simulates [OF Cons.prems, of p] obtain q1 where q1:
    "step q p = Some (fst (fifo_step cap (contents q) p), q1)" "inv q1"
    "contents q1 = snd (fifo_step cap (contents q) p)" by blast
  from Cons.IH [OF q1(2)] q1 show ?case by (auto simp: case_prod_beta Let_def)
qed

text \<open>Elements come out in the order they went in, as long as they fit.\<close>

lemma fifo_enq_all:
  "length xs + length ys \<le> cap \<Longrightarrow>
     fifo_run cap xs (map Enq ys) = (replicate (length ys) 0, xs @ ys)"
  by (induction ys arbitrary: xs) auto

lemma fifo_deq_all: "fifo_run cap xs (replicate (length xs) Deq) = (xs, [])"
  by (induction xs) auto

lemma fifo_run_append:
  "fifo_run cap xs (ps @ ps') =
     (let (rs, ys) = fifo_run cap xs ps; (rs', zs) = fifo_run cap ys ps' in (rs @ rs', zs))"
  by (induction ps arbitrary: xs) (auto simp: Let_def case_prod_beta)

lemma in_order:
  assumes "inv q" and "contents q = []" and "length ys \<le> cap"
  shows "\<exists>q'. run_ops step q (map Enq ys @ replicate (length ys) Deq) =
      Some (replicate (length ys) 0 @ ys, q') \<and> inv q' \<and> contents q' = []"
  using run_simulates [OF assms(1), of "map Enq ys @ replicate (length ys) Deq"] assms(2,3)
  by (simp add: fifo_run_append fifo_enq_all fifo_deq_all)

end

lemma bq_step_simulates:
  assumes inv: "bq_inv q"
  shows "\<exists>q'. bq_step q p = Some (fst (fifo_step 32 (bq_contents q) p), q') \<and> bq_inv q' \<and>
      bq_contents q' = snd (fifo_step 32 (bq_contents q) p)"
proof -
  note bnd = queue_size_bounds [OF inv]
  have empty: "bq_contents q = [] \<Longrightarrow> dequeue_buf q = Some (-1, q) \<and> peek_next_buf q = Some (-1)"
    using inv by (simp add: bq_contents_Nil_iff dequeue_buf_def peek_next_buf_def)
  show ?thesis
  proof (cases p)
    case (Enq x)
    then show ?thesis
      using queue_buf_room [OF inv, of x] queue_buf_full [OF inv, of x] bnd inv
      by (cases "queue_size q = 32") auto
  next
    case Deq
    then show ?thesis using dequeue_buf_some [OF inv] empty inv by (cases "bq_contents q") auto
  next
    case Peek
    then show ?thesis using dequeue_buf_some [OF inv] empty inv
      by (cases "bq_contents q") (auto dest: peek_dequeue)
  next
    case Size
    then show ?thesis using bnd inv by simp
  qed
qed

interpretation bq: bounded_fifo bq_step bq_contents bq_inv 32
  by unfold_locales (rule bq_step_simulates, assumption, use queue_size_bounds in force)

section \<open>Properties\<close>

text \<open>
  C1: Under every sequence of \<open>queue_buf\<close>, \<open>dequeue_buf\<close>, \<open>peek_next_buf\<close> and
  \<open>queue_size\<close> calls the ring buffer never touches memory outside its array and returns
  exactly what a bounded first-in first-out list of \<open>MAX_BUF_NUM\<close> = 32 elements returns.
\<close>

theorem bq_refines_fifo:
  assumes "bq_inv q"
  shows "\<exists>q'. run_ops bq_step q ps = Some (fst (fifo_run 32 (bq_contents q) ps), q') \<and>
      bq_inv q' \<and> bq_contents q' = snd (fifo_run 32 (bq_contents q) ps)"
  by (rule bq.run_simulates [OF assms])

theorem bq_refines_fifo_witness:
  "bq_inv bq_empty \<and>
   (\<exists>q'. run_ops bq_step bq_empty [Enq 7, Enq 9, Peek, Deq, Size] = Some ([0, 0, 7, 7, 1], q') \<and>
      bq_contents q' = [9])"
  using bq_refines_fifo [OF bq_empty_inv, of "[Enq 7, Enq 9, Peek, Deq, Size]"] bq_empty_inv
  by (auto simp: bq_empty_contents)

text \<open>
  Any batch of at most 32 buffer indices queued into an empty ring is accepted in full and
  comes out again in the same order, leaving the ring empty.
\<close>

lemma bq_in_order:
  assumes "bq_inv q" and "bq_contents q = []" and "length ys \<le> 32"
  shows "\<exists>q'. run_ops bq_step q (map Enq ys @ replicate (length ys) Deq) =
      Some (replicate (length ys) 0 @ ys, q') \<and> bq_inv q' \<and> bq_contents q' = []"
  by (rule bq.in_order [OF assms])

end
