(* ===== verification/Vpu_Cmd.thy ===== *)
theory Vpu_Cmd
  imports Prelude
begin

text \<open>
  The command record every part of the VPU test application shares
  (\<^verbatim>\<open>src/test/mxc_vpu_test/vpu_test.h\<close>: \<open>struct cmd_line\<close> and the constants beside it).
  The two path arrays are kept as arrays of 256 characters; \<open>nbuf\<close> is the network buffer, NULL
  being \<open>None\<close>. A field \<open>x\<close> of the struct is \<open>cl_x\<close> here.
\<close>

record cmd_line =
  cl_input :: string
  cl_output :: string
  cl_src_scheme :: int
  cl_dst_scheme :: int
  cl_video_node :: int
  cl_video_node_capture :: int
  cl_src_fd :: int
  cl_dst_fd :: int
  cl_width :: int
  cl_height :: int
  cl_enc_width :: int
  cl_enc_height :: int
  cl_loff :: int
  cl_toff :: int
  cl_format :: int
  cl_deblock_en :: int
  cl_dering_en :: int
  cl_rot_en :: int
  cl_ext_rot_en :: int
  cl_rot_angle :: int
  cl_mirror :: int
  cl_chromaInterleave :: int
  cl_bitrate :: int
  cl_gop :: int
  cl_save_enc_hdr :: int
  cl_count :: int
  cl_prescan :: int
  cl_bs_mode :: int
  cl_nbuf :: "u8 list option"
  cl_nlen :: int
  cl_noffset :: int
  cl_seq_no :: int
  cl_port :: u16
  cl_complete :: u16
  cl_iframe :: int
  cl_mp4_h264Class :: int
  cl_vdi_motion :: char
  cl_fps :: int
  cl_mapType :: int
  cl_quantParam :: int

definition MAX_PATH :: nat where "MAX_PATH = 256"

definition PATH_V4L2 :: int where "PATH_V4L2 = 0"
definition PATH_FILE :: int where "PATH_FILE = 1"
definition PATH_NET :: int where "PATH_NET = 2"
definition PATH_IPU :: int where "PATH_IPU = 3"

definition ENCODE :: int where "ENCODE = 1"
definition DECODE :: int where "DECODE = 2"
definition LOOPBACK :: int where "LOOPBACK = 3"
definition TRANSCODE :: int where "TRANSCODE = 4"

definition DEFAULT_PORT :: u16 where "DEFAULT_PORT = 5555"
definition DEFAULT_PKT_SIZE :: int where "DEFAULT_PKT_SIZE = 0x28000"

lemmas path_defs = PATH_V4L2_def PATH_FILE_def PATH_NET_def PATH_IPU_def
lemmas op_defs = ENCODE_def DECODE_def LOOPBACK_def TRANSCODE_def

text \<open>The zero-initialised record: \<open>input_arg\<close> has static storage.\<close>

definition cmd_zero :: cmd_line where
  "cmd_zero = \<lparr>cl_input = replicate 256 CHR 0x00, cl_output = replicate 256 CHR 0x00,
     cl_src_scheme = 0, cl_dst_scheme = 0, cl_video_node = 0, cl_video_node_capture = 0,
     cl_src_fd = 0, cl_dst_fd = 0, cl_width = 0, cl_height = 0, cl_enc_width = 0,
     cl_enc_height = 0, cl_loff = 0, cl_toff = 0, cl_format = 0, cl_deblock_en = 0,
     cl_dering_en = 0, cl_rot_en = 0, cl_ext_rot_en = 0, cl_rot_angle = 0, cl_mirror = 0,
     cl_chromaInterleave = 0, cl_bitrate = 0, cl_gop = 0, cl_save_enc_hdr = 0, cl_count = 0,
     cl_prescan = 0, cl_bs_mode = 0, cl_nbuf = None, cl_nlen = 0, cl_noffset = 0,
     cl_seq_no = 0, cl_port = 0, cl_complete = 0, cl_iframe = 0, cl_mp4_h264Class = 0,
     cl_vdi_motion = CHR 0x00, cl_fps = 0, cl_mapType = 0, cl_quantParam = 0\<rparr>"

end
