(* ===== verification/Vpu_Io.thy ===== *)
theory Vpu_Io
  imports Vpu_Cmd
begin

text \<open>
  Input and output of the VPU test application (\<^verbatim>\<open>src/test/mxc_vpu_test/utils.c\<close>): the
  complete-transfer loops \<open>fwriten\<close> and \<open>freadn\<close>, the UDP framing \<open>udp_send\<close> and
  \<open>udp_recv\<close>, and the dispatchers \<open>vpu_read\<close> and \<open>vpu_write\<close>. The kernel's free
  choices are data: how much each \<open>read\<close> or \<open>write\<close> transfers is a schedule kept with the
  file, and what each \<open>select\<close>/\<open>recvfrom\<close> round brings is a list of events.
\<close>

section \<open>Files\<close>

text \<open>
  A schedule entry \<open>None\<close> is a failing system call; \<open>Some c\<close> limits the transfer to \<open>c\<close>
  bytes (a \<open>read\<close> before the end of the file returns at least one byte). An empty schedule
  transfers as much as it can.
\<close>

record rfile =
  rf_data :: "u8 list"
  rf_sched :: "nat option list"

record wfile =
  wf_data :: "u8 list"
  wf_sched :: "nat option list"

definition sys_read :: "rfile \<Rightarrow> int \<Rightarrow> int \<times> u8 list \<times> rfile" where
  "sys_read f n =
     (let give = (\<lambda>m. (int m, take m (rf_data f), f\<lparr>rf_data := drop m (rf_data f), rf_sched := tl (rf_sched f)\<rparr>));
          most = min (nat n) (length (rf_data f))
      in case rf_sched f of
           [] \<Rightarrow> give most
         | None # ss \<Rightarrow> (-1, [], f\<lparr>rf_sched := ss\<rparr>)
         | Some c # ss \<Rightarrow> give (min (max 1 c) most))"

definition sys_write :: "wfile \<Rightarrow> u8 list \<Rightarrow> int \<times> wfile" where
  "sys_write f bs =
     (let put = (\<lambda>m. (int m, f\<lparr>wf_data := wf_data f @ take m bs, wf_sched := tl (wf_sched f)\<rparr>))
      in case wf_sched f of
           [] \<Rightarrow> put (length bs)
         | None # ss \<Rightarrow> (-1, f\<lparr>wf_sched := ss\<rparr>)
         | Some c # ss \<Rightarrow> put (min c (length bs)))"

lemma sys_read_cases:
  assumes "sys_read f n = (r, bs, f')"
  obtains (err) "r = -1" "bs = []" "rf_data f' = rf_data f" "None \<in> set (rf_sched f)"
  | (ok) m where "r = int m" "bs = take m (rf_data f)" "rf_data f' = drop m (rf_data f)"
      "m \<le> nat n" "m \<le> length (rf_data f)" "m = 0 \<longleftrightarrow> nat n = 0 \<or> rf_data f = []"
      "set (rf_sched f') \<subseteq> set (rf_sched f)"
proof -
  let ?most = "min (nat n) (length (rf_data f))"
  consider (Nil) "rf_sched f = []" | (fail) ss where "rf_sched f = None # ss"
    | (lim) c ss where "rf_sched f = Some c # ss"
    by (metis neq_Nil_conv option.exhaust)
  then show thesis
  proof cases
    case Nil
    with assms show ?thesis by (intro ok [of ?most]) (auto simp: sys_read_def min_def split: if_splits)
  next
    case fail
    with assms show ?thesis by (intro err) (auto simp: sys_read_def)
  next
    case lim
    with assms show ?thesis
      by (intro ok [of "min (max 1 c) ?most"])
         (auto simp: sys_read_def Let_def min_def max_def split: if_splits)
  qed
qed

lemma sys_write_cases:
  assumes "sys_write f bs = (r, f')"
  obtains (err) "r = -1" "wf_data f' = wf_data f" "None \<in> set (wf_sched f)"
  | (ok) m where "r = int m" "wf_data f' = wf_data f @ take m bs" "m \<le> length bs"
      "set (wf_sched f') \<subseteq> set (wf_sched f)"
      "m = 0 \<longrightarrow> bs = [] \<or> Some 0 \<in> set (wf_sched f)"
proof -
  consider (Nil) "wf_sched f = []" | (fail) ss where "wf_sched f = None # ss"
    | (lim) c ss where "wf_sched f = Some c # ss"
    by (metis neq_Nil_conv option.exhaust)
  then show thesis
  proof cases
    case Nil
    with assms show ?thesis by (intro ok [of "length bs"]) (auto simp: sys_write_def)
  next
    case fail
    with assms show ?thesis by (intro err) (auto simp: sys_write_def)
  next
    case lim
    with assms show ?thesis
      by (intro ok [of "min c (length bs)"]) (auto simp: sys_write_def min_def split: if_splits)
  qed
qed

subsection \<open>The transfer loops\<close>

text \<open>
  \<open>fwriten\<close> sends the \<open>n\<close> bytes at \<open>vptr\<close> (\<open>mem\<close> is the memory from there on, \<open>off\<close>
  the distance \<open>ptr - vptr\<close>). \<open>freadn\<close> returns what it stored from \<open>vptr\<close> on, also when it
  fails half way.
\<close>

function fwriten_loop :: "wfile \<Rightarrow> u8 list \<Rightarrow> int \<Rightarrow> int \<Rightarrow> int \<Rightarrow> (int \<times> wfile) run" where
  "fwriten_loop f mem off nleft n =
     (if nleft > 0 then
        case c_slice mem off nleft of
          None \<Rightarrow> Undef
        | Some bs \<Rightarrow>
            (let (nwrite, f') = sys_write f bs
             in if nwrite \<le> 0 then Done (-1, f')
                else fwriten_loop f' mem (off + nwrite) (nleft - nwrite) n)
      else Done (n, f))"
  by pat_completeness auto
termination
  by (relation "measure (\<lambda>(f, mem, off, nleft, n). nat nleft)") auto

definition fwriten :: "wfile \<Rightarrow> u8 list \<Rightarrow> int \<Rightarrow> (int \<times> wfile) run" where
  "fwriten f mem n = fwriten_loop f mem 0 n n"

function freadn_loop :: "rfile \<Rightarrow> int \<Rightarrow> int \<Rightarrow> u8 list \<Rightarrow> int \<times> u8 list \<times> rfile" where
  "freadn_loop f n nleft out =
     (if nleft > 0 then
        (let (nread, bs, f') = sys_read f nleft
         in if nread \<le> 0 then (if nread = 0 then (n - nleft, out, f') else (-1, out, f'))
            else freadn_loop f' n (nleft - nread) (out @ bs))
      else (n - nleft, out, f))"
  by pat_completeness auto
termination
  by (relation "measure (\<lambda>(f, n, nleft, out). nat nleft)") auto

definition freadn :: "rfile \<Rightarrow> int \<Rightarrow> int \<times> u8 list \<times> rfile" where
  "freadn f n = freadn_loop f n n []"

declare fwriten_loop.simps [simp del] freadn_loop.simps [simp del]

lemma freadn_loop_done [simp]: "nleft \<le> 0 \<Longrightarrow> freadn_loop f n nleft out = (n - nleft, out, f)"
  by (simp add: freadn_loop.simps)

lemma fwriten_loop_done [simp]: "nleft \<le> 0 \<Longrightarrow> fwriten_loop f mem off nleft n = Done (n, f)"
  by (simp add: fwriten_loop.simps)

lemma freadn_loop_correct:
  assumes "freadn_loop f n nleft out = (r, buf, f')" and "0 \<le> nleft" and "nleft \<le> n"
  shows "\<exists>k. buf = out @ take k (rf_data f) \<and> rf_data f' = drop k (rf_data f) \<and>
      (r = -1 \<and> None \<in> set (rf_sched f) \<and> k \<le> min (nat nleft) (length (rf_data f)) \<or>
       k = min (nat nleft) (length (rf_data f)) \<and> r = n - nleft + int k)"
  using assms
proof (induction f n nleft out rule: freadn_loop.induct)
  case (1 f n nleft out)
  show ?case
  proof (cases "nleft > 0")
    case False
    then show ?thesis using "1.prems" by (intro exI [of _ 0]) auto
  next
    case True
    obtain nread bs g where rd: "sys_read f nleft = (nread, bs, g)" by (cases "sys_read f nleft")
    note unf = freadn_loop.simps [of f n nleft out]
    from rd show ?thesis
    proof (cases rule: sys_read_cases)
      case err
      then show ?thesis using "1.prems" True rd by (auto simp: unf intro!: exI [of _ 0])
    next
      case (ok m)
      show ?thesis
      proof (cases "m = 0")
        case True
        then show ?thesis using "1.prems" ok \<open>nleft > 0\<close> rd by (auto simp: unf)
      next
        case False
        then have rec: "freadn_loop g n (nleft - nread) (out @ bs) = (r, buf, f')"
          using "1.prems" True rd ok by (simp add: unf)
        have le: "0 \<le> nleft - nread" "nleft - nread \<le> n" using "1.prems" ok True by auto
        have pos: "\<not> nread \<le> 0" using ok False by simp
        from "1.IH" [OF True rd [symmetric] refl refl pos rec le] obtain k where k:
          "buf = (out @ bs) @ take k (rf_data g)" "rf_data f' = drop k (rf_data g)"
          "r = -1 \<and> None \<in> set (rf_sched g) \<and> k \<le> min (nat (nleft - nread)) (length (rf_data g)) \<or>
           k = min (nat (nleft - nread)) (length (rf_data g)) \<and> r = n - (nleft - nread) + int k"
          by blast
        have "buf = out @ take (m + k) (rf_data f)" "rf_data f' = drop (m + k) (rf_data f)"
          using k(1,2) ok by (simp_all add: take_add [of m k] add.commute [of k m])
        moreover have "r = -1 \<and> None \<in> set (rf_sched f) \<and> m + k \<le> min (nat nleft) (length (rf_data f)) \<or>
           m + k = min (nat nleft) (length (rf_data f)) \<and> r = n - nleft + int (m + k)"
          using k(3) ok by (auto simp: nat_diff_distrib')
        ultimately show ?thesis by blast
      qed
    qed
  qed
qed

lemma fwriten_loop_correct:
  assumes "fwriten_loop f mem off nleft n = Done (r, f')" and "0 \<le> nleft" and "0 \<le> off"
    and "off + nleft \<le> int (length mem)"
  shows "\<exists>k. wf_data f' = wf_data f @ take k (drop (nat off) mem) \<and> k \<le> nat nleft \<and>
      (k = nat nleft \<and> r = n \<or> r = -1 \<and> (None \<in> set (wf_sched f) \<or> Some 0 \<in> set (wf_sched f)))"
  using assms
proof (induction f mem off nleft n rule: fwriten_loop.induct)
  case (1 f mem off nleft n)
  show ?case
  proof (cases "nleft > 0")
    case False
    then show ?thesis using "1.prems" by (intro exI [of _ 0]) auto
  next
    case True
    let ?bs = "take (nat nleft) (drop (nat off) mem)"
    have sl: "c_slice mem off nleft = Some ?bs" using "1.prems" by (simp add: c_arr)
    obtain nwrite g where wr: "sys_write f ?bs = (nwrite, g)" by (cases "sys_write f ?bs")
    note unf = fwriten_loop.simps [of f mem off nleft n]
    have len: "length ?bs = nat nleft" using "1.prems" by auto
    from wr show ?thesis
    proof (cases rule: sys_write_cases)
      case err
      then show ?thesis using "1.prems" True sl wr by (intro exI [of _ 0]) (auto simp: unf)
    next
      case (ok m)
      show ?thesis
      proof (cases "m = 0")
        case m0: True
        then have "Some 0 \<in> set (wf_sched f)" using ok(5) len True by auto
        then show ?thesis using "1.prems" ok m0 True sl wr by (intro exI [of _ 0]) (auto simp: unf)
      next
        case False
        have rec: "fwriten_loop g mem (off + nwrite) (nleft - nwrite) n = Done (r, f')"
          using "1.prems" True sl wr ok False by (simp add: unf)
        have le: "0 \<le> nleft - nwrite" "0 \<le> off + nwrite" "off + nwrite + (nleft - nwrite) \<le> int (length mem)"
          using "1.prems" ok len by auto
        have pos: "\<not> nwrite \<le> 0" using ok False by simp
        from "1.IH" [OF True sl wr [symmetric] refl pos rec le] obtain k where k:
          "wf_data f' = wf_data g @ take k (drop (nat (off + nwrite)) mem)" "k \<le> nat (nleft - nwrite)"
          "k = nat (nleft - nwrite) \<and> r = n \<or> r = -1 \<and> (None \<in> set (wf_sched g) \<or> Some 0 \<in> set (wf_sched g))"
          by blast
        have mle: "m \<le> nat nleft" using ok(3) len by simp
        have off: "nat (off + nwrite) = nat off + m" using ok "1.prems" by simp
        have "wf_data f' = wf_data f @ take (m + k) (drop (nat off) mem)"
          using k(1) ok len off
          by (simp add: take_add [of m k "drop (nat off) mem"] min_def add.commute [of "nat off" m])
        moreover have "m + k \<le> nat nleft" "m + k = nat nleft \<and> r = n \<or>
            r = -1 \<and> (None \<in> set (wf_sched f) \<or> Some 0 \<in> set (wf_sched f))"
          using k(2,3) ok(1,4) mle by (auto simp: nat_diff_distrib')
        ultimately show ?thesis by blast
      qed
    qed
  qed
qed

lemma fwriten_loop_safe:
  assumes "0 \<le> off" and "0 \<le> nleft" and "off + nleft \<le> int (length mem)"
  shows "\<exists>r f'. fwriten_loop f mem off nleft n = Done (r, f')"
  using assms
proof (induction f mem off nleft n rule: fwriten_loop.induct)
  case (1 f mem off nleft n)
  show ?case
  proof (cases "nleft > 0")
    case True
    let ?bs = "take (nat nleft) (drop (nat off) mem)"
    have sl: "c_slice mem off nleft = Some ?bs" using "1.prems" by (simp add: c_arr)
    obtain nwrite g where wr: "sys_write f ?bs = (nwrite, g)" by (cases "sys_write f ?bs")
    note unf = fwriten_loop.simps [of f mem off nleft n]
    have le: "nwrite \<le> nleft"
      using wr "1.prems" by (cases rule: sys_write_cases) auto
    show ?thesis
    proof (cases "nwrite \<le> 0")
      case True
      then show ?thesis using \<open>nleft > 0\<close> sl wr by (simp add: unf)
    next
      case False
      have "\<exists>r f'. fwriten_loop g mem (off + nwrite) (nleft - nwrite) n = Done (r, f')"
        by (rule "1.IH" [OF True sl wr [symmetric] refl False]) (use "1.prems" le False in auto)
      then show ?thesis using True sl wr False by (simp add: unf)
    qed
  qed simp
qed

text \<open>The rest of a schedule is part of it.\<close>

lemma freadn_loop_sched:
  "freadn_loop f n nleft out = (r, buf, f') \<Longrightarrow> set (rf_sched f') \<subseteq> set (rf_sched f)"
proof (induction f n nleft out rule: freadn_loop.induct)
  case (1 f n nleft out)
  show ?case
  proof (cases "nleft > 0")
    case True
    obtain nread bs g where rd: "sys_read f nleft = (nread, bs, g)" by (cases "sys_read f nleft")
    have sub: "set (rf_sched g) \<subseteq> set (rf_sched f)"
      using rd by (auto simp: sys_read_def Let_def split: list.splits option.splits dest: list.set_sel)
    show ?thesis
    proof (cases "nread \<le> 0")
      case True
      with "1.prems" \<open>nleft > 0\<close> rd sub show ?thesis
        by (simp add: freadn_loop.simps [of f n nleft out] split: if_splits)
    next
      case False
      with "1.prems" \<open>nleft > 0\<close> rd have "freadn_loop g n (nleft - nread) (out @ bs) = (r, buf, f')"
        by (simp add: freadn_loop.simps [of f n nleft out])
      from "1.IH" [OF True rd [symmetric] refl refl False this] sub show ?thesis by blast
    qed
  qed (use "1.prems" in simp)
qed

text \<open>Schedules without failing writes.\<close>

definition writes_succeed :: "wfile \<Rightarrow> bool" where
  "writes_succeed f \<longleftrightarrow> None \<notin> set (wf_sched f) \<and> Some 0 \<notin> set (wf_sched f)"

lemma fwriten_loop_sched:
  "fwriten_loop f mem off nleft n = Done (r, f') \<Longrightarrow> set (wf_sched f') \<subseteq> set (wf_sched f)"
proof (induction f mem off nleft n rule: fwriten_loop.induct)
  case (1 f mem off nleft n)
  note unf = fwriten_loop.simps [of f mem off nleft n]
  show ?case
  proof (cases "nleft > 0")
    case True
    then obtain bs where bs: "c_slice mem off nleft = Some bs" using "1.prems" by (auto simp: unf split: option.splits)
    obtain nw g where wr: "sys_write f bs = (nw, g)" by (cases "sys_write f bs")
    have sub: "set (wf_sched g) \<subseteq> set (wf_sched f)"
      using wr by (auto simp: sys_write_def Let_def split: list.splits option.splits dest: list.set_sel)
    show ?thesis
    proof (cases "nw \<le> 0")
      case True
      with "1.prems" \<open>nleft > 0\<close> bs wr sub show ?thesis by (auto simp: unf)
    next
      case False
      with "1.prems" \<open>nleft > 0\<close> bs wr have "fwriten_loop g mem (off + nw) (nleft - nw) n = Done (r, f')" by (simp add: unf)
      from "1.IH" [OF True bs wr [symmetric] refl False this] sub show ?thesis by blast
    qed
  qed (use "1.prems" in simp)
qed

lemma fwriten_succeeds:
  assumes "writes_succeed f" and "0 \<le> n" and "n \<le> int (length mem)"
  obtains f' where "fwriten f mem n = Done (n, f')" "wf_data f' = wf_data f @ take (nat n) mem" "writes_succeed f'"
proof -
  from fwriten_loop_safe [of 0 n mem f n] assms obtain r f' where run: "fwriten_loop f mem 0 n n = Done (r, f')" by auto
  have "r = n" "wf_data f' = wf_data f @ take (nat n) mem"
    using fwriten_loop_correct [OF run] assms by (auto simp: writes_succeed_def)
  moreover have "writes_succeed f'" using fwriten_loop_sched [OF run] assms(1) by (auto simp: writes_succeed_def)
  ultimately show thesis using run that by (simp add: fwriten_def)
qed

section \<open>UDP framing\<close>

text \<open>
  Each datagram carries the 12-byte \<open>struct nethdr\<close> (sequence number, I-frame flag, payload
  length, little endian) and the payload. \<open>udp_send\<close> of zero bytes sends the end marker, whose
  I-frame word is an uninitialised stack word (\<open>junk\<close>). A round of \<open>select\<close> and
  \<open>recvfrom\<close> is one event; a timeout records the value of \<open>quitflag\<close> at that moment.
\<close>

datatype net_event = SelectError | Timeout bool | RecvError | Datagram "u8 list"

definition nethdr :: "int \<Rightarrow> int \<Rightarrow> int \<Rightarrow> u8 list" where
  "nethdr seqno iframe len =
     le32 (word_of_int seqno) @ le32 (word_of_int iframe) @ le32 (word_of_int len)"

definition hdrlen :: int where "hdrlen = 12"

definition hdr_seqno :: "u8 list \<Rightarrow> int" where "hdr_seqno h = s32 (of_le32 h)"
definition hdr_iframe :: "u8 list \<Rightarrow> int" where "hdr_iframe h = s32 (of_le32 (drop 4 h))"
definition hdr_len :: "u8 list \<Rightarrow> int" where "hdr_len h = s32 (of_le32 (drop 8 h))"

definition udp_send ::
    "bool \<Rightarrow> u32 \<Rightarrow> cmd_line \<Rightarrow> u8 list \<Rightarrow> int \<Rightarrow> (int \<times> cmd_line \<times> u8 list list) run" where
  "udp_send ok junk cmd buf n =
     (if n + hdrlen > DEFAULT_PKT_SIZE then Blocked
      else case cl_nbuf cmd of
        None \<Rightarrow> Undef
      | Some nb \<Rightarrow>
          (let filled =
             (if n = 0 then
                map_option (\<lambda>nb'. (nb', cmd)) (c_store nb 0 (nethdr (-1) (s32 junk) 0))
              else
                (let cmd' = cmd\<lparr>cl_seq_no := cl_seq_no cmd + 1\<rparr>
                 in case (c_store nb 0 (nethdr (cl_seq_no cmd) (cl_iframe cmd) n), c_slice buf 0 n) of
                      (Some nb', Some bs) \<Rightarrow> map_option (\<lambda>nb''. (nb'', cmd')) (c_store nb' hdrlen bs)
                    | _ \<Rightarrow> None))
           in case filled of
                None \<Rightarrow> Undef
              | Some (nb', cmd') \<Rightarrow>
                  (case c_slice nb' 0 (n + hdrlen) of
                     None \<Rightarrow> Undef
                   | Some pkt \<Rightarrow>
                       (let cmd'' = cmd'\<lparr>cl_nbuf := Some nb'\<rparr>
                        in if ok then Done (n + hdrlen, cmd'', [pkt]) else Done (-1, cmd'', [])))))"

text \<open>
  The receive loop: \<open>n\<close>, \<open>nleft\<close>, \<open>ntotal\<close> as in the source, \<open>out\<close> the bytes
  stored so far from \<open>buf\<close> on.
\<close>

fun udp_recv_loop ::
    "net_event list \<Rightarrow> cmd_line \<Rightarrow> int \<Rightarrow> int \<Rightarrow> int \<Rightarrow> u8 list \<Rightarrow>
     (int \<times> u8 list \<times> cmd_line \<times> net_event list) run" where
  "udp_recv_loop [] cmd n nleft ntotal out =
     (if nleft > 0 then Blocked else Done (n, out, cmd, []))"
| "udp_recv_loop (e # es) cmd n nleft ntotal out =
     (if \<not> nleft > 0 then Done (n, out, cmd, e # es)
      else case e of
        SelectError \<Rightarrow> Done (-1, out, cmd, es)
      | Timeout quitflag \<Rightarrow>
          (if quitflag then Done (ntotal, out, cmd, es)
           else if cl_complete cmd \<noteq> 0 then udp_recv_loop es cmd n nleft ntotal out
           else if ntotal = 0 then Done (- EAGAIN, out, cmd, es)
           else Done (ntotal, out, cmd, es))
      | RecvError \<Rightarrow> Done (-1, out, cmd, es)
      | Datagram d \<Rightarrow>
          (case cl_nbuf cmd of
             None \<Rightarrow> Undef
           | Some nb0 \<Rightarrow>
              (let dat = take (nat DEFAULT_PKT_SIZE) d; nread = int (length dat)
               in case c_store nb0 0 dat of
                 None \<Rightarrow> Undef
               | Some nb \<Rightarrow>
                 (case c_slice nb 0 hdrlen of
                    None \<Rightarrow> Undef
                  | Some h \<Rightarrow>
                    (let cmd1 = cmd\<lparr>cl_nbuf := Some nb\<rparr>
                     in if hdr_len h = 0 then
                          Done (n - nleft, out, cmd1\<lparr>cl_nlen := -1\<rparr>, es)
                        else
                          (let nactual = nread - hdrlen;
                               skipped = (cl_seq_no cmd1 \<noteq> hdr_seqno h);
                               cmd2 = cmd1\<lparr>cl_seq_no := cl_seq_no cmd1 + 1\<rparr>
                           in if skipped \<and> hdr_iframe h \<noteq> 1 then
                                udp_recv_loop es cmd2 n nleft ntotal out
                              else
                                (let cmd3 = (if skipped then cmd2\<lparr>cl_seq_no := hdr_seqno h + 1\<rparr> else cmd2);
                                     nremain = (if nactual > nleft then nleft else nactual);
                                     cmd4 = (if nactual > nleft
                                             then cmd3\<lparr>cl_nlen := nactual - nleft, cl_noffset := nleft + hdrlen\<rparr>
                                             else cmd3)
                                 in case c_slice nb hdrlen nremain of
                                      None \<Rightarrow> Undef
                                    | Some bs \<Rightarrow>
                                        udp_recv_loop es cmd4 n (nleft - nremain) (ntotal + nremain) (out @ bs))))))))"

definition udp_recv ::
    "net_event list \<Rightarrow> cmd_line \<Rightarrow> int \<Rightarrow> (int \<times> u8 list \<times> cmd_line \<times> net_event list) run" where
  "udp_recv es cmd n =
     (if cl_nlen cmd \<noteq> 0 then
        if cl_nlen cmd = -1 then Done (0, [], cmd, es)
        else case cl_nbuf cmd of
          None \<Rightarrow> Undef
        | Some nb \<Rightarrow>
            (if cl_nlen cmd > n then
               (case c_slice nb (cl_noffset cmd) n of
                  None \<Rightarrow> Undef
                | Some bs \<Rightarrow>
                    Done (n, bs, cmd\<lparr>cl_nlen := cl_nlen cmd - n, cl_noffset := cl_noffset cmd + n\<rparr>, es))
             else
               (case c_slice nb (cl_noffset cmd) (cl_nlen cmd) of
                  None \<Rightarrow> Undef
                | Some bs \<Rightarrow>
                    udp_recv_loop es (cmd\<lparr>cl_nlen := 0\<rparr>) n (n - cl_nlen cmd) (cl_nlen cmd) bs))
      else udp_recv_loop es cmd n n 0 [])"

section \<open>The dispatchers\<close>

text \<open>
  The outside world of one test instance: the input and output file, the datagrams that arrive,
  the datagrams sent, and whether each \<open>sendto\<close> succeeds.
\<close>

record vpu_world =
  vw_src :: rfile
  vw_dst :: wfile
  vw_net :: "net_event list"
  vw_sent :: "u8 list list"
  vw_send_ok :: "bool list"
  vw_junk :: u32

definition vpu_read :: "vpu_world \<Rightarrow> cmd_line \<Rightarrow> int \<Rightarrow> (int \<times> u8 list \<times> cmd_line \<times> vpu_world) run" where
  "vpu_read w cmd n =
     (if cl_src_scheme cmd = PATH_NET then
        run_bind (udp_recv (vw_net w) cmd n)
          (\<lambda>(r, bs, cmd', es). Done (r, bs, cmd', w\<lparr>vw_net := es\<rparr>))
      else (let (r, bs, f) = freadn (vw_src w) n in Done (r, bs, cmd, w\<lparr>vw_src := f\<rparr>)))"

definition vpu_write :: "vpu_world \<Rightarrow> cmd_line \<Rightarrow> u8 list \<Rightarrow> int \<Rightarrow> (int \<times> cmd_line \<times> vpu_world) run" where
  "vpu_write w cmd buf n =
     (if cl_dst_scheme cmd = PATH_NET then
        (let ok = (case vw_send_ok w of [] \<Rightarrow> True | b # _ \<Rightarrow> b)
         in run_bind (udp_send ok (vw_junk w) cmd buf n)
              (\<lambda>(r, cmd', ps). Done (r, cmd', w\<lparr>vw_sent := vw_sent w @ ps, vw_send_ok := tl (vw_send_ok w)\<rparr>)))
      else run_bind (fwriten (vw_dst w) buf n) (\<lambda>(r, f). Done (r, cmd, w\<lparr>vw_dst := f\<rparr>)))"

end
