(* ===== verification/Vpu_Net.thy ===== *)
theory Vpu_Net
  imports Vpu_Io
begin

text \<open>
  Correctness of the UDP path of \<^verbatim>\<open>utils.c\<close>: the buffered leftover of a datagram together
  with the datagrams still to come form a byte stream; \<open>udp_recv\<close> reads exactly the next
  bytes of it, \<open>udp_send\<close> appends to it, and the receiver never leaves its buffers.
\<close>

section \<open>Invariant, leftover and stream\<close>

definition net_inv :: "cmd_line \<Rightarrow> bool" where
  "net_inv cmd \<longleftrightarrow> (\<exists>nb. cl_nbuf cmd = Some nb \<and> int (length nb) = DEFAULT_PKT_SIZE) \<and>
     (cl_nlen cmd = -1 \<or> cl_nlen cmd = 0 \<or>
      0 < cl_nlen cmd \<and> 0 \<le> cl_noffset cmd \<and> cl_noffset cmd + cl_nlen cmd \<le> DEFAULT_PKT_SIZE)"

definition pending :: "cmd_line \<Rightarrow> u8 list" where
  "pending cmd = (case cl_nbuf cmd of None \<Rightarrow> []
     | Some nb \<Rightarrow> if 0 < cl_nlen cmd then take (nat (cl_nlen cmd)) (drop (nat (cl_noffset cmd)) nb) else [])"

definition packet :: "int \<Rightarrow> int \<Rightarrow> u8 list \<Rightarrow> u8 list" where
  "packet s i p = nethdr s i (int (length p)) @ p"

fun packets :: "int \<Rightarrow> int \<Rightarrow> u8 list list \<Rightarrow> u8 list list" where
  "packets s i [] = []"
| "packets s i (p # ps) = packet s i p # packets (s + 1) i ps"

definition payload_ok :: "u8 list \<Rightarrow> bool" where
  "payload_ok p \<longleftrightarrow> p \<noteq> [] \<and> int (length p) + hdrlen \<le> DEFAULT_PKT_SIZE"

lemma pkt_size: "DEFAULT_PKT_SIZE = 163840"
  by (simp add: DEFAULT_PKT_SIZE_def)

lemma length_nethdr [simp]: "length (nethdr s i l) = 12"
  by (simp add: nethdr_def)

lemma nethdr_fields:
  "int32 s \<Longrightarrow> hdr_seqno (nethdr s i l) = s"
  "int32 i \<Longrightarrow> hdr_iframe (nethdr s i l) = i"
  "int32 l \<Longrightarrow> hdr_len (nethdr s i l) = l"
proof -
  show "int32 s \<Longrightarrow> hdr_seqno (nethdr s i l) = s"
    by (simp add: hdr_seqno_def nethdr_def s32_of_int)
  show "int32 i \<Longrightarrow> hdr_iframe (nethdr s i l) = i"
    by (simp add: hdr_iframe_def nethdr_def s32_of_int)
  show "int32 l \<Longrightarrow> hdr_len (nethdr s i l) = l"
    using of_le32_le32 [of "word_of_int l" "[]"]
    by (simp add: hdr_len_def nethdr_def s32_of_int del: of_le32_le32)
qed

lemma length_pending: "net_inv cmd \<Longrightarrow> 0 \<le> cl_nlen cmd \<Longrightarrow> int (length (pending cmd)) = cl_nlen cmd"
  by (auto simp: net_inv_def pending_def)

section \<open>One datagram in sequence\<close>

definition after_packet :: "cmd_line \<Rightarrow> u8 list \<Rightarrow> u8 list \<Rightarrow> int \<Rightarrow> cmd_line" where
  "after_packet cmd pkt p nleft =
     (let cmd2 = cmd\<lparr>cl_nbuf := Some (pkt @ drop (length pkt) (the (cl_nbuf cmd))),
                     cl_seq_no := cl_seq_no cmd + 1\<rparr>
      in if int (length p) > nleft
         then cmd2\<lparr>cl_nlen := int (length p) - nleft, cl_noffset := nleft + hdrlen\<rparr> else cmd2)"

lemma udp_recv_packet:
  assumes nb: "cl_nbuf cmd = Some nb" "int (length nb) = DEFAULT_PKT_SIZE"
    and seq: "cl_seq_no cmd = s" "int32 s" "int32 i" and p: "payload_ok p" and nleft: "0 < nleft"
  shows "udp_recv_loop (Datagram (packet s i p) # es) cmd n nleft ntotal out =
     udp_recv_loop es (after_packet cmd (packet s i p) p nleft) n
       (nleft - min nleft (int (length p))) (ntotal + min nleft (int (length p)))
       (out @ take (nat nleft) p)"
proof -
  let ?pkt = "packet s i p"
  have len: "length ?pkt = 12 + length p" by (simp add: packet_def)
  have plen: "0 < length p" "int (length p) + 12 \<le> 163840" "int32 (int (length p))"
    using p by (auto simp: payload_ok_def hdrlen_def pkt_size int32_def)
  have nblen: "length nb = 163840" using nb by (simp add: pkt_size)
  define nb' where "nb' = ?pkt @ drop (length ?pkt) nb"
  have tk: "take (nat DEFAULT_PKT_SIZE) ?pkt = ?pkt"
    using plen len by (simp add: pkt_size)
  have st: "c_store nb 0 ?pkt = Some nb'"
    using plen len nblen by (simp add: c_store_def nb'_def)
  have h: "c_slice nb' 0 hdrlen = Some (nethdr s i (int (length p)))"
    using plen len nblen by (simp add: c_slice_def hdrlen_def nb'_def) (simp add: packet_def)
  have sl: "c_slice nb' hdrlen m = Some (take (nat m) p)" if "0 \<le> m" "m \<le> int (length p)" for m
    using plen len nblen that by (simp add: c_slice_def hdrlen_def nb'_def) (simp add: packet_def)
  have fields: "hdr_seqno (nethdr s i (int (length p))) = s" "hdr_len (nethdr s i (int (length p))) \<noteq> 0"
    using seq plen by (simp_all add: nethdr_fields)
  have nact: "int (length ?pkt) - hdrlen = int (length p)"
    by (simp add: len hdrlen_def)
  have cmd': "after_packet cmd ?pkt p nleft = (let cmd2 = cmd\<lparr>cl_nbuf := Some nb', cl_seq_no := s + 1\<rparr>
      in if int (length p) > nleft
         then cmd2\<lparr>cl_nlen := int (length p) - nleft, cl_noffset := nleft + hdrlen\<rparr> else cmd2)"
    by (simp add: after_packet_def nb nb'_def seq)
  show ?thesis
    using nleft seq(1) unfolding cmd' udp_recv_loop.simps(2)
    by (simp add: nb tk st h fields sl nact Let_def min_def)
qed

lemma after_packet_inv:
  fixes s i :: int
  assumes nb: "cl_nbuf cmd = Some nb" "int (length nb) = DEFAULT_PKT_SIZE" "cl_nlen cmd = 0"
    and p: "payload_ok p" and nleft: "0 < nleft"
  defines "cmd' \<equiv> after_packet cmd (packet s i p) p nleft"
  shows "net_inv cmd'" and "0 \<le> cl_nlen cmd'" and "pending cmd' = drop (nat nleft) p"
    and "cl_seq_no cmd' = cl_seq_no cmd + 1"
    and "int (length p) \<le> nleft \<Longrightarrow> cl_nlen cmd' = 0"
proof -
  have plen: "int (length p) + 12 \<le> 163840" "length nb = 163840"
    using p nb by (auto simp: payload_ok_def hdrlen_def pkt_size)
  have len: "length (packet s i p) = 12 + length p" by (simp add: packet_def)
  show "net_inv cmd'" using plen nb len nleft
    by (auto simp: cmd'_def after_packet_def net_inv_def hdrlen_def pkt_size Let_def)
  show "0 \<le> cl_nlen cmd'" "cl_seq_no cmd' = cl_seq_no cmd + 1"
      "int (length p) \<le> nleft \<Longrightarrow> cl_nlen cmd' = 0"
    using nb by (auto simp: cmd'_def after_packet_def Let_def)
  show "pending cmd' = drop (nat nleft) p"
  proof (cases "int (length p) > nleft")
    case True
    have "nat (nleft + 12) = 12 + nat nleft" using nleft by simp
    with True show ?thesis using nb len nleft
      by (simp add: cmd'_def after_packet_def pending_def hdrlen_def Let_def packet_def nat_diff_distrib')
  next
    case False
    then show ?thesis using nb by (simp add: cmd'_def after_packet_def pending_def Let_def)
  qed
qed

section \<open>The stream\<close>

lemma udp_recv_loop_stream:
  assumes "cl_nbuf cmd = Some nb" and "int (length nb) = DEFAULT_PKT_SIZE" and "cl_nlen cmd = 0"
    and "cl_seq_no cmd = s" and "int32 s" and "int32 (s + int (length ps))" and "int32 i"
    and "list_all payload_ok ps" and "0 \<le> nleft" and "nleft \<le> int (length (concat ps))"
  shows "\<exists>cmd' k. udp_recv_loop (map Datagram (packets s i ps) @ es) cmd n nleft ntotal out =
        Done (n, out @ take (nat nleft) (concat ps), cmd', map Datagram (packets (s + int k) i (drop k ps)) @ es) \<and>
      k \<le> length ps \<and> net_inv cmd' \<and> 0 \<le> cl_nlen cmd' \<and> cl_seq_no cmd' = s + int k \<and>
      pending cmd' @ concat (drop k ps) = drop (nat nleft) (concat ps)"
  using assms
proof (induction ps arbitrary: cmd nb s nleft ntotal out)
  case Nil
  then show ?case
    by (intro exI [of _ cmd] exI [of _ 0]) (cases es; auto simp: net_inv_def pending_def)
next
  case (Cons p ps)
  note nb = Cons.prems(1-3) and seq = Cons.prems(4-7)
  have p: "payload_ok p" and ps: "list_all payload_ok ps" using Cons.prems(8) by auto
  show ?case
  proof (cases "0 < nleft")
    case False
    then show ?thesis using Cons.prems
      by (intro exI [of _ cmd] exI [of _ 0]) (auto simp: net_inv_def pending_def)
  next
    case True
    let ?c = "after_packet cmd (packet s i p) p nleft"
    let ?rest = "map Datagram (packets (s + 1) i ps) @ es"
    have step: "udp_recv_loop (map Datagram (packets s i (p # ps)) @ es) cmd n nleft ntotal out =
        udp_recv_loop ?rest ?c n (nleft - min nleft (int (length p)))
          (ntotal + min nleft (int (length p))) (out @ take (nat nleft) p)"
      using udp_recv_packet [OF nb(1,2) seq(1,2,4) p True] by simp
    note inv = after_packet_inv [OF nb p True, of s i]
    show ?thesis
    proof (cases "nleft \<le> int (length p)")
      case fits: True
      then have "udp_recv_loop ?rest ?c n (nleft - min nleft (int (length p)))
          (ntotal + min nleft (int (length p))) (out @ take (nat nleft) p) =
          Done (n, out @ take (nat nleft) p, ?c, ?rest)"
        by (cases ?rest) (auto simp: min_def)
      with fits step inv seq show ?thesis
        by (intro exI [of _ ?c] exI [of _ 1]) auto
    next
      case False
      then have c0: "cl_nlen ?c = 0" using inv(5) by simp
      from inv(1) obtain nb' where nb': "cl_nbuf ?c = Some nb'" "int (length nb') = DEFAULT_PKT_SIZE"
        by (auto simp: net_inv_def)
      have seq': "cl_seq_no ?c = s + 1" "int32 (s + 1)" "int32 (s + 1 + int (length ps))"
        using inv(4) seq by (auto simp: int32_def)
      have le: "0 \<le> nleft - int (length p)" "nleft - int (length p) \<le> int (length (concat ps))"
        using False Cons.prems(10) by auto
      from Cons.IH [OF nb' c0 seq'(1,2,3) seq(4) ps le, of "ntotal + int (length p)" "out @ p"]
      obtain cmd' k where k:
        "udp_recv_loop ?rest ?c n (nleft - int (length p)) (ntotal + int (length p)) (out @ p) =
          Done (n, (out @ p) @ take (nat (nleft - int (length p))) (concat ps), cmd',
            map Datagram (packets (s + 1 + int k) i (drop k ps)) @ es)"
        "k \<le> length ps" "net_inv cmd'" "0 \<le> cl_nlen cmd'" "cl_seq_no cmd' = s + 1 + int k"
        "pending cmd' @ concat (drop k ps) = drop (nat (nleft - int (length p))) (concat ps)"
        by blast
      have "nat (nleft - int (length p)) = nat nleft - length p" using False by linarith
      with k step False show ?thesis
        by (intro exI [of _ cmd'] exI [of _ "Suc k"]) (auto simp: min_def add_ac)
    qed
  qed
qed

text \<open>A request that the rest of the last datagram serves alone reads no new datagram.\<close>

lemma udp_recv_from_pending:
  assumes inv: "net_inv cmd" and pos: "0 < cl_nlen cmd" and n: "0 \<le> n" "n < cl_nlen cmd"
  shows "\<exists>cmd'. udp_recv es cmd n = Done (n, take (nat n) (pending cmd), cmd', es) \<and> net_inv cmd' \<and> 0 \<le> cl_nlen cmd' \<and>
    cl_seq_no cmd' = cl_seq_no cmd \<and> pending cmd' = drop (nat n) (pending cmd)"
proof -
  let ?c = "cmd\<lparr>cl_nlen := cl_nlen cmd - n, cl_noffset := cl_noffset cmd + n\<rparr>"
  from inv obtain nb where nb: "cl_nbuf cmd = Some nb" "int (length nb) = DEFAULT_PKT_SIZE" by (auto simp: net_inv_def)
  have off: "0 \<le> cl_noffset cmd" "cl_noffset cmd + cl_nlen cmd \<le> int (length nb)" using inv nb pos by (auto simp: net_inv_def)
  have pen: "pending cmd = take (nat (cl_nlen cmd)) (drop (nat (cl_noffset cmd)) nb)" using nb pos by (simp add: pending_def)
  have sl: "c_slice nb (cl_noffset cmd) n = Some (take (nat n) (drop (nat (cl_noffset cmd)) nb))" using off n by (simp add: c_arr)
  have rest: "pending ?c = drop (nat n) (pending cmd)"
    using nb n off by (simp add: pen pending_def drop_take nat_diff_distrib' nat_add_distrib add.commute)
  have "net_inv ?c" using inv nb n off pos by (auto simp: net_inv_def)
  then show ?thesis using pos n nb sl rest by (intro exI [of _ ?c]) (auto simp: udp_recv_def pen min_def)
qed

lemma udp_recv_stream:
  assumes inv: "net_inv cmd" "0 \<le> cl_nlen cmd"
    and seq: "cl_seq_no cmd = s" "int32 s" "int32 (s + int (length ps))" "int32 i"
    and ps: "list_all payload_ok ps" and n: "0 \<le> n" "n \<le> int (length (pending cmd @ concat ps))"
  shows "\<exists>cmd' k. udp_recv (map Datagram (packets s i ps) @ es) cmd n =
        Done (n, take (nat n) (pending cmd @ concat ps), cmd', map Datagram (packets (s + int k) i (drop k ps)) @ es) \<and>
      k \<le> length ps \<and> net_inv cmd' \<and> 0 \<le> cl_nlen cmd' \<and> cl_seq_no cmd' = s + int k \<and>
      pending cmd' @ concat (drop k ps) = drop (nat n) (pending cmd @ concat ps)"
proof -
  from inv obtain nb where nb: "cl_nbuf cmd = Some nb" "int (length nb) = DEFAULT_PKT_SIZE"
    by (auto simp: net_inv_def)
  show ?thesis
  proof (cases "cl_nlen cmd = 0")
    case True
    then show ?thesis
      using udp_recv_loop_stream [OF nb True seq ps n(1), of es n 0 "[]"] n nb
      by (simp add: udp_recv_def pending_def)
  next
    case False
    then have pos: "0 < cl_nlen cmd" "cl_nlen cmd \<noteq> -1" using inv by auto
    then have off: "0 \<le> cl_noffset cmd" "cl_noffset cmd + cl_nlen cmd \<le> int (length nb)"
      using inv nb by (auto simp: net_inv_def)
    have pen: "pending cmd = take (nat (cl_nlen cmd)) (drop (nat (cl_noffset cmd)) nb)"
      and plen: "int (length (pending cmd)) = cl_nlen cmd"
      using nb pos length_pending [OF inv] by (simp_all add: pending_def)
    show ?thesis
    proof (cases "cl_nlen cmd > n")
      case True
      then obtain cmd' where "udp_recv (map Datagram (packets s i ps) @ es) cmd n =
          Done (n, take (nat n) (pending cmd), cmd', map Datagram (packets s i ps) @ es)" "net_inv cmd'" "0 \<le> cl_nlen cmd'"
          "cl_seq_no cmd' = cl_seq_no cmd" "pending cmd' = drop (nat n) (pending cmd)"
        using udp_recv_from_pending [OF inv(1) pos(1) n(1)] by blast
      then show ?thesis using True n plen seq by (intro exI [of _ cmd'] exI [of _ 0]) auto
    next
      case le: False
      let ?c = "cmd\<lparr>cl_nlen := 0\<rparr>"
      have sl: "c_slice nb (cl_noffset cmd) (cl_nlen cmd) = Some (pending cmd)"
        using off pos by (simp add: c_arr pen)
      have n': "0 \<le> n - cl_nlen cmd" "n - cl_nlen cmd \<le> int (length (concat ps))"
        using n le plen by auto
      have nat_eq: "nat (n - cl_nlen cmd) = nat n - length (pending cmd)"
        using n' pos by (simp flip: plen)
      have "udp_recv (map Datagram (packets s i ps) @ es) cmd n =
          udp_recv_loop (map Datagram (packets s i ps) @ es) ?c n (n - cl_nlen cmd) (cl_nlen cmd) (pending cmd)"
        using pos le nb sl by (simp add: udp_recv_def)
      moreover have "length (pending cmd) \<le> nat n" using le plen by linarith
      ultimately show ?thesis
        using udp_recv_loop_stream [of ?c nb s ps i "n - cl_nlen cmd" es n "cl_nlen cmd" "pending cmd"]
          nb seq ps n' by (simp add: nat_eq)
    qed
  qed
qed


section \<open>Safety of the receiver\<close>

definition recv_safe :: "int \<Rightarrow> u8 list \<Rightarrow> (int \<times> u8 list \<times> cmd_line \<times> net_event list) run \<Rightarrow> bool" where
  "recv_safe room out r = (case r of Blocked \<Rightarrow> True | Undef \<Rightarrow> False
     | Done (_, out', cmd', _) \<Rightarrow> net_inv cmd' \<and> (\<exists>bs. out' = out @ bs \<and> int (length bs) \<le> room))"

definition full_header :: "net_event \<Rightarrow> bool" where
  "full_header e = (case e of Datagram d \<Rightarrow> 12 \<le> length d | _ \<Rightarrow> True)"

lemma recv_safe_shift:
  "recv_safe room (out @ bs) r \<Longrightarrow> room + int (length bs) \<le> room' \<Longrightarrow> recv_safe room' out r"
  by (fastforce simp: recv_safe_def split: run.splits)

lemma recv_safe_Done [simp]:
  "recv_safe room out (Done (r, out @ bs, cmd', es)) \<longleftrightarrow> net_inv cmd' \<and> int (length bs) \<le> room"
  by (auto simp: recv_safe_def)

lemma recv_safe_Done_refl [simp]:
  "recv_safe room out (Done (r, out, cmd', es)) \<longleftrightarrow> net_inv cmd' \<and> 0 \<le> room"
  by (auto simp: recv_safe_def)

lemma net_inv_seq_no [simp]: "net_inv (cmd\<lparr>cl_seq_no := x\<rparr>) = net_inv cmd"
  by (simp add: net_inv_def)

lemma net_inv_nbuf [simp]: "cl_nlen cmd = 0 \<Longrightarrow> length nb = 163840 \<Longrightarrow> net_inv (cmd\<lparr>cl_nbuf := Some nb\<rparr>)"
  by (simp add: net_inv_def pkt_size)

lemma recv_buffer:
  assumes "length nb0 = 163840" and "12 \<le> length dat" and "length dat \<le> 163840"
  shows "c_store nb0 0 dat = Some (dat @ drop (length dat) nb0)" and "length (dat @ drop (length dat) nb0) = 163840"
    and "c_slice (dat @ drop (length dat) nb0) 0 hdrlen = Some (take 12 (dat @ drop (length dat) nb0))"
    and "0 \<le> m \<Longrightarrow> m + hdrlen \<le> 163840 \<Longrightarrow>
      c_slice (dat @ drop (length dat) nb0) hdrlen m = Some (take (nat m) (drop 12 (dat @ drop (length dat) nb0)))"
  using assms by (simp_all add: c_store_def c_slice_def hdrlen_def)

lemma udp_recv_loop_safe:
  assumes "net_inv cmd" and "0 < nleft \<Longrightarrow> cl_nlen cmd = 0" and "0 \<le> nleft" and "list_all full_header es"
  shows "recv_safe nleft out (udp_recv_loop es cmd n nleft ntotal out)"
  using assms
proof (induction es arbitrary: cmd nleft ntotal out)
  case Nil
  then show ?case by (simp add: recv_safe_def)
next
  case (Cons e es)
  have full: "full_header e" "list_all full_header es" using Cons.prems(4) by auto
  show ?case
  proof (cases "0 < nleft")
    case False
    then show ?thesis using Cons.prems by simp
  next
    case True
    then have nlen: "cl_nlen cmd = 0" using Cons.prems(2) by simp
    obtain nb0 where nb0: "cl_nbuf cmd = Some nb0" "length nb0 = 163840"
      using Cons.prems(1) by (auto simp: net_inv_def pkt_size)
    show ?thesis
    proof (cases e)
      case (Datagram d)
      let ?dat = "take (nat DEFAULT_PKT_SIZE) d"
      define nb where "nb = ?dat @ drop (length ?dat) nb0"
      have dlen: "12 \<le> length ?dat" "length ?dat \<le> 163840" using full(1) Datagram by (auto simp: full_header_def pkt_size)
      note buf = recv_buffer [OF nb0(2) dlen, folded nb_def]
      have st: "c_store nb0 0 ?dat = Some nb" and hs: "c_slice nb 0 hdrlen = Some (take 12 nb)" and blen: "length nb = 163840"
        using buf by simp_all
      define nact where "nact = int (length ?dat) - hdrlen"
      have nact: "0 \<le> nact" "nact + hdrlen \<le> 163840" using dlen by (auto simp: nact_def hdrlen_def)
      define m where "m = (if nact > nleft then nleft else nact)"
      have m: "0 \<le> m" "m \<le> nleft" "m \<le> nact" using nact True by (auto simp: m_def)
      have slm: "c_slice nb hdrlen m = Some (take (nat m) (drop 12 nb))"
        using buf(4) [of m] nact m by simp
      let ?next = "\<lambda>cmd4. udp_recv_loop es cmd4 n (nleft - m) (ntotal + m) (out @ take (nat m) (drop 12 nb))"
      have next_ok: "recv_safe nleft out (?next cmd4)"
        if "net_inv cmd4" "nact \<le> nleft \<Longrightarrow> cl_nlen cmd4 = 0" for cmd4
        by (rule recv_safe_shift [OF Cons.IH [OF that(1)]]) (use that m full blen nact in \<open>auto simp: m_def hdrlen_def split: if_splits\<close>)
      have base: "net_inv (cmd\<lparr>cl_nbuf := Some nb\<rparr>)" using nlen Cons.prems(1) blen by simp
      have skip_ok: "recv_safe nleft out
          (udp_recv_loop es (cmd\<lparr>cl_nbuf := Some nb, cl_seq_no := cl_seq_no cmd + 1\<rparr>) n nleft ntotal out)"
        using Cons.IH [of "cmd\<lparr>cl_nbuf := Some nb, cl_seq_no := cl_seq_no cmd + 1\<rparr>"] base full nlen True by simp
      have inv4: "net_inv (cmd\<lparr>cl_nbuf := Some nb, cl_seq_no := q, cl_nlen := nact - nleft, cl_noffset := nleft + hdrlen\<rparr>)"
        if "nact > nleft" for q
        using that nact blen True by (auto simp: net_inv_def pkt_size hdrlen_def)
      have endm: "net_inv (cmd\<lparr>cl_nbuf := Some nb, cl_nlen := -1\<rparr>)" using blen by (simp add: net_inv_def pkt_size)
      show ?thesis
        unfolding Datagram udp_recv_loop.simps(2) Let_def net_event.case nb0 option.case st hs
          nact_def [symmetric] m_def [symmetric] slm
        using True nlen next_ok skip_ok inv4 endm base by simp
    qed (use Cons True nlen full in auto)
  qed
qed

lemma udp_recv_safe:
  assumes inv: "net_inv cmd" and n: "0 \<le> n" and es: "list_all full_header es"
  shows "recv_safe n [] (udp_recv es cmd n)"
proof (cases "cl_nlen cmd \<le> 0")
  case True
  then show ?thesis
    using inv n udp_recv_loop_safe [OF inv, of n es "[]" n 0] es
    by (auto simp: udp_recv_def net_inv_def)
next
  case False
  then obtain nb where nb: "cl_nbuf cmd = Some nb" "length nb = 163840" and
    off: "0 \<le> cl_noffset cmd" "cl_noffset cmd + cl_nlen cmd \<le> 163840"
    using inv by (auto simp: net_inv_def pkt_size)
  have sl: "c_slice nb (cl_noffset cmd) m = Some (take (nat m) (drop (nat (cl_noffset cmd)) nb))"
    if "0 \<le> m" "m \<le> cl_nlen cmd" for m
    using that off nb by (simp add: c_arr)
  show ?thesis
  proof (cases "cl_nlen cmd > n")
    case True
    then have "net_inv (cmd\<lparr>cl_nlen := cl_nlen cmd - n, cl_noffset := cl_noffset cmd + n\<rparr>)"
      using off n nb by (auto simp: net_inv_def pkt_size)
    then show ?thesis using True False n off nb sl
      by (auto simp: udp_recv_def recv_safe_def)
  next
    case le: False
    let ?bs = "take (nat (cl_nlen cmd)) (drop (nat (cl_noffset cmd)) nb)"
    have "net_inv (cmd\<lparr>cl_nlen := 0\<rparr>)" using nb by (simp add: net_inv_def pkt_size)
    then have "recv_safe (n - cl_nlen cmd) ([] @ ?bs)
        (udp_recv_loop es (cmd\<lparr>cl_nlen := 0\<rparr>) n (n - cl_nlen cmd) (cl_nlen cmd) ?bs)"
      using udp_recv_loop_safe [of "cmd\<lparr>cl_nlen := 0\<rparr>" "n - cl_nlen cmd" es ?bs] es le by simp
    from recv_safe_shift [OF this, of n] show ?thesis
      using False le off nb sl by (simp add: udp_recv_def)
  qed
qed


section \<open>Sender and receiver\<close>

text \<open>A sender that writes a list of chunks and a receiver that reads a list of sizes.\<close>

fun send_all :: "u32 \<Rightarrow> cmd_line \<Rightarrow> u8 list list \<Rightarrow> (cmd_line \<times> u8 list list) run" where
  "send_all junk cmd [] = Done (cmd, [])"
| "send_all junk cmd (p # ps) =
     run_bind (udp_send True junk cmd p (int (length p)))
       (\<lambda>(r, cmd', ds). run_bind (send_all junk cmd' ps) (\<lambda>(cmd'', es). Done (cmd'', ds @ es)))"

fun recv_all :: "net_event list \<Rightarrow> cmd_line \<Rightarrow> nat list \<Rightarrow>
    (u8 list \<times> cmd_line \<times> net_event list) run" where
  "recv_all es cmd [] = Done ([], cmd, es)"
| "recv_all es cmd (n # ns) =
     run_bind (udp_recv es cmd (int n))
       (\<lambda>(r, bs, cmd', es'). run_bind (recv_all es' cmd' ns) (\<lambda>(rest, cmd'', es''). Done (bs @ rest, cmd'', es'')))"

lemma udp_send_packet:
  assumes nb: "cl_nbuf cmd = Some nb" "int (length nb) = DEFAULT_PKT_SIZE" and p: "payload_ok p"
  shows "\<exists>nb'. udp_send True junk cmd p (int (length p)) =
      Done (int (length p) + hdrlen, cmd\<lparr>cl_seq_no := cl_seq_no cmd + 1, cl_nbuf := Some nb'\<rparr>,
        [packet (cl_seq_no cmd) (cl_iframe cmd) p]) \<and> int (length nb') = DEFAULT_PKT_SIZE"
proof -
  let ?h = "nethdr (cl_seq_no cmd) (cl_iframe cmd) (int (length p))"
  have plen: "p \<noteq> []" "length p + 12 \<le> 163840" and nblen: "length nb = 163840"
    using p nb by (auto simp: payload_ok_def hdrlen_def pkt_size)
  define nb1 where "nb1 = ?h @ drop 12 nb"
  define nb2 where "nb2 = ?h @ p @ drop (12 + length p) nb"
  have st1: "c_store nb 0 ?h = Some nb1" using nblen by (simp add: c_store_def nb1_def)
  have st2: "c_store nb1 hdrlen p = Some nb2"
    using nblen plen by (simp add: c_store_def nb1_def nb2_def hdrlen_def add.commute)
  have sl1: "c_slice p 0 (int (length p)) = Some p" by (simp add: c_arr)
  have sl2: "c_slice nb2 0 (int (length p) + hdrlen) = Some (?h @ p)"
    using nblen plen by (simp add: c_slice_def nb2_def hdrlen_def nat_add_distrib)
  have len2: "int (length nb2) = DEFAULT_PKT_SIZE" using nblen plen by (simp add: nb2_def pkt_size)
  have fits: "\<not> int (length p) + hdrlen > DEFAULT_PKT_SIZE" using plen by (simp add: pkt_size hdrlen_def)
  show ?thesis
    by (rule exI [of _ nb2]) (use plen len2 fits in \<open>simp add: udp_send_def nb st1 st2 sl1 sl2 packet_def Let_def\<close>)
qed

lemma send_all_packets:
  assumes "cl_nbuf cmd = Some nb" and "int (length nb) = DEFAULT_PKT_SIZE" and "list_all payload_ok ps"
  shows "\<exists>cmd'. send_all junk cmd ps = Done (cmd', packets (cl_seq_no cmd) (cl_iframe cmd) ps)"
  using assms
proof (induction ps arbitrary: cmd nb)
  case (Cons p ps)
  then obtain nb' where nb': "udp_send True junk cmd p (int (length p)) =
      Done (int (length p) + hdrlen, cmd\<lparr>cl_seq_no := cl_seq_no cmd + 1, cl_nbuf := Some nb'\<rparr>,
        [packet (cl_seq_no cmd) (cl_iframe cmd) p])" "int (length nb') = DEFAULT_PKT_SIZE"
    using udp_send_packet [of cmd nb p junk] by auto
  from Cons.IH [of "cmd\<lparr>cl_seq_no := cl_seq_no cmd + 1, cl_nbuf := Some nb'\<rparr>" nb'] Cons.prems nb'
  show ?case by auto
qed simp

lemma recv_all_stream:
  assumes "net_inv cmd" "0 \<le> cl_nlen cmd"
    and "cl_seq_no cmd = s" "int32 s" "int32 (s + int (length ps))" "int32 i"
    and "list_all payload_ok ps" and "sum_list ns \<le> length (pending cmd @ concat ps)"
  shows "\<exists>cmd' es'. recv_all (map Datagram (packets s i ps) @ es) cmd ns =
      Done (take (sum_list ns) (pending cmd @ concat ps), cmd', es')"
  using assms
proof (induction ns arbitrary: cmd s ps)
  case (Cons n ns)
  from udp_recv_stream [OF Cons.prems(1-7), of "int n" es] Cons.prems(8)
  obtain cmd1 k where k: "udp_recv (map Datagram (packets s i ps) @ es) cmd (int n) =
        Done (int n, take n (pending cmd @ concat ps), cmd1, map Datagram (packets (s + int k) i (drop k ps)) @ es)"
      "k \<le> length ps" "net_inv cmd1" "0 \<le> cl_nlen cmd1" "cl_seq_no cmd1 = s + int k"
      "pending cmd1 @ concat (drop k ps) = drop n (pending cmd @ concat ps)"
    by auto
  have i32: "int32 (s + int k)" "int32 (s + int k + int (length (drop k ps)))"
    using Cons.prems(4,5) k(2) by (auto simp: int32_def of_nat_diff)
  have ok: "list_all payload_ok (drop k ps)"
    using Cons.prems(7) by (metis in_set_dropD list_all_iff)
  have "sum_list ns \<le> length (pending cmd1 @ concat (drop k ps))"
    using Cons.prems(8) unfolding k(6) by simp
  from Cons.IH [OF k(3,4,5) i32 Cons.prems(6) ok this] obtain cmd2 es2 where
    "recv_all (map Datagram (packets (s + int k) i (drop k ps)) @ es) cmd1 ns =
       Done (take (sum_list ns) (drop n (pending cmd @ concat ps)), cmd2, es2)"
    unfolding k(6) by blast
  then show ?case using k(1) by (simp add: take_add [of n "sum_list ns"] del: drop_append take_append)
qed simp

lemma udp_recv_end_marker:
  assumes "net_inv cmd" and "cl_nlen cmd = 0" and "0 < n" and "hdr_len (take 12 d) = 0" and "length d = 12"
  shows "\<exists>cmd'. udp_recv (Datagram d # es) cmd n = Done (0, [], cmd', es) \<and> cl_nlen cmd' = -1"
proof -
  obtain nb where nb: "cl_nbuf cmd = Some nb" "length nb = 163840"
    using assms by (auto simp: net_inv_def pkt_size)
  have st: "c_store nb 0 d = Some (d @ drop 12 nb)"
    using nb assms by (simp add: c_store_def)
  have h: "c_slice (d @ drop 12 nb) 0 12 = Some d" using nb assms by (simp add: c_slice_def)
  show ?thesis
    using assms nb by (simp add: udp_recv_def Let_def pkt_size st h hdrlen_def)
qed

section \<open>Properties\<close>

text \<open>
  C3: In \<open>PATH_NET\<close> mode \<open>vpu_read\<close> is a byte stream reader. If the datagrams that arrive
  are the packets \<open>udp_send\<close> makes of the payloads \<open>ps\<close>, numbered from the sequence number the
  receiver expects, then a read of \<open>n\<close> bytes returns exactly the next \<open>n\<close> bytes of the
  leftover of the last datagram followed by the payloads, whatever the datagram boundaries are,
  and keeps the unread rest (in its buffer or in the socket) for the next read.
\<close>

theorem vpu_read_net_stream:
  assumes "cl_src_scheme cmd = PATH_NET" and "net_inv cmd" and "0 \<le> cl_nlen cmd"
    and "cl_seq_no cmd = s" "int32 s" "int32 (s + int (length ps))" "int32 i"
    and "list_all payload_ok ps" and "0 \<le> n" "n \<le> int (length (pending cmd @ concat ps))"
    and "vw_net w = map Datagram (packets s i ps) @ es"
  shows "\<exists>cmd' w' k. vpu_read w cmd n = Done (n, take (nat n) (pending cmd @ concat ps), cmd', w') \<and>
      k \<le> length ps \<and> net_inv cmd' \<and> cl_seq_no cmd' = s + int k \<and>
      vw_net w' = map Datagram (packets (s + int k) i (drop k ps)) @ es \<and>
      pending cmd' @ concat (drop k ps) = drop (nat n) (pending cmd @ concat ps)"
proof -
  from udp_recv_stream [OF assms(2-10), of es] obtain cmd' k where k:
    "udp_recv (vw_net w) cmd n = Done (n, take (nat n) (pending cmd @ concat ps), cmd',
       map Datagram (packets (s + int k) i (drop k ps)) @ es)"
    "k \<le> length ps" "net_inv cmd'" "cl_seq_no cmd' = s + int k"
    "pending cmd' @ concat (drop k ps) = drop (nat n) (pending cmd @ concat ps)"
    using assms(11) by auto
  then show ?thesis using assms(1) by (simp add: vpu_read_def)
qed

definition net_cmd :: cmd_line where
  "net_cmd = cmd_zero\<lparr>cl_src_scheme := PATH_NET, cl_nbuf := Some (replicate 163840 0)\<rparr>"

lemma net_cmd_ok: "cl_src_scheme net_cmd = PATH_NET" "net_inv net_cmd" "cl_nlen net_cmd = 0"
    "cl_seq_no net_cmd = 0" "pending net_cmd = []"
    "cl_nbuf net_cmd = Some (replicate 163840 0)" "cl_iframe net_cmd = 0"
  by (simp_all add: net_cmd_def cmd_zero_def net_inv_def pending_def pkt_size)

definition net_world :: "net_event list \<Rightarrow> vpu_world" where
  "net_world es = \<lparr>vw_src = \<lparr>rf_data = [], rf_sched = []\<rparr>, vw_dst = \<lparr>wf_data = [], wf_sched = []\<rparr>,
     vw_net = es, vw_sent = [], vw_send_ok = [], vw_junk = 0\<rparr>"

theorem vpu_read_net_stream_witness:
  "\<exists>cmd' w'. vpu_read (net_world (map Datagram (packets 0 1 [[1, 2], [3, 4, 5]]))) net_cmd 3 =
     Done (3, [1, 2, 3], cmd', w') \<and> net_inv cmd'"
proof -
  have "list_all payload_ok [[1, 2], [3, 4, 5]]" by (simp add: payload_ok_def pkt_size hdrlen_def)
  then show ?thesis
    using vpu_read_net_stream [of net_cmd 0 "[[1, 2], [3, 4, 5]]" 1 3
        "net_world (map Datagram (packets 0 1 [[1, 2], [3, 4, 5]]))" "[]"]
    by (simp add: net_cmd_ok int32_def net_world_def numeral_eq_Suc) blast
qed

text \<open>
  C4: Round trip over the network path. Every list of payloads that fit a datagram, sent with
  \<open>udp_send\<close> and delivered in order, is read back by \<open>udp_recv\<close> as the same bytes in the same
  order, for every way the receiver splits its reads.
\<close>

theorem udp_roundtrip:
  assumes "net_inv snd_cmd" and "net_inv rcv_cmd" and "cl_nlen rcv_cmd = 0"
    and "cl_seq_no rcv_cmd = cl_seq_no snd_cmd" and "int32 (cl_seq_no snd_cmd)"
    and "int32 (cl_seq_no snd_cmd + int (length ps))" and "int32 (cl_iframe snd_cmd)"
    and "list_all payload_ok ps" and "sum_list ns \<le> length (concat ps)"
  shows "\<exists>cmd1 ds cmd2 es. send_all junk snd_cmd ps = Done (cmd1, ds) \<and>
      recv_all (map Datagram ds) rcv_cmd ns = Done (take (sum_list ns) (concat ps), cmd2, es)"
proof -
  from assms(1) obtain nb where nb: "cl_nbuf snd_cmd = Some nb" "int (length nb) = DEFAULT_PKT_SIZE"
    by (auto simp: net_inv_def)
  from send_all_packets [OF nb assms(8), of junk] obtain cmd1 where
    "send_all junk snd_cmd ps = Done (cmd1, packets (cl_seq_no snd_cmd) (cl_iframe snd_cmd) ps)" by blast
  moreover have "pending rcv_cmd = []" using assms(3) by (simp add: pending_def split: option.splits)
  ultimately show ?thesis
    using recv_all_stream [OF assms(2) _ assms(4-8), of ns "[]"] assms(3,9) by auto
qed

theorem udp_roundtrip_witness:
  "\<exists>cmd1 ds cmd2 es. send_all 0 net_cmd [[1, 2], [3, 4, 5]] = Done (cmd1, ds) \<and>
     recv_all (map Datagram ds) net_cmd [1, 3] = Done ([1, 2, 3, 4], cmd2, es)"
proof -
  have "list_all payload_ok [[1, 2], [3, 4, 5]]" by (simp add: payload_ok_def pkt_size hdrlen_def)
  then show ?thesis
    using udp_roundtrip [of net_cmd net_cmd "[[1, 2], [3, 4, 5]]" "[1, 3]" 0]
    by (simp add: net_cmd_ok int32_def numeral_eq_Suc)
qed

text \<open>
  The receiver stays inside its buffers. Whatever arrives, in any order and of any size, as
  long as each datagram holds a full 12-byte header, \<open>udp_recv\<close> never runs into undefined
  behaviour, never stores more than \<open>n\<close> bytes into the caller's buffer, and re-establishes the
  invariant of its leftover window.
\<close>

lemma udp_recv_bounds:
  assumes "net_inv cmd" and "0 \<le> n" and "list_all full_header es"
  shows "case udp_recv es cmd n of Done (r, out, cmd', es') \<Rightarrow> net_inv cmd' \<and> int (length out) \<le> n
       | Blocked \<Rightarrow> True | Undef \<Rightarrow> False"
  using udp_recv_safe [OF assms] by (auto simp: recv_safe_def split: run.splits)

text \<open>
  A datagram shorter than the header is not handled: when the stale bytes behind it give a
  non-zero length and the expected sequence number, \<open>udp_recv\<close> calls \<open>memcpy\<close> with a
  negative size.
\<close>

lemma udp_recv_short_datagram:
  assumes "cl_nbuf cmd = Some nb" and "int (length nb) = DEFAULT_PKT_SIZE" and "cl_nlen cmd = 0" and "0 < n"
    and "length d < 12" and "h = d @ take (12 - length d) (drop (length d) nb)"
    and "hdr_len h \<noteq> 0" and "hdr_seqno h = cl_seq_no cmd"
  shows "udp_recv (Datagram d # es) cmd n = Undef"
proof -
  have len: "length nb = 163840" using assms by (simp add: pkt_size)
  have tk: "take 163840 d = d" using assms by simp
  have st: "c_store nb 0 d = Some (d @ drop (length d) nb)" using assms len by (simp add: c_store_def)
  have sl: "c_slice (d @ drop (length d) nb) 0 12 = Some h"
    using assms len by (simp add: c_slice_def)
  have neg: "c_slice (d @ drop (length d) nb) 12 (int (length d) - 12) = None"
    using assms by (simp add: c_slice_def)
  show ?thesis
    using assms by (simp add: udp_recv_def Let_def pkt_size tk st sl neg hdrlen_def)
qed

text \<open>
  \<open>freadn\<close> is complete: however the kernel splits the reads, either a read failed and the
  result is -1, or exactly \<open>min n (length data)\<close> bytes arrive, they are the next bytes of the file in
  order, and the file position advances by just as many.
\<close>

lemma freadn_complete:
  assumes "0 \<le> n"
  shows "case freadn f n of (r, buf, f') \<Rightarrow>
      \<exists>k. buf = take k (rf_data f) \<and> rf_data f' = drop k (rf_data f) \<and> k \<le> nat n \<and>
        (None \<in> set (rf_sched f) \<and> r = -1 \<or> r = int k \<and> k = min (nat n) (length (rf_data f)))"
  using freadn_loop_correct [of f n n "[]"] assms
  by (cases "freadn f n") (fastforce simp: freadn_def)

text \<open>
  \<open>fwriten\<close> is complete and safe: on a buffer that holds \<open>n\<close> bytes it always returns, reads
  nothing outside the buffer, and either returns \<open>n\<close> with exactly those bytes appended to the
  file in order or -1 (only if some \<open>write\<close> failed or wrote nothing) with a prefix appended.
\<close>

lemma fwriten_complete:
  assumes "0 \<le> n" and "n \<le> int (length mem)"
  shows "\<exists>r f' k. fwriten f mem n = Done (r, f') \<and> wf_data f' = wf_data f @ take k mem \<and> k \<le> nat n \<and>
      (k = nat n \<and> r = n \<or> r = -1 \<and> (None \<in> set (wf_sched f) \<or> Some 0 \<in> set (wf_sched f)))"
proof -
  from fwriten_loop_safe [of 0 n mem f n] assms obtain r f' where
    run: "fwriten_loop f mem 0 n n = Done (r, f')" by auto
  from fwriten_loop_correct [OF run] assms run show ?thesis by (auto simp: fwriten_def)
qed

text \<open>
  End of stream. \<open>udp_send\<close> of zero bytes sends a marker after which the receiver returns
  0 from this read and from every later one without touching the socket.
\<close>

lemma udp_end_of_stream:
  assumes "net_inv snd_cmd" and "net_inv rcv_cmd" and "cl_nlen rcv_cmd = 0" and "0 < n"
  shows "\<exists>cmd1 d cmd2. udp_send True junk snd_cmd buf 0 = Done (hdrlen, cmd1, [d]) \<and>
      udp_recv (Datagram d # es) rcv_cmd n = Done (0, [], cmd2, es) \<and>
      (\<forall>es' m. udp_recv es' cmd2 m = Done (0, [], cmd2, es'))"
proof -
  let ?h = "nethdr (-1) (s32 junk) 0"
  obtain nb where nb: "cl_nbuf snd_cmd = Some nb" "length nb = 163840"
    using assms by (auto simp: net_inv_def pkt_size)
  have st: "c_store nb 0 ?h = Some (?h @ drop 12 nb)" using nb by (simp add: c_store_def)
  have sl: "c_slice (?h @ drop 12 nb) 0 12 = Some ?h" using nb by (simp add: c_slice_def)
  have send: "\<exists>cmd1. udp_send True junk snd_cmd buf 0 = Done (hdrlen, cmd1, [?h])"
    by (simp add: udp_send_def nb st sl hdrlen_def pkt_size Let_def)
  have len0: "hdr_len (take 12 ?h) = 0" by (simp add: nethdr_fields int32_def)
  from udp_recv_end_marker [OF assms(2-4) len0] obtain cmd2 where
    "udp_recv (Datagram ?h # es) rcv_cmd n = Done (0, [], cmd2, es)" "cl_nlen cmd2 = -1" by auto
  moreover from this(2) have "udp_recv es' cmd2 m = Done (0, [], cmd2, es')" for es' m
    by (simp add: udp_recv_def)
  ultimately show ?thesis using send by blast
qed

end
