(* ===== verification/Kernel_Env.thy ===== *)
theory Kernel_Env
  imports Prelude
begin

unbundle bit_operations_syntax

text \<open>
  What the kernel test modules (\<^verbatim>\<open>src/module_test\<close>) use of the kernel: user memory with
  \<open>copy_from_user\<close>, \<open>copy_to_user\<close>, \<open>get_user\<close> and \<open>put_user\<close> (a copy stops at the
  first byte that faults and reports how many bytes are missing; \<open>copy_from_user\<close> pads the rest
  of its destination with zeros), the fields of an \<open>ioctl\<close> number, the registration of a
  character device with its class and device node, and the interface of a driver as the VFS sees
  it: a state and a step per system call.
\<close>

section \<open>User memory\<close>

record umem =
  um_byte :: "u32 \<Rightarrow> u8"
  um_rd :: "u32 \<Rightarrow> bool"
  um_wr :: "u32 \<Rightarrow> bool"

primrec run_len :: "(u32 \<Rightarrow> bool) \<Rightarrow> u32 \<Rightarrow> nat \<Rightarrow> nat" where
  "run_len p a 0 = 0"
| "run_len p a (Suc n) = (if p a then Suc (run_len p (a + 1) n) else 0)"

primrec uread :: "umem \<Rightarrow> u32 \<Rightarrow> nat \<Rightarrow> u8 list" where
  "uread u a 0 = []"
| "uread u a (Suc n) = um_byte u a # uread u (a + 1) n"

definition uwrite :: "umem \<Rightarrow> u32 \<Rightarrow> u8 list \<Rightarrow> umem" where
  "uwrite u a bs = u\<lparr>um_byte := \<lambda>x. if unat (x - a) < length bs then bs ! unat (x - a) else um_byte u x\<rparr>"

definition copy_from_user :: "umem \<Rightarrow> u32 \<Rightarrow> nat \<Rightarrow> nat \<times> u8 list" where
  "copy_from_user u a n = (let k = run_len (um_rd u) a n in (n - k, uread u a k @ replicate (n - k) 0))"

definition copy_to_user :: "umem \<Rightarrow> u32 \<Rightarrow> u8 list \<Rightarrow> nat \<times> umem" where
  "copy_to_user u a bs =
     (let k = run_len (um_wr u) a (length bs) in (length bs - k, uwrite u a (take k bs)))"

definition get_user :: "umem \<Rightarrow> u32 \<Rightarrow> int \<times> u32" where
  "get_user u a = (if run_len (um_rd u) a 4 = 4 then (0, of_le32 (uread u a 4)) else (- EFAULT, 0))"

definition put_user :: "umem \<Rightarrow> u32 \<Rightarrow> u32 \<Rightarrow> int \<times> umem" where
  "put_user u a v = (if run_len (um_wr u) a 4 = 4 then (0, uwrite u a (le32 v)) else (- EFAULT, u))"

definition readable :: "umem \<Rightarrow> u32 \<Rightarrow> nat \<Rightarrow> bool" where
  "readable u a n \<longleftrightarrow> run_len (um_rd u) a n = n"

definition writable :: "umem \<Rightarrow> u32 \<Rightarrow> nat \<Rightarrow> bool" where
  "writable u a n \<longleftrightarrow> run_len (um_wr u) a n = n"

lemma run_len_le: "run_len p a n \<le> n"
  by (induction n arbitrary: a) auto

lemma length_uread [simp]: "length (uread u a n) = n"
  by (induction n arbitrary: a) auto

lemma uread_nth: "k < n \<Longrightarrow> uread u a n ! k = um_byte u (a + of_nat k)"
proof (induction n arbitrary: a k)
  case (Suc n)
  then show ?case by (cases k) (auto simp: add.assoc)
qed simp

lemma um_perm_uwrite [simp]: "um_rd (uwrite u a bs) = um_rd u" "um_wr (uwrite u a bs) = um_wr u"
  by (simp_all add: uwrite_def)

lemma readable_uwrite [simp]: "readable (uwrite u a bs) b n = readable u b n"
  and writable_uwrite [simp]: "writable (uwrite u a bs) b n = writable u b n"
  by (simp_all add: readable_def writable_def)

lemma uread_uwrite:
  assumes "length bs \<le> 2 ^ 32"
  shows "uread (uwrite u a bs) a (length bs) = bs"
proof (rule nth_equalityI)
  fix k
  assume "k < length (uread (uwrite u a bs) a (length bs))"
  then have k: "k < length bs" by simp
  then have "unat (of_nat k :: u32) = k" using assms by (simp add: unat_of_nat take_bit_nat_eq_self)
  then show "uread (uwrite u a bs) a (length bs) ! k = bs ! k"
    using k by (simp add: uread_nth uwrite_def)
qed simp

lemma uwrite_outside: "length bs \<le> unat (x - a) \<Longrightarrow> um_byte (uwrite u a bs) x = um_byte u x"
  by (simp add: uwrite_def)

text \<open>The \<open>n\<close> bytes at \<open>a\<close> lie outside the \<open>m\<close> bytes at \<open>b\<close>.\<close>

definition no_overlap :: "u32 \<Rightarrow> nat \<Rightarrow> u32 \<Rightarrow> nat \<Rightarrow> bool" where
  "no_overlap a n b m = list_all (\<lambda>k. m \<le> unat (a + of_nat k - b)) [0..<n]"

lemma uread_uwrite_other:
  "no_overlap a n b (length bs) \<Longrightarrow> uread (uwrite u b bs) a n = uread u a n"
  by (rule nth_equalityI) (auto simp: no_overlap_def list_all_iff uread_nth uwrite_outside)

lemma copy_from_user_ok: "readable u a n \<Longrightarrow> copy_from_user u a n = (0, uread u a n)"
  by (simp add: copy_from_user_def readable_def)

lemma copy_to_user_ok: "writable u a (length bs) \<Longrightarrow> copy_to_user u a bs = (0, uwrite u a bs)"
  by (simp add: copy_to_user_def writable_def)

lemma copy_from_user_0_iff: "fst (copy_from_user u a n) = 0 \<longleftrightarrow> readable u a n"
  using run_len_le [of "um_rd u" a n] by (auto simp: copy_from_user_def readable_def Let_def)

lemma copy_to_user_0_iff: "fst (copy_to_user u a bs) = 0 \<longleftrightarrow> writable u a (length bs)"
  using run_len_le [of "um_wr u" a "length bs"] by (auto simp: copy_to_user_def writable_def Let_def)

lemma length_copy_from_user [simp]: "length (snd (copy_from_user u a n)) = n"
  using run_len_le [of "um_rd u" a n] by (simp add: copy_from_user_def Let_def)

lemma copy_to_user_perm [simp]:
  "um_rd (snd (copy_to_user u a bs)) = um_rd u" "um_wr (snd (copy_to_user u a bs)) = um_wr u"
  by (simp_all add: copy_to_user_def Let_def)

text \<open>
  The contract a handler relies on when it exchanges a structure with its caller: a copy out
  followed by a copy in returns the structure, and bytes outside the structure stay.
\<close>

locale user_copy =
  fixes from_user :: "'m \<Rightarrow> u32 \<Rightarrow> nat \<Rightarrow> nat \<times> u8 list"
    and to_user :: "'m \<Rightarrow> u32 \<Rightarrow> u8 list \<Rightarrow> nat \<times> 'm"
    and can_read can_write :: "'m \<Rightarrow> u32 \<Rightarrow> nat \<Rightarrow> bool"
  assumes from_ok: "fst (from_user m a n) = 0 \<longleftrightarrow> can_read m a n"
    and to_ok: "fst (to_user m a bs) = 0 \<longleftrightarrow> can_write m a (length bs)"
    and perm: "can_read (snd (to_user m a bs)) b n = can_read m b n"
      "can_write (snd (to_user m a bs)) b n = can_write m b n"
    and exchange: "can_write m a (length bs) \<Longrightarrow> can_read m a (length bs) \<Longrightarrow> length bs \<le> 2 ^ 32 \<Longrightarrow>
      from_user (snd (to_user m a bs)) a (length bs) = (0, bs)"
begin

text \<open>The last of several structures written to one place is the one read back.\<close>

lemma exchange_last:
  assumes "can_write m a n" and "can_read m a n" and "n \<le> 2 ^ 32"
    and "bss \<noteq> []" and "\<forall>bs \<in> set bss. length bs = n"
  shows "from_user (fold (\<lambda>bs m. snd (to_user m a bs)) bss m) a n = (0, last bss)"
  using assms
proof (induction bss arbitrary: m)
  case (Cons bs bss)
  then show ?case
    using exchange [of m a bs] Cons.IH [of "snd (to_user m a bs)"] by (cases bss) (auto simp: perm)
qed simp

end

interpretation umc: user_copy copy_from_user copy_to_user readable writable
proof
  fix m a n bs b
  show "fst (copy_from_user m a n) = 0 \<longleftrightarrow> readable m a n" by (rule copy_from_user_0_iff)
  show "fst (copy_to_user m a bs) = 0 \<longleftrightarrow> writable m a (length bs)" by (rule copy_to_user_0_iff)
  show "readable (snd (copy_to_user m a bs)) b n = readable m b n"
    "writable (snd (copy_to_user m a bs)) b n = writable m b n"
    by (simp_all add: readable_def writable_def)
  assume "writable m a (length bs)" "readable m a (length bs)" "length bs \<le> 2 ^ 32"
  then show "copy_from_user (snd (copy_to_user m a bs)) a (length bs) = (0, bs)"
    by (simp add: copy_to_user_ok copy_from_user_ok uread_uwrite)
qed

section \<open>ioctl numbers\<close>

text \<open>The layout of \<^verbatim>\<open>asm-generic/ioctl.h\<close>: 8 bits number, 8 bits type, 14 bits size, 2 bits direction.\<close>

definition ioc_nr :: "u32 \<Rightarrow> u32" where "ioc_nr cmd = cmd AND 0xff"
definition ioc_type :: "u32 \<Rightarrow> u32" where "ioc_type cmd = drop_bit 8 cmd AND 0xff"
definition ioc_size :: "u32 \<Rightarrow> u32" where "ioc_size cmd = drop_bit 16 cmd AND 0x3fff"
definition ioc_dir :: "u32 \<Rightarrow> u32" where "ioc_dir cmd = drop_bit 30 cmd AND 3"

definition ioc :: "u32 \<Rightarrow> u32 \<Rightarrow> u32 \<Rightarrow> u32 \<Rightarrow> u32" where
  "ioc dir ty nr sz = push_bit 30 dir OR push_bit 8 ty OR nr OR push_bit 16 sz"

definition IOC_WRITE :: u32 where "IOC_WRITE = 1"
definition IOC_READ :: u32 where "IOC_READ = 2"

lemmas ioc_defs = ioc_nr_def ioc_type_def ioc_size_def ioc_dir_def ioc_def IOC_WRITE_def IOC_READ_def

section \<open>Registration of a character device\<close>

text \<open>
  What a module has registered: the character device, the sysfs class and the device node. The
  outcomes of the registration calls are arguments of the modules' init functions.
\<close>

record devreg =
  dr_chrdev :: bool
  dr_class :: bool
  dr_device :: bool

definition no_reg :: devreg where "no_reg = \<lparr>dr_chrdev = False, dr_class = False, dr_device = False\<rparr>"
definition all_reg :: devreg where "all_reg = \<lparr>dr_chrdev = True, dr_class = True, dr_device = True\<rparr>"

section \<open>A driver as the VFS sees it\<close>

fun run_calls :: "('s \<Rightarrow> 'c \<Rightarrow> ('r \<times> 's) run) \<Rightarrow> 's \<Rightarrow> 'c list \<Rightarrow> ('r list \<times> 's) run" where
  "run_calls step s [] = Done ([], s)"
| "run_calls step s (c # cs) =
     run_bind (step s c) (\<lambda>(r, s'). run_bind (run_calls step s' cs) (\<lambda>(rs, s''). Done (r # rs, s'')))"

text \<open>A call returns normally in a state that satisfies \<open>P\<close>.\<close>

definition returns :: "('s \<Rightarrow> bool) \<Rightarrow> ('r \<times> 's) run \<Rightarrow> bool" where
  "returns P x = (case x of Done y \<Rightarrow> P (snd y) | _ \<Rightarrow> False)"

lemma returns_Done [simp]: "returns P (Done y) = P (snd y)"
  by (simp add: returns_def)

lemma returns_iff: "returns P x \<longleftrightarrow> (\<exists>r s. x = Done (r, s) \<and> P s)"
  by (auto simp: returns_def split: run.splits)

text \<open>The calls of a sequence are admissible in the states they are issued in.\<close>

fun adm_calls :: "('s \<Rightarrow> 'c \<Rightarrow> ('r \<times> 's) run) \<Rightarrow> ('s \<Rightarrow> 'c \<Rightarrow> bool) \<Rightarrow> 's \<Rightarrow> 'c list \<Rightarrow> bool" where
  "adm_calls step adm s [] = True"
| "adm_calls step adm s (c # cs) =
     (adm s c \<and> (case step s c of Done (r, s') \<Rightarrow> adm_calls step adm s' cs | _ \<Rightarrow> True))"

lemma adm_calls_all: "(\<And>s c. adm s c) \<Longrightarrow> adm_calls step adm s cs"
  by (induction cs arbitrary: s) (auto split: run.splits)

text \<open>
  \<open>char_driver\<close>: every admissible call returns and keeps the invariant. Then so does every
  sequence of calls, in whatever order the processes issue them.
\<close>

locale char_driver =
  fixes step :: "'s \<Rightarrow> 'c \<Rightarrow> ('r \<times> 's) run"
    and adm :: "'s \<Rightarrow> 'c \<Rightarrow> bool"
    and inv :: "'s \<Rightarrow> bool"
  assumes step_ok: "inv s \<Longrightarrow> adm s c \<Longrightarrow> \<exists>r s'. step s c = Done (r, s') \<and> inv s'"
begin

lemma run_calls_ok:
  "inv s \<Longrightarrow> adm_calls step adm s cs \<Longrightarrow>
     \<exists>rs s'. run_calls step s cs = Done (rs, s') \<and> length rs = length cs \<and> inv s'"
proof (induction cs arbitrary: s)
  case Nil
  then show ?case by simp
next
  case (Cons c cs)
  then obtain r s1 where s1: "step s c = Done (r, s1)" "inv s1" using step_ok by fastforce
  with Cons.IH [of s1] Cons.prems obtain rs s2 where
    "run_calls step s1 cs = Done (rs, s2)" "length rs = length cs" "inv s2" by auto
  with s1 show ?case by simp
qed

end

section \<open>Structures in transit\<close>

text \<open>
  A structure copied from or to user space is its bytes; the fields of the drivers' structures are
  32-bit words, so field \<open>k\<close> is the word at byte offset \<open>4 * k\<close>.
\<close>

definition fld :: "u8 list \<Rightarrow> nat \<Rightarrow> u32" where
  "fld bs k = of_le32 (drop (4 * k) bs)"

definition set_fld :: "u8 list \<Rightarrow> nat \<Rightarrow> u32 \<Rightarrow> u8 list" where
  "set_fld bs k w = take (4 * k) bs @ le32 w @ drop (4 * k + 4) bs"

lemma length_set_fld [simp]: "4 * k + 4 \<le> length bs \<Longrightarrow> length (set_fld bs k w) = length bs"
  by (simp add: set_fld_def)

lemma fld_set_fld_same [simp]: "4 * k + 4 \<le> length bs \<Longrightarrow> fld (set_fld bs k w) k = w"
  by (simp add: fld_def set_fld_def)

lemma of_le32_take: "of_le32 (take 4 xs) = (if 4 \<le> length xs then of_le32 xs else 0)"
proof (cases "4 \<le> length xs")
  case True
  then obtain a b c d ys where "xs = a # b # c # d # ys"
    by (metis Suc_le_length_iff numeral_eq_Suc pred_numeral_simps(2) pred_numeral_simps(3) BitM.simps(1) BitM.simps(2) numeral_One One_nat_def)
  then show ?thesis by (simp add: numeral_eq_Suc)
next
  case False
  then show ?thesis by (cases xs rule: of_le32.cases) auto
qed

lemma fld_set_fld_other:
  assumes "j \<noteq> k" and "4 * j + 4 \<le> length bs" and "4 * k + 4 \<le> length bs"
  shows "fld (set_fld bs k w) j = fld bs j"
proof (cases "j < k")
  case True
  have "take 4 (drop (4 * j) (set_fld bs k w)) = take 4 (drop (4 * j) bs)"
    using True assms by (simp add: set_fld_def take_drop min_def)
  then have "of_le32 (take 4 (drop (4 * j) (set_fld bs k w))) = of_le32 (take 4 (drop (4 * j) bs))" by simp
  moreover have "4 \<le> length bs - 4 * j" using assms by simp
  ultimately show ?thesis using assms by (simp add: fld_def of_le32_take)
next
  case False
  then have "k + 1 \<le> j" using assms by simp
  then obtain i where "j = k + 1 + i" using le_Suc_ex by blast
  then show ?thesis using assms by (simp add: fld_def set_fld_def add_ac)
qed


definition fld64 :: "u8 list \<Rightarrow> nat \<Rightarrow> u64" where
  "fld64 bs k = ucast (fld bs k) OR push_bit 32 (ucast (fld bs (k + 1)))"

text \<open>A fresh kernel buffer of \<open>n\<close> bytes; \<open>uninit\<close> is what uninitialised memory happens to hold.\<close>

definition fresh_buf :: "(nat \<Rightarrow> u8 list) \<Rightarrow> nat \<Rightarrow> u8 list" where
  "fresh_buf uninit n = take n (uninit n @ replicate n 0)"

lemma length_fresh_buf [simp]: "length (fresh_buf uninit n) = n"
  by (simp add: fresh_buf_def)

text \<open>
  Copying to and from a kernel buffer at an offset: \<open>n\<close> bytes that do not lie in the buffer are
  undefined behaviour, but no bytes are no access wherever the pointer points.
\<close>

definition c_copy :: "u8 list \<Rightarrow> int \<Rightarrow> u8 list \<Rightarrow> u8 list option" where
  "c_copy xs off ys = (if ys = [] then Some xs else c_store xs off ys)"

definition c_read :: "u8 list \<Rightarrow> int \<Rightarrow> nat \<Rightarrow> u8 list option" where
  "c_read xs off n = (if n = 0 then Some [] else c_slice xs off (int n))"

lemma c_copy_fits: "0 \<le> off \<Longrightarrow> nat off + length ys \<le> length xs \<Longrightarrow> \<exists>zs. c_copy xs off ys = Some zs \<and> length zs = length xs"
  using c_store_fits [of off ys xs] c_store_length by (fastforce simp: c_copy_def)

lemma c_read_fits: "0 \<le> off \<Longrightarrow> nat off + n \<le> length xs \<Longrightarrow> \<exists>ys. c_read xs off n = Some ys"
  using c_slice_fits [of off n xs] by (auto simp: c_read_def)

lemma c_read_c_copy: "c_copy xs off ys = Some zs \<Longrightarrow> c_read zs off (length ys) = Some ys"
  by (auto simp: c_copy_def c_read_def c_slice_c_store split: if_splits)

lemma c_copy_outside: "ys \<noteq> [] \<Longrightarrow> off < 0 \<or> length xs < length ys \<Longrightarrow> c_copy xs off ys = None"
  by (auto simp: c_copy_def c_store_def)

lemma run_len_range: "(\<And>k. k < n \<Longrightarrow> p (a + of_nat k)) \<Longrightarrow> run_len p a n = n"
proof (induction n arbitrary: a)
  case (Suc n)
  have "p (a + 1 + of_nat k)" if "k < n" for k using Suc.prems [of "Suc k"] that by (simp add: add.assoc)
  then show ?case using Suc.IH [of "a + 1"] Suc.prems [of 0] by simp
qed simp

lemma run_len_all: "(\<And>a. p a) \<Longrightarrow> run_len p a n = n"
  by (induction n arbitrary: a) auto

lemma fld_le32 [simp]: "fld (le32 n @ bs) 0 = n" "fld (le32 n @ le32 m @ bs) (Suc 0) = m"
  by (simp_all add: fld_def)

end
