(* ===== verification/Memalloc.thy ===== *)
theory Memalloc
  imports Kernel_Env
begin

unbundle bit_operations_syntax

text \<open>
  The contiguous memory allocator module (\<^verbatim>\<open>src/module_test/memalloc.c\<close>). Its state is the
  list of allocations \<open>heap_list\<close> and the open count; beside it the model keeps what the kernel
  has handed out: the coherent DMA blocks (physical address, virtual address, size) and the number
  of list entries obtained from \<open>kzalloc\<close>. Freeing a block that is not handed out is undefined
  behaviour. The DMA allocator, \<open>access_ok\<close> and the outcome of each \<open>kzalloc\<close> and
  \<open>remap_pfn_range\<close> are the environment.
\<close>

section \<open>State\<close>

record allocation =
  al_phys_addr :: u32
  al_cpu_addr :: u32
  al_size :: u32

type_synonym dma_block = "u32 \<times> u32 \<times> u32"

record vm_area =
  vm_start :: u32
  vm_end :: u32
  vm_pgoff :: u32
  vm_flags :: u32
  vm_page_prot :: u32

text \<open>A user mapping made by \<open>remap_pfn_range\<close>: the area, its start, the first page frame, the size.\<close>

record vm_map =
  mp_area :: vm_area
  mp_start :: u32
  mp_pfn :: u32
  mp_size :: u32

record mem_state =
  ms_heap_list :: "allocation list"
  ms_open_count :: int
  ms_dma_live :: "dma_block list"
  ms_entries_live :: nat
  ms_maps :: "vm_map list"
  ms_user :: umem
  ms_kzalloc :: "bool list"
  ms_remap :: "bool list"

record mem_env =
  me_dma_alloc :: "dma_block list \<Rightarrow> u32 \<Rightarrow> u32 \<times> u32"
  me_access_ok :: "u32 \<Rightarrow> u32 \<Rightarrow> bool"
  me_VM_RESERVED :: u32
  me_pgprot_noncached :: "u32 \<Rightarrow> u32"

definition block_of :: "allocation \<Rightarrow> dma_block" where
  "block_of e = (al_phys_addr e, al_cpu_addr e, al_size e)"

definition PAGE_SHIFT :: nat where "PAGE_SHIFT = 12"

definition PAGE_ALIGN :: "u32 \<Rightarrow> u32" where
  "PAGE_ALIGN sz = (sz + 0xfff) AND NOT 0xfff"

section \<open>Operations\<close>

definition dma_free_coherent :: "mem_state \<Rightarrow> allocation \<Rightarrow> mem_state run" where
  "dma_free_coherent s e =
     (if block_of e \<in> set (ms_dma_live s)
      then Done (s\<lparr>ms_dma_live := remove1 (block_of e) (ms_dma_live s)\<rparr>) else Undef)"

definition kfree_entry :: "mem_state \<Rightarrow> mem_state run" where
  "kfree_entry s = (if 0 < ms_entries_live s then Done (s\<lparr>ms_entries_live := ms_entries_live s - 1\<rparr>) else Undef)"

function memalloc_free_buffers :: "mem_state \<Rightarrow> mem_state run" where
  "memalloc_free_buffers s =
     (case ms_heap_list s of
        [] \<Rightarrow> Done s
      | entry # rest \<Rightarrow>
          run_bind (dma_free_coherent s entry) (\<lambda>s1.
          run_bind (kfree_entry (s1\<lparr>ms_heap_list := rest\<rparr>)) memalloc_free_buffers))"
  by pat_completeness auto
termination
proof (relation "measure (\<lambda>s. length (ms_heap_list s))", goal_cases)
  case (2 s entry rest s1 s2)
  then show ?case
    by (auto simp: dma_free_coherent_def kfree_entry_def split: if_splits)
qed simp

declare memalloc_free_buffers.simps [simp del]

primrec FindEntryByBus :: "allocation list \<Rightarrow> u32 \<Rightarrow> allocation option" where
  "FindEntryByBus [] phys_addr = None"
| "FindEntryByBus (entry # rest) phys_addr =
     (if al_phys_addr entry = phys_addr then Some entry else FindEntryByBus rest phys_addr)"

definition AllocMemory :: "mem_env \<Rightarrow> mem_state \<Rightarrow> u32 \<Rightarrow> int \<times> u32 \<times> mem_state" where
  "AllocMemory env s size0 =
     (let kz = (case ms_kzalloc s of [] \<Rightarrow> True | b # _ \<Rightarrow> b);
          s1 = s\<lparr>ms_kzalloc := tl (ms_kzalloc s)\<rparr>
      in if \<not> kz then (- ENOMEM, 0, s1)
         else
           (let s2 = s1\<lparr>ms_entries_live := ms_entries_live s1 + 1\<rparr>; sz = PAGE_ALIGN size0
            in case me_dma_alloc env (ms_dma_live s2) sz of
                 (phys, cpu) \<Rightarrow>
                   (if cpu = 0 then (- ENOMEM, 0, s2)
                    else
                      (let entry = \<lparr>al_phys_addr = phys, al_cpu_addr = cpu, al_size = sz\<rparr>
                       in (0, phys, s2\<lparr>ms_dma_live := ms_dma_live s2 @ [(phys, cpu, sz)],
                                       ms_heap_list := ms_heap_list s2 @ [entry]\<rparr>)))))"

definition FreeMemory :: "mem_state \<Rightarrow> u32 \<Rightarrow> (int \<times> mem_state) run" where
  "FreeMemory s phys_addr =
     (case FindEntryByBus (ms_heap_list s) phys_addr of
        None \<Rightarrow> Done (- EINVAL, s)
      | Some entry \<Rightarrow>
          (let s1 = s\<lparr>ms_heap_list := remove1 entry (ms_heap_list s)\<rparr>
           in run_bind (dma_free_coherent s1 entry) (\<lambda>s2.
              run_bind (kfree_entry s2) (\<lambda>s3. Done (0, s3)))))"

definition MapBuffer :: "mem_env \<Rightarrow> mem_state \<Rightarrow> vm_area \<Rightarrow> int \<times> mem_state" where
  "MapBuffer env s vma =
     (let offset = push_bit PAGE_SHIFT (vm_pgoff vma);
          start = vm_start vma;
          sz = vm_end vma - vm_start vma
      in case FindEntryByBus (ms_heap_list s) offset of
           None \<Rightarrow> (- EINVAL, s)
         | Some entry \<Rightarrow>
             (if sz \<noteq> al_size entry then (- EINVAL, s)
              else
                (let vma' = vma\<lparr>vm_flags := vm_flags vma OR me_VM_RESERVED env,
                                vm_page_prot := me_pgprot_noncached env (vm_page_prot vma)\<rparr>;
                     phys = al_phys_addr entry;
                     ok = (case ms_remap s of [] \<Rightarrow> True | b # _ \<Rightarrow> b);
                     s1 = s\<lparr>ms_remap := tl (ms_remap s)\<rparr>
                 in if \<not> ok then (- EAGAIN, s1)
                    else (0, s1\<lparr>ms_maps := \<lparr>mp_area = vma', mp_start = start,
                                  mp_pfn = drop_bit PAGE_SHIFT phys, mp_size = sz\<rparr> # ms_maps s1\<rparr>))))"

definition memalloc_mmap :: "mem_env \<Rightarrow> mem_state \<Rightarrow> vm_area \<Rightarrow> int \<times> mem_state" where
  "memalloc_mmap env s vma = MapBuffer env s vma"

definition MEMALLOC_IOC_MAGIC :: u32 where "MEMALLOC_IOC_MAGIC = 0x6b"
definition MEMALLOC_IOC_MAXNR :: u32 where "MEMALLOC_IOC_MAXNR = 3"
definition MEMALLOC_IOCXGETBUFFER :: u32 where
  "MEMALLOC_IOCXGETBUFFER = ioc (IOC_READ OR IOC_WRITE) MEMALLOC_IOC_MAGIC 1 4"
definition MEMALLOC_IOCSFREEBUFFER :: u32 where
  "MEMALLOC_IOCSFREEBUFFER = ioc IOC_WRITE MEMALLOC_IOC_MAGIC 2 4"
definition MEMALLOC_IOCHARDRESET :: u32 where
  "MEMALLOC_IOCHARDRESET = ioc 0 MEMALLOC_IOC_MAGIC 3 0"

definition memalloc_ioctl :: "mem_env \<Rightarrow> mem_state \<Rightarrow> u32 \<Rightarrow> u32 \<Rightarrow> (int \<times> mem_state) run" where
  "memalloc_ioctl env s cmd arg =
     (if ioc_type cmd \<noteq> MEMALLOC_IOC_MAGIC then Done (- ENOTTY, s)
      else if ioc_nr cmd > MEMALLOC_IOC_MAXNR then Done (- ENOTTY, s)
      else if (ioc_dir cmd AND IOC_READ \<noteq> 0 \<or> ioc_dir cmd AND IOC_WRITE \<noteq> 0) \<and>
              \<not> me_access_ok env arg (ioc_size cmd) then Done (- EFAULT, s)
      else if cmd = MEMALLOC_IOCHARDRESET then
        run_bind (memalloc_free_buffers s) (\<lambda>s'. Done (0, s'))
      else if cmd = MEMALLOC_IOCXGETBUFFER then
        (let sz = snd (get_user (ms_user s) arg);
             (retval, phys_addr, s1) = AllocMemory env s sz
         in Done (retval, s1\<lparr>ms_user := snd (put_user (ms_user s1) arg phys_addr)\<rparr>))
      else if cmd = MEMALLOC_IOCSFREEBUFFER then
        FreeMemory s (snd (get_user (ms_user s) arg))
      else Done (- EINVAL, s))"

definition memalloc_open :: "mem_state \<Rightarrow> int \<times> mem_state" where
  "memalloc_open s = (0, s\<lparr>ms_open_count := ms_open_count s + 1\<rparr>)"

definition memalloc_release :: "mem_state \<Rightarrow> (int \<times> mem_state) run" where
  "memalloc_release s =
     (let s1 = s\<lparr>ms_open_count := ms_open_count s - 1\<rparr>
      in if ms_open_count s1 = 0 then run_bind (memalloc_free_buffers s1) (\<lambda>s2. Done (0, s2))
         else Done (0, s1))"

datatype mem_call = MOpen | MIoctl u32 u32 | MMmap vm_area | MRelease

fun memalloc_step :: "mem_env \<Rightarrow> mem_state \<Rightarrow> mem_call \<Rightarrow> (int \<times> mem_state) run" where
  "memalloc_step env s MOpen = Done (memalloc_open s)"
| "memalloc_step env s (MIoctl cmd arg) = memalloc_ioctl env s cmd arg"
| "memalloc_step env s (MMmap vma) = Done (memalloc_mmap env s vma)"
| "memalloc_step env s MRelease = memalloc_release s"

text \<open>
  Loading and unloading. The three registration results are arguments: what \<open>register_chrdev\<close>
  returns and whether \<open>class_create\<close> and \<open>device_create\<close> succeed.
\<close>

definition memalloc_init :: "int \<Rightarrow> bool \<Rightarrow> bool \<Rightarrow> devreg \<Rightarrow> int \<times> devreg" where
  "memalloc_init chrdev class_ok device_ok r =
     (if chrdev \<le> 0 then (- EIO, r)
      else
        (let r1 = r\<lparr>dr_chrdev := True\<rparr>
         in if \<not> class_ok then (- EIO, r1\<lparr>dr_chrdev := False\<rparr>)
            else
              (let r2 = r1\<lparr>dr_class := True\<rparr>
               in if \<not> device_ok then (- EIO, r2\<lparr>dr_class := False, dr_chrdev := False\<rparr>)
                  else (0, r2\<lparr>dr_device := True\<rparr>))))"

definition memalloc_cleanup :: "devreg \<Rightarrow> mem_state \<Rightarrow> (devreg \<times> mem_state) run" where
  "memalloc_cleanup r s =
     (let r' = r\<lparr>dr_device := False, dr_class := False, dr_chrdev := False\<rparr>
      in run_bind (memalloc_free_buffers s) (\<lambda>s'. Done (r', s')))"


section \<open>Invariant\<close>

text \<open>
  Two blocks are apart when neither range reaches into the other. \<open>dma_ok\<close> is what the driver
  relies on: a block the DMA allocator hands out (virtual address not 0) does not overlap a block
  still handed out, nor does it share its start with one.
\<close>

fun apart :: "dma_block \<Rightarrow> dma_block \<Rightarrow> bool" where
  "apart (p, c, n) (p', c', n') \<longleftrightarrow>
     p \<noteq> p' \<and> (unat p + unat n \<le> unat p' \<or> unat p' + unat n' \<le> unat p)"

definition dma_ok :: "mem_env \<Rightarrow> bool" where
  "dma_ok env \<longleftrightarrow> (\<forall>live sz p c. me_dma_alloc env live sz = (p, c) \<and> c \<noteq> 0 \<longrightarrow>
     (\<forall>b \<in> set live. apart b (p, c, sz)))"

definition mem_inv :: "mem_state \<Rightarrow> bool" where
  "mem_inv s \<longleftrightarrow> ms_dma_live s = map block_of (ms_heap_list s) \<and> sorted_wrt apart (ms_dma_live s) \<and>
     length (ms_heap_list s) \<le> ms_entries_live s"

lemma block_of_eq [simp]: "block_of e = block_of e' \<longleftrightarrow> e = e'"
  by (cases e; cases e') (simp add: block_of_def)

lemma map_block_remove1: "map block_of (remove1 e es) = remove1 (block_of e) (map block_of es)"
  by (induction es) auto

lemma sorted_wrt_remove1: "sorted_wrt P xs \<Longrightarrow> sorted_wrt P (remove1 x xs)"
  by (induction xs) (auto dest: notin_set_remove1)

lemma FindEntryByBus_SomeD:
  "FindEntryByBus es p = Some e \<Longrightarrow> e \<in> set es \<and> al_phys_addr e = p"
  by (induction es) (auto split: if_splits)

lemma FindEntryByBus_None_iff: "FindEntryByBus es p = None \<longleftrightarrow> p \<notin> al_phys_addr ` set es"
  by (induction es) auto

lemma FindEntryByBus_append:
  "FindEntryByBus (es @ es') p = (case FindEntryByBus es p of None \<Rightarrow> FindEntryByBus es' p | Some e \<Rightarrow> Some e)"
  by (induction es) auto

lemma memalloc_free_buffers_all:
  assumes "mem_inv s"
  shows "\<exists>k. memalloc_free_buffers s =
     Done (s\<lparr>ms_heap_list := [], ms_dma_live := [], ms_entries_live := k\<rparr>) \<and>
     k = ms_entries_live s - length (ms_heap_list s)"
  using assms
proof (induction "ms_heap_list s" arbitrary: s)
  case Nil
  then show ?case by (simp add: mem_inv_def memalloc_free_buffers.simps)
next
  case (Cons e es)
  let ?s = "s\<lparr>ms_dma_live := map block_of es, ms_heap_list := es, ms_entries_live := ms_entries_live s - 1\<rparr>"
  have "memalloc_free_buffers s = memalloc_free_buffers ?s"
    using Cons.prems Cons.hyps(2) [symmetric]
    by (subst memalloc_free_buffers.simps) (auto simp: mem_inv_def dma_free_coherent_def kfree_entry_def)
  moreover have "mem_inv ?s" using Cons.prems Cons.hyps(2) [symmetric] by (auto simp: mem_inv_def)
  ultimately show ?case using Cons.hyps(1) [of ?s] Cons.hyps(2) [symmetric] by simp
qed

lemma mem_inv_emptied: "mem_inv (s\<lparr>ms_heap_list := [], ms_dma_live := [], ms_entries_live := k\<rparr>)"
  by (simp add: mem_inv_def)

lemma AllocMemory_inv:
  assumes "dma_ok env" and "mem_inv s" and "AllocMemory env s n = (r, p, s')"
  shows "mem_inv s'"
  using assms unfolding AllocMemory_def
  by (auto simp: mem_inv_def dma_ok_def Let_def block_of_def sorted_wrt_append split: if_splits prod.splits)

lemma FreeMemory_some:
  assumes inv: "mem_inv s" and find: "FindEntryByBus (ms_heap_list s) p = Some e"
  shows "FreeMemory s p = Done (0, s\<lparr>ms_heap_list := remove1 e (ms_heap_list s),
      ms_dma_live := remove1 (block_of e) (ms_dma_live s), ms_entries_live := ms_entries_live s - 1\<rparr>)"
proof -
  have e: "e \<in> set (ms_heap_list s)" using FindEntryByBus_SomeD [OF find] by simp
  then have "0 < length (ms_heap_list s)" by (cases "ms_heap_list s") auto
  then have "0 < ms_entries_live s" using inv by (auto simp: mem_inv_def intro: less_le_trans)
  then show ?thesis using inv find e
    by (auto simp: FreeMemory_def mem_inv_def dma_free_coherent_def kfree_entry_def Let_def)
qed

lemma FreeMemory_inv:
  assumes "mem_inv s"
  shows "\<exists>r s'. FreeMemory s p = Done (r, s') \<and> mem_inv s'"
proof (cases "FindEntryByBus (ms_heap_list s) p")
  case None
  then show ?thesis using assms by (simp add: FreeMemory_def)
next
  case (Some e)
  then have "e \<in> set (ms_heap_list s)" using FindEntryByBus_SomeD by fastforce
  moreover have "sorted_wrt apart (remove1 (block_of e) (ms_dma_live s))"
    using assms unfolding mem_inv_def by (blast intro: sorted_wrt_remove1)
  ultimately have "mem_inv (s\<lparr>ms_heap_list := remove1 e (ms_heap_list s),
      ms_dma_live := remove1 (block_of e) (ms_dma_live s), ms_entries_live := ms_entries_live s - 1\<rparr>)"
    using assms by (auto simp: mem_inv_def map_block_remove1 length_remove1 diff_le_mono)
  then show ?thesis using FreeMemory_some [OF assms Some] by blast
qed

lemma mem_inv_frame [simp]:
  "mem_inv (s\<lparr>ms_user := u\<rparr>) = mem_inv s" "mem_inv (s\<lparr>ms_open_count := k\<rparr>) = mem_inv s"
  "mem_inv (s\<lparr>ms_remap := rs\<rparr>) = mem_inv s" "mem_inv (s\<lparr>ms_maps := ms\<rparr>) = mem_inv s"
  by (simp_all add: mem_inv_def)

lemma memalloc_ioctl_inv:
  assumes "dma_ok env" and "mem_inv s"
  shows "\<exists>r s'. memalloc_ioctl env s cmd arg = Done (r, s') \<and> mem_inv s'"
proof -
  obtain r p s1 where al: "AllocMemory env s (snd (get_user (ms_user s) arg)) = (r, p, s1)"
    by (metis prod_cases3)
  have "mem_inv s1" by (rule AllocMemory_inv [OF assms al])
  then show ?thesis
    using memalloc_free_buffers_all [OF assms(2)] FreeMemory_inv [OF assms(2)] assms(2)
    by (auto simp: memalloc_ioctl_def al mem_inv_emptied)
qed

lemma memalloc_mmap_inv: "mem_inv s \<Longrightarrow> mem_inv (snd (memalloc_mmap env s vma))"
  by (simp add: memalloc_mmap_def MapBuffer_def Let_def split: option.splits)

lemma memalloc_release_inv:
  assumes "mem_inv s"
  shows "\<exists>s'. memalloc_release s = Done (0, s') \<and> mem_inv s'"
  using memalloc_free_buffers_all [of "s\<lparr>ms_open_count := ms_open_count s - 1\<rparr>"] assms
  by (auto simp: memalloc_release_def Let_def mem_inv_emptied)

interpretation memalloc: char_driver "memalloc_step env" "\<lambda>s c. True" "\<lambda>s. dma_ok env \<and> mem_inv s" for env
proof
  fix s c
  assume inv: "dma_ok env \<and> mem_inv s"
  show "\<exists>r s'. memalloc_step env s c = Done (r, s') \<and> dma_ok env \<and> mem_inv s'"
  proof (cases c)
    case (MMmap vma)
    then show ?thesis using memalloc_mmap_inv [of s env vma] inv by (cases "memalloc_mmap env s vma") auto
  qed (use inv memalloc_ioctl_inv [of env s] memalloc_release_inv [of s] in \<open>auto simp: memalloc_open_def\<close>)
qed

section \<open>Properties\<close>

definition mem_start :: "umem \<Rightarrow> mem_state" where
  "mem_start u = \<lparr>ms_heap_list = [], ms_open_count = 0, ms_dma_live = [], ms_entries_live = 0,
     ms_maps = [], ms_user = u, ms_kzalloc = [], ms_remap = []\<rparr>"

text \<open>One allocator that satisfies \<open>dma_ok\<close>: it serves one block at a time.\<close>

definition one_block_env :: mem_env where
  "one_block_env = \<lparr>me_dma_alloc = (\<lambda>live sz. if live = [] then (0x10000, 0xC0010000) else (0, 0)),
     me_access_ok = (\<lambda>a n. True), me_VM_RESERVED = 0x80000, me_pgprot_noncached = (\<lambda>p. p)\<rparr>"

lemma one_block_env_ok: "dma_ok one_block_env"
  by (auto simp: dma_ok_def one_block_env_def split: if_splits)

definition user_word :: "u32 \<Rightarrow> umem" where
  "user_word v = uwrite \<lparr>um_byte = (\<lambda>_. 0), um_rd = (\<lambda>_. True), um_wr = (\<lambda>_. True)\<rparr> 0x100 (le32 v)"

lemma mem_start_inv: "mem_inv (mem_start u)"
  by (simp add: mem_inv_def mem_start_def)

text \<open>
  C10: The allocator module is memory safe under every sequence of \<open>open\<close>, \<open>ioctl\<close> (any
  command, any argument), \<open>mmap\<close> and \<open>close\<close> calls: no call frees a block or an entry that is
  not allocated, the list of allocations matches exactly the DMA blocks the kernel has handed out,
  and no two live buffers overlap.
\<close>

theorem memalloc_safe:
  assumes "dma_ok env" and "mem_inv s"
  shows "\<exists>rs s'. run_calls (memalloc_step env) s cs = Done (rs, s') \<and> length rs = length cs \<and> mem_inv s'"
  using memalloc.run_calls_ok [of env s cs] assms by (auto simp: adm_calls_all)

theorem memalloc_safe_witness:
  "\<exists>rs s'. run_calls (memalloc_step one_block_env) (mem_start (user_word 5))
     [MOpen, MIoctl MEMALLOC_IOCXGETBUFFER 0x100, MIoctl MEMALLOC_IOCSFREEBUFFER 0x100, MRelease] =
       Done (rs, s') \<and> length rs = 4 \<and> mem_inv s'"
  using memalloc_safe [OF one_block_env_ok mem_start_inv, of "user_word 5"
      "[MOpen, MIoctl MEMALLOC_IOCXGETBUFFER 0x100, MIoctl MEMALLOC_IOCSFREEBUFFER 0x100, MRelease]"]
  by (simp add: numeral_eq_Suc del: run_calls.simps)

text \<open>
  C11: The \<open>MEMALLOC_IOCHARDRESET\<close> command returns every DMA block to the kernel and empties the
  list at any time, whatever the open count; so does the \<open>close\<close> of the last descriptor, and a
  \<open>close\<close> while others are open frees nothing.
\<close>

theorem memalloc_frees_all:
  assumes "mem_inv s"
  shows "(\<exists>s1. memalloc_ioctl env s MEMALLOC_IOCHARDRESET arg = Done (0, s1) \<and> ms_heap_list s1 = [] \<and>
        ms_dma_live s1 = [] \<and> ms_open_count s1 = ms_open_count s) \<and>
    (\<exists>s2. memalloc_release s = Done (0, s2) \<and> ms_open_count s2 = ms_open_count s - 1 \<and>
        (if ms_open_count s = 1 then ms_heap_list s2 = [] \<and> ms_dma_live s2 = []
         else ms_heap_list s2 = ms_heap_list s \<and> ms_dma_live s2 = ms_dma_live s))"
proof
  have cmd: "ioc_type MEMALLOC_IOCHARDRESET = MEMALLOC_IOC_MAGIC" "\<not> ioc_nr MEMALLOC_IOCHARDRESET > MEMALLOC_IOC_MAXNR"
      "ioc_dir MEMALLOC_IOCHARDRESET AND IOC_READ = 0" "ioc_dir MEMALLOC_IOCHARDRESET AND IOC_WRITE = 0"
    by (simp_all add: MEMALLOC_IOCHARDRESET_def MEMALLOC_IOC_MAGIC_def MEMALLOC_IOC_MAXNR_def ioc_defs)
  show "\<exists>s1. memalloc_ioctl env s MEMALLOC_IOCHARDRESET arg = Done (0, s1) \<and> ms_heap_list s1 = [] \<and>
      ms_dma_live s1 = [] \<and> ms_open_count s1 = ms_open_count s"
    using memalloc_free_buffers_all [OF assms] by (auto simp: memalloc_ioctl_def cmd)
  show "\<exists>s2. memalloc_release s = Done (0, s2) \<and> ms_open_count s2 = ms_open_count s - 1 \<and>
      (if ms_open_count s = 1 then ms_heap_list s2 = [] \<and> ms_dma_live s2 = []
       else ms_heap_list s2 = ms_heap_list s \<and> ms_dma_live s2 = ms_dma_live s)"
    using memalloc_free_buffers_all [of "s\<lparr>ms_open_count := 0\<rparr>"] assms
    by (cases "ms_open_count s = 1") (auto simp: memalloc_release_def)
qed

definition mem_one :: mem_state where
  "mem_one = (mem_start (user_word 5))\<lparr>ms_open_count := 1, ms_entries_live := 1,
     ms_heap_list := [\<lparr>al_phys_addr = 0x10000, al_cpu_addr = 0xC0010000, al_size = 0x1000\<rparr>],
     ms_dma_live := [(0x10000, 0xC0010000, 0x1000)]\<rparr>"

lemma mem_one_inv: "mem_inv (mem_one\<lparr>ms_open_count := n\<rparr>)"
  by (simp add: mem_inv_def mem_one_def block_of_def)

theorem memalloc_frees_all_witness:
  "(\<exists>s1. memalloc_ioctl one_block_env (mem_one\<lparr>ms_open_count := 2\<rparr>) MEMALLOC_IOCHARDRESET 0 = Done (0, s1) \<and>
      ms_dma_live s1 = []) \<and>
   (\<exists>s2. memalloc_release (mem_one\<lparr>ms_open_count := 2\<rparr>) = Done (0, s2) \<and> length (ms_dma_live s2) = 1) \<and>
   (\<exists>s2. memalloc_release (mem_one\<lparr>ms_open_count := 1\<rparr>) = Done (0, s2) \<and> ms_dma_live s2 = [])"
  using memalloc_frees_all [OF mem_one_inv, of one_block_env 2 0] memalloc_frees_all [OF mem_one_inv, of one_block_env 1 0]
  by (auto simp: mem_one_def)

text \<open>
  Allocate and free are inverse: a successful \<open>MEMALLOC_IOCXGETBUFFER\<close> stores the physical
  address of a new block of the requested size, rounded up to whole pages, at the argument, and
  \<open>MEMALLOC_IOCSFREEBUFFER\<close> on the same argument releases exactly that block again.
\<close>

lemma memalloc_get_free:
  assumes "dma_ok env" and "mem_inv s" and "me_access_ok env arg 4"
    and "readable (ms_user s) arg 4" and "writable (ms_user s) arg 4"
    and "memalloc_ioctl env s MEMALLOC_IOCXGETBUFFER arg = Done (0, s1)"
  shows "\<exists>b s2. ms_dma_live s1 = ms_dma_live s @ [b] \<and>
      snd (snd b) = PAGE_ALIGN (of_le32 (uread (ms_user s) arg 4)) \<and>
      of_le32 (uread (ms_user s1) arg 4) = fst b \<and>
      memalloc_ioctl env s1 MEMALLOC_IOCSFREEBUFFER arg = Done (0, s2) \<and>
      ms_dma_live s2 = ms_dma_live s \<and> ms_heap_list s2 = ms_heap_list s \<and>
      ms_entries_live s2 = ms_entries_live s"
proof -
  have cmd: "ioc_type MEMALLOC_IOCXGETBUFFER = MEMALLOC_IOC_MAGIC" "\<not> ioc_nr MEMALLOC_IOCXGETBUFFER > MEMALLOC_IOC_MAXNR"
      "ioc_size MEMALLOC_IOCXGETBUFFER = 4" "MEMALLOC_IOCXGETBUFFER \<noteq> MEMALLOC_IOCHARDRESET"
      "ioc_type MEMALLOC_IOCSFREEBUFFER = MEMALLOC_IOC_MAGIC" "\<not> ioc_nr MEMALLOC_IOCSFREEBUFFER > MEMALLOC_IOC_MAXNR"
      "ioc_size MEMALLOC_IOCSFREEBUFFER = 4" "MEMALLOC_IOCSFREEBUFFER \<noteq> MEMALLOC_IOCHARDRESET"
      "MEMALLOC_IOCSFREEBUFFER \<noteq> MEMALLOC_IOCXGETBUFFER"
    by (simp_all add: MEMALLOC_IOCXGETBUFFER_def MEMALLOC_IOCSFREEBUFFER_def MEMALLOC_IOCHARDRESET_def
        MEMALLOC_IOC_MAGIC_def MEMALLOC_IOC_MAXNR_def ioc_defs)
  let ?n = "of_le32 (uread (ms_user s) arg 4)"
  have gu: "snd (get_user (ms_user s) arg) = ?n" using assms(4) by (simp add: get_user_def readable_def)
  obtain r p s0 where al: "AllocMemory env s ?n = (r, p, s0)" by (metis prod_cases3)
  have r0: "r = 0" and s1: "s1 = s0\<lparr>ms_user := snd (put_user (ms_user s0) arg p)\<rparr>"
    using assms(6) assms(3) by (auto simp: memalloc_ioctl_def cmd gu al)
  define e where "e = \<lparr>al_phys_addr = p, al_cpu_addr = snd (me_dma_alloc env (ms_dma_live s) (PAGE_ALIGN ?n)), al_size = PAGE_ALIGN ?n\<rparr>"
  have s0: "s0 = s\<lparr>ms_kzalloc := tl (ms_kzalloc s), ms_entries_live := ms_entries_live s + 1,
      ms_dma_live := ms_dma_live s @ [block_of e], ms_heap_list := ms_heap_list s @ [e]\<rparr>"
    using al r0 by (auto simp: AllocMemory_def Let_def e_def block_of_def errno_defs split: if_splits prod.splits)
  have be: "fst (block_of e) = p" "snd (snd (block_of e)) = PAGE_ALIGN ?n" by (simp_all add: e_def block_of_def)
  have inv0: "mem_inv s0" by (rule AllocMemory_inv [OF assms(1,2) al])
  have u1: "ms_user s1 = uwrite (ms_user s) arg (le32 p)"
    using assms(5) by (simp add: s1 s0 put_user_def writable_def)
  have rd: "of_le32 (uread (ms_user s1) arg 4) = p"
    using uread_uwrite [of "le32 p" "ms_user s" arg] of_le32_le32 [of p "[]"] by (simp add: u1)
  have gu1: "snd (get_user (ms_user s1) arg) = p"
    using assms(4) rd by (simp add: get_user_def readable_def u1)
  have none: "FindEntryByBus (ms_heap_list s) p = None"
    using inv0 by (auto simp: mem_inv_def s0 sorted_wrt_append e_def block_of_def FindEntryByBus_None_iff)
  have notin: "e \<notin> set (ms_heap_list s)" "FindEntryByBus (ms_heap_list s) p = None"
    using none image_eqI [of p al_phys_addr e] by (auto simp: FindEntryByBus_None_iff e_def)
  have inv1: "mem_inv s1" using inv0 by (simp add: s1)
  have "FindEntryByBus (ms_heap_list s1) p = Some e"
    using notin by (simp add: s1 s0 FindEntryByBus_append) (simp add: e_def)
  from FreeMemory_some [OF inv1 this] notin inv0 show ?thesis
    using assms(2,3) rd gu1 be
    by (intro exI [of _ "block_of e"]) (auto simp: memalloc_ioctl_def cmd s1 s0 mem_inv_def remove1_append)
qed

text \<open>
  C13: \<open>mmap\<close> maps live buffers and nothing else: it returns 0 only for an area whose length is
  the exact size of an allocation and whose offset is its physical address, and the range it maps
  is exactly that block; on every error nothing is mapped.
\<close>

theorem memalloc_mmap_exact:
  "case memalloc_mmap env s vma of (r, s') \<Rightarrow>
     if r = 0 then \<exists>e m. e \<in> set (ms_heap_list s) \<and> ms_maps s' = m # ms_maps s \<and>
         al_phys_addr e = push_bit 12 (vm_pgoff vma) \<and> mp_size m = al_size e \<and>
         mp_size m = vm_end vma - vm_start vma \<and> mp_start m = vm_start vma \<and>
         push_bit 12 (mp_pfn m) = al_phys_addr e
     else ms_maps s' = ms_maps s \<and> r \<in> {- EINVAL, - EAGAIN}"
proof (cases "FindEntryByBus (ms_heap_list s) (push_bit 12 (vm_pgoff vma))")
  case None
  then show ?thesis by (simp add: memalloc_mmap_def MapBuffer_def PAGE_SHIFT_def errno_defs)
next
  case (Some e)
  have "push_bit 12 (drop_bit 12 (push_bit 12 w)) = push_bit 12 w" for w :: u32
    by (rule bit_word_eqI) (auto simp: bit_simps)
  then show ?thesis using Some FindEntryByBus_SomeD [OF Some]
    by (auto simp: memalloc_mmap_def MapBuffer_def PAGE_SHIFT_def Let_def errno_defs)
qed

text \<open>
  Loading is all or nothing: \<open>memalloc_init\<close> returns 0 exactly when the character device,
  the class and the device node are all registered, and on each failure path nothing stays
  registered; unloading undoes the registration and frees every buffer.
\<close>

lemma memalloc_init_atomic:
  assumes "mem_inv s"
  shows "(case memalloc_init chrdev class_ok device_ok no_reg of (r, d) \<Rightarrow>
       if chrdev > 0 \<and> class_ok \<and> device_ok then r = 0 \<and> d = all_reg else r = - EIO \<and> d = no_reg) \<and>
     (\<exists>s'. memalloc_cleanup all_reg s = Done (no_reg, s') \<and> ms_heap_list s' = [] \<and> ms_dma_live s' = [])"
  using memalloc_free_buffers_all [OF assms]
  by (auto simp: memalloc_init_def memalloc_cleanup_def no_reg_def all_reg_def Let_def)

text \<open>
  When the DMA allocator is out of memory \<open>AllocMemory\<close> returns \<open>-ENOMEM\<close> but keeps the
  list entry it got from \<open>kzalloc\<close>: no later \<open>close\<close> or reset releases it.
\<close>

lemma memalloc_entry_leak:
  assumes "mem_inv s" and "ms_kzalloc s = []" and "me_dma_alloc env (ms_dma_live s) (PAGE_ALIGN n) = (p, 0)"
  shows "\<exists>s1 s2. AllocMemory env s n = (- ENOMEM, 0, s1) \<and> ms_heap_list s1 = ms_heap_list s \<and>
      memalloc_free_buffers s1 = Done s2 \<and> ms_heap_list s2 = [] \<and>
      ms_entries_live s2 = Suc (ms_entries_live s - length (ms_heap_list s))"
proof -
  let ?s = "s\<lparr>ms_entries_live := ms_entries_live s + 1\<rparr>"
  have al: "AllocMemory env s n = (- ENOMEM, 0, ?s)" using assms by (simp add: AllocMemory_def Let_def)
  have "mem_inv ?s" "length (ms_heap_list s) \<le> ms_entries_live s" using assms(1) by (auto simp: mem_inv_def)
  with memalloc_free_buffers_all [of ?s] al show ?thesis by (auto simp: Suc_diff_le)
qed

end
