(* ===== verification/Shw_Env.thy ===== *)
theory Shw_Env
  imports Kernel_Env
begin

text \<open>
  What the drivers on top of the security hardware API (\<open>fsl_shw\<close>) share: the error codes and the
  user-memory copies of \<^verbatim>\<open>portable_os.h\<close>, and the state of such a driver. The state holds the
  private pointer of each open file (a user context, NULL being \<open>None\<close>), the contexts allocated and
  those registered with the API, the number of live kernel buffers, the schedule of the allocator, the
  user memory and the device state.
\<close>

section \<open>Error codes and state\<close>

datatype os_error_code = OS_ERROR_OK_S | OS_ERROR_FAIL_S | OS_ERROR_NO_MEMORY_S | OS_ERROR_BAD_ADDRESS_S

record 'd shw_state =
  rs_private :: "nat \<Rightarrow> nat option"
  rs_ctx_live :: "nat list"
  rs_ctx_reg :: "nat list"
  rs_next :: nat
  rs_bufs_live :: nat
  rs_alloc :: "bool list"
  rs_user :: umem
  rs_dev :: 'd

definition next_alloc :: "'d shw_state \<Rightarrow> bool \<times> 'd shw_state" where
  "next_alloc s = ((case rs_alloc s of [] \<Rightarrow> True | b # _ \<Rightarrow> b), s\<lparr>rs_alloc := tl (rs_alloc s)\<rparr>)"

definition os_copy_from_user :: "umem \<Rightarrow> u32 \<Rightarrow> nat \<Rightarrow> os_error_code \<times> u8 list" where
  "os_copy_from_user u a n =
     (let (miss, bs) = copy_from_user u a n in (if miss = 0 then OS_ERROR_OK_S else OS_ERROR_BAD_ADDRESS_S, bs))"

definition os_copy_to_user :: "umem \<Rightarrow> u32 \<Rightarrow> u8 list \<Rightarrow> os_error_code \<times> umem" where
  "os_copy_to_user u a bs =
     (let (miss, u') = copy_to_user u a bs in (if miss = 0 then OS_ERROR_OK_S else OS_ERROR_BAD_ADDRESS_S, u'))"

section \<open>Invariant\<close>

text \<open>
  A file's private pointer is a live, registered context that no other file has, and no kernel
  buffer outlives a call.
\<close>

definition shw_inv :: "'d shw_state \<Rightarrow> bool" where
  "shw_inv s \<longleftrightarrow>
     (\<forall>f c. rs_private s f = Some c \<longrightarrow> c \<in> set (rs_ctx_live s) \<and> c \<in> set (rs_ctx_reg s)) \<and>
     (\<forall>f g c. rs_private s f = Some c \<and> rs_private s g = Some c \<longrightarrow> f = g) \<and>
     distinct (rs_ctx_live s) \<and> distinct (rs_ctx_reg s) \<and>
     (\<forall>c \<in> set (rs_ctx_live s) \<union> set (rs_ctx_reg s). c < rs_next s) \<and> rs_bufs_live s = 0"

definition alloc_next :: "'d shw_state \<Rightarrow> bool" where
  "alloc_next s = fst (next_alloc s)"

lemma shw_inv_frame [simp]:
  "shw_inv (s\<lparr>rs_dev := d\<rparr>) = shw_inv s" "shw_inv (s\<lparr>rs_user := u\<rparr>) = shw_inv s"
  "shw_inv (s\<lparr>rs_alloc := al\<rparr>) = shw_inv s" "shw_inv (snd (next_alloc s)) = shw_inv s"
  by (simp_all add: shw_inv_def next_alloc_def)

lemma shw_inv_no_bufs:
  "shw_inv s \<Longrightarrow> rs_bufs_live s = 0" "shw_inv s \<Longrightarrow> shw_inv (s\<lparr>rs_bufs_live := 0\<rparr>)"
  by (simp_all add: shw_inv_def)

lemma next_alloc_sel [simp]:
  "rs_private (snd (next_alloc s)) = rs_private s" "rs_ctx_live (snd (next_alloc s)) = rs_ctx_live s"
  "rs_ctx_reg (snd (next_alloc s)) = rs_ctx_reg s" "rs_next (snd (next_alloc s)) = rs_next s"
  "rs_bufs_live (snd (next_alloc s)) = rs_bufs_live s" "rs_user (snd (next_alloc s)) = rs_user s"
  "rs_dev (snd (next_alloc s)) = rs_dev s"
  by (simp_all add: next_alloc_def)

end
