(* ===== verification/Rng_Driver.thy ===== *)
theory Rng_Driver
  imports Shw_Env
begin

unbundle bit_operations_syntax

text \<open>
  The RNG test driver (\<^verbatim>\<open>src/module_test/rng_test_driver.c\<close>). The state holds the private
  pointer of each open file (a user context, NULL being \<open>None\<close>), the contexts allocated and those
  registered with the security hardware API, the number of live kernel buffers and the user memory.
  The security hardware API (\<open>fsl_shw_*\<close>, \<open>rng_read_register\<close>, \<open>rng_write_register\<close>) and
  its return codes are parameters, with a device state of any type; whether an allocation succeeds
  is a schedule, and what fresh memory contains is a parameter. A call into the API with a dead
  context or with a buffer smaller than the size it is told is undefined behaviour.
\<close>

section \<open>State and environment\<close>

record 'd rng_env =
  re_OK :: int
  re_register_user :: "'d \<Rightarrow> nat \<Rightarrow> bool \<times> 'd"
  re_deregister_user :: "'d \<Rightarrow> nat \<Rightarrow> 'd"
  re_get_random :: "'d \<Rightarrow> nat \<Rightarrow> u32 \<Rightarrow> int \<times> u8 list \<times> 'd"
  re_add_entropy :: "'d \<Rightarrow> nat \<Rightarrow> u8 list \<Rightarrow> int \<times> 'd"
  re_read_register :: "'d \<Rightarrow> u32 \<Rightarrow> u32 \<Rightarrow> int \<times> u32 \<times> 'd"
  re_write_register :: "'d \<Rightarrow> u32 \<Rightarrow> u32 \<Rightarrow> int \<times> 'd"
  re_uninit :: "nat \<Rightarrow> u8 list"

section \<open>Opening and closing\<close>

definition rng_test_open :: "'d rng_env \<Rightarrow> 'd shw_state \<Rightarrow> nat \<Rightarrow> os_error_code \<times> 'd shw_state" where
  "rng_test_open env s f =
     (let (ok, s1) = next_alloc s
      in if \<not> ok then (OS_ERROR_NO_MEMORY_S, s1)
         else
           (let user_ctx = rs_next s1;
                s2 = s1\<lparr>rs_next := Suc user_ctx, rs_ctx_live := user_ctx # rs_ctx_live s1\<rparr>;
                (ret, dev) = re_register_user env (rs_dev s2) user_ctx
            in if \<not> ret then (OS_ERROR_FAIL_S, s2\<lparr>rs_dev := dev\<rparr>)
               else (OS_ERROR_OK_S, s2\<lparr>rs_dev := dev, rs_ctx_reg := user_ctx # rs_ctx_reg s2,
                                       rs_private := (rs_private s2)(f := Some user_ctx)\<rparr>)))"

definition rng_test_release :: "'d rng_env \<Rightarrow> 'd shw_state \<Rightarrow> nat \<Rightarrow> (os_error_code \<times> 'd shw_state) run" where
  "rng_test_release env s f =
     (case rs_private s f of
        None \<Rightarrow> Done (OS_ERROR_OK_S, s)
      | Some user_ctx \<Rightarrow>
          (if user_ctx \<notin> set (rs_ctx_live s) \<or> user_ctx \<notin> set (rs_ctx_reg s) then Undef
           else Done (OS_ERROR_OK_S,
                  s\<lparr>rs_dev := re_deregister_user env (rs_dev s) user_ctx,
                    rs_ctx_reg := remove1 user_ctx (rs_ctx_reg s),
                    rs_ctx_live := remove1 user_ctx (rs_ctx_live s),
                    rs_private := (rs_private s)(f := None)\<rparr>)))"

section \<open>The ioctl commands\<close>

text \<open>
  \<open>rng_test_get_random_t\<close> has the fields \<open>count_bytes\<close>, \<open>random\<close>, \<open>isr_flag\<close> and
  \<open>function_return_code\<close>. The buffer is \<open>count_bytes\<close> long (empty when the allocation failed)
  but the request is for \<open>4 * count_words\<close> bytes; both are unsigned 32-bit computations.
\<close>

definition rng_count_words :: "u32 \<Rightarrow> u32" where
  "rng_count_words count_bytes = (count_bytes + 4 - 1) div 4"

definition rng_test_get_random ::
    "'d rng_env \<Rightarrow> 'd shw_state \<Rightarrow> nat \<Rightarrow> u32 \<Rightarrow> (os_error_code \<times> 'd shw_state) run" where
  "rng_test_get_random env s user_ctx rng_data =
     (let (code0, get_struct) = os_copy_from_user (rs_user s) rng_data 16
      in if code0 \<noteq> OS_ERROR_OK_S then Done (OS_ERROR_BAD_ADDRESS_S, s)
         else
           (let (ok, s1) = next_alloc s;
                count = unat (fld get_struct 0);
                data_buffer = (if ok then fresh_buf (re_uninit env) count else []);
                s2 = (if ok then s1\<lparr>rs_bufs_live := Suc (rs_bufs_live s1)\<rparr> else s1);
                n = 4 * rng_count_words (fld get_struct 0)
            in if user_ctx \<notin> set (rs_ctx_live s) \<or> length data_buffer < unat n then Undef
               else
                 (let (rng_return, bs, dev) = re_get_random env (rs_dev s2) user_ctx n;
                      data_buffer' = take (unat n) bs @ drop (length (take (unat n) bs)) data_buffer;
                      get_struct' = set_fld get_struct 3 (word_of_int rng_return);
                      (code1, u1) = os_copy_to_user (rs_user s2) rng_data get_struct'
                  in if rng_return = re_OK env \<and> length data_buffer' < count then Undef
                     else
                       (let (code2, u2) = (if rng_return = re_OK env
                                           then os_copy_to_user u1 (fld get_struct' 1) (take count data_buffer')
                                           else (code1, u1));
                            s3 = s2\<lparr>rs_dev := dev, rs_user := u2\<rparr>
                        in Done (code2, if ok then s3\<lparr>rs_bufs_live := rs_bufs_live s3 - 1\<rparr> else s3)))))"

text \<open>
  \<open>rng_test_add_entropy_t\<close>: \<open>function_return_code\<close>, \<open>count_bytes\<close>, \<open>entropy\<close>. The
  buffer handed to the driver is never filled from \<open>entropy\<close>.
\<close>

definition rng_test_add_entropy ::
    "'d rng_env \<Rightarrow> 'd shw_state \<Rightarrow> nat \<Rightarrow> u32 \<Rightarrow> (os_error_code \<times> 'd shw_state) run" where
  "rng_test_add_entropy env s user_ctx rng_data =
     (let (code, add_struct) = os_copy_from_user (rs_user s) rng_data 12
      in if code \<noteq> OS_ERROR_OK_S then Done (code, s)
         else
           (let (ok, s1) = next_alloc s; count = unat (fld add_struct 1)
            in if \<not> ok then Done (OS_ERROR_NO_MEMORY_S, s1)
               else if user_ctx \<notin> set (rs_ctx_live s1) then Undef
               else
                 (let entropy = fresh_buf (re_uninit env) count;
                      s2 = s1\<lparr>rs_bufs_live := Suc (rs_bufs_live s1)\<rparr>;
                      (ret, dev) = re_add_entropy env (rs_dev s2) user_ctx entropy;
                      add_struct' = set_fld add_struct 0 (word_of_int ret);
                      (code', u) = os_copy_to_user (rs_user s2) rng_data add_struct';
                      s3 = s2\<lparr>rs_dev := dev, rs_user := u\<rparr>
                  in Done (code', s3\<lparr>rs_bufs_live := rs_bufs_live s3 - 1\<rparr>))))"

text \<open>\<open>rng_test_reg_access_t\<close>: \<open>reg_offset\<close>, \<open>reg_data\<close>, \<open>function_return_code\<close>.\<close>

definition rng_test_read_register :: "'d rng_env \<Rightarrow> 'd shw_state \<Rightarrow> u32 \<Rightarrow> os_error_code \<times> 'd shw_state" where
  "rng_test_read_register env s rng_data =
     (let (code, reg_struct) = os_copy_from_user (rs_user s) rng_data 12
      in if code \<noteq> OS_ERROR_OK_S then (code, s)
         else
           (let (rng_return, value, dev) = re_read_register env (rs_dev s) (fld reg_struct 0) (fld reg_struct 1);
                reg_struct' = set_fld (set_fld reg_struct 1 value) 2 (word_of_int rng_return);
                (code', u) = os_copy_to_user (rs_user s) rng_data reg_struct'
            in (code', s\<lparr>rs_dev := dev, rs_user := u\<rparr>)))"

definition rng_test_write_register :: "'d rng_env \<Rightarrow> 'd shw_state \<Rightarrow> u32 \<Rightarrow> os_error_code \<times> 'd shw_state" where
  "rng_test_write_register env s rng_data =
     (let (code, reg_struct) = os_copy_from_user (rs_user s) rng_data 12
      in if code \<noteq> OS_ERROR_OK_S then (code, s)
         else
           (let (rng_return, dev) = re_write_register env (rs_dev s) (fld reg_struct 0) (fld reg_struct 1);
                reg_struct' = set_fld reg_struct 2 (word_of_int rng_return);
                (code', u) = os_copy_to_user (rs_user s) rng_data reg_struct'
            in (code', s\<lparr>rs_dev := dev, rs_user := u\<rparr>)))"

definition RNG_TEST_READ_REG :: u32 where "RNG_TEST_READ_REG = ioc (IOC_READ OR IOC_WRITE) 0x72 1 12"
definition RNG_TEST_WRITE_REG :: u32 where "RNG_TEST_WRITE_REG = ioc (IOC_READ OR IOC_WRITE) 0x72 2 12"
definition RNG_TEST_ADD_ENTROPY :: u32 where "RNG_TEST_ADD_ENTROPY = ioc (IOC_READ OR IOC_WRITE) 0x72 3 12"
definition RNG_TEST_GET_RANDOM :: u32 where "RNG_TEST_GET_RANDOM = ioc (IOC_READ OR IOC_WRITE) 0x72 4 16"

lemmas rng_cmd_defs = RNG_TEST_READ_REG_def RNG_TEST_WRITE_REG_def RNG_TEST_ADD_ENTROPY_def RNG_TEST_GET_RANDOM_def

definition rng_test_ioctl ::
    "'d rng_env \<Rightarrow> 'd shw_state \<Rightarrow> nat \<Rightarrow> u32 \<Rightarrow> u32 \<Rightarrow> (os_error_code \<times> 'd shw_state) run" where
  "rng_test_ioctl env s f cmd arg =
     (if cmd = RNG_TEST_GET_RANDOM then
        (case rs_private s f of None \<Rightarrow> Done (OS_ERROR_FAIL_S, s)
         | Some user_ctx \<Rightarrow> rng_test_get_random env s user_ctx arg)
      else if cmd = RNG_TEST_ADD_ENTROPY then
        (case rs_private s f of None \<Rightarrow> Done (OS_ERROR_FAIL_S, s)
         | Some user_ctx \<Rightarrow> rng_test_add_entropy env s user_ctx arg)
      else if cmd = RNG_TEST_READ_REG then Done (rng_test_read_register env s arg)
      else if cmd = RNG_TEST_WRITE_REG then Done (rng_test_write_register env s arg)
      else Done (OS_ERROR_FAIL_S, s))"

datatype rng_call = ROpen nat | RIoctl nat u32 u32 | RRelease nat

fun rng_step :: "'d rng_env \<Rightarrow> 'd shw_state \<Rightarrow> rng_call \<Rightarrow> (os_error_code \<times> 'd shw_state) run" where
  "rng_step env s (ROpen f) = Done (rng_test_open env s f)"
| "rng_step env s (RIoctl f cmd arg) = rng_test_ioctl env s f cmd arg"
| "rng_step env s (RRelease f) = rng_test_release env s f"

section \<open>Loading and unloading\<close>

text \<open>
  The argument is what \<open>os_driver_complete_registration\<close> returns; \<open>dr_chrdev\<close> says whether the
  registration is in place, the flag is \<open>rng_device_registered\<close>.
\<close>

definition rng_test_setup_user_driver_interaction :: "os_error_code \<Rightarrow> bool \<times> devreg \<Rightarrow> os_error_code \<times> bool \<times> devreg" where
  "rng_test_setup_user_driver_interaction code st =
     (case st of (registered, r) \<Rightarrow>
        if code \<noteq> OS_ERROR_OK_S then (code, registered, r) else (code, True, r\<lparr>dr_chrdev := True\<rparr>))"

definition rng_test_init :: "os_error_code \<Rightarrow> bool \<times> devreg \<Rightarrow> os_error_code \<times> bool \<times> devreg" where
  "rng_test_init code st = rng_test_setup_user_driver_interaction code st"

definition rng_test_cleanup :: "os_error_code \<Rightarrow> bool \<times> devreg \<Rightarrow> os_error_code \<times> bool \<times> devreg" where
  "rng_test_cleanup remove_code st =
     (case st of (registered, r) \<Rightarrow>
        if registered then (remove_code, False, r\<lparr>dr_chrdev := False\<rparr>) else (OS_ERROR_OK_S, registered, r))"


section \<open>Invariant\<close>

text \<open>
  Admissible calls: a file is opened once, and a request for random bytes asks for a whole number
  of words and gets its buffer.
\<close>

fun rng_adm :: "'d shw_state \<Rightarrow> rng_call \<Rightarrow> bool" where
  "rng_adm s (ROpen f) = (rs_private s f = None)"
| "rng_adm s (RIoctl f cmd arg) =
     (cmd = RNG_TEST_GET_RANDOM \<longrightarrow>
        4 dvd unat (fld (snd (os_copy_from_user (rs_user s) arg 16)) 0) \<and> alloc_next s)"
| "rng_adm s (RRelease f) = True"

lemma rng_count_words_unat:
  assumes "unat w \<le> 2 ^ 32 - 4"
  shows "unat (4 * rng_count_words w) = 4 * ((unat w + 3) div 4)"
proof -
  have "unat (w + 3) = unat w + 3"
    using assms by (simp add: unat_word_ariths take_bit_nat_eq_self)
  moreover have "w + 4 - 1 = w + 3" by simp
  moreover have "unat (4 :: u32) = 4" by simp
  ultimately have cw: "unat (rng_count_words w) = (unat w + 3) div 4"
    unfolding rng_count_words_def unat_div by metis
  have "4 * ((unat w + 3) div 4) \<le> unat w + 3" by simp
  also have "\<dots> < 2 ^ 32" using assms by simp
  finally have "4 * ((unat w + 3) div 4) < 2 ^ 32" .
  then show ?thesis using cw by (simp add: unat_word_ariths take_bit_nat_eq_self)
qed

lemma rng_count_words_dvd:
  assumes "4 dvd unat w"
  shows "unat (4 * rng_count_words w) = unat w"
proof -
  have "unat w < 2 ^ 32" by (rule unat_u32_less)
  with assms have "unat w \<le> 2 ^ 32 - 4" by (auto elim!: dvdE)
  from rng_count_words_unat [OF this] assms show ?thesis by (auto elim!: dvdE)
qed

lemma rng_open_inv:
  assumes "shw_inv s" and "rs_private s f = None"
  shows "shw_inv (snd (rng_test_open env s f))"
  using assms by (auto simp: rng_test_open_def shw_inv_def case_prod_beta Let_def less_SucI)

lemma rng_release_inv:
  assumes "shw_inv s"
  shows "\<exists>s'. rng_test_release env s f = Done (OS_ERROR_OK_S, s') \<and> shw_inv s'"
proof (cases "rs_private s f")
  case None
  then show ?thesis using assms by (simp add: rng_test_release_def)
next
  case (Some c)
  then show ?thesis using assms
    by (auto simp: rng_test_release_def shw_inv_def)
qed

text \<open>The whole effect of a request that is a multiple of four bytes.\<close>

lemma rng_get_random_words:
  assumes inv: "shw_inv s" "rs_private s f = Some c" and rd: "readable (rs_user s) arg 16"
    and al: "alloc_next s" and st: "st = uread (rs_user s) arg 16" and dvd: "4 dvd unat (fld st 0)"
    and gr: "re_get_random env (rs_dev s) c (4 * rng_count_words (fld st 0)) = (ret, bs, dev)"
    and c1: "os_copy_to_user (rs_user s) arg (set_fld st 3 (word_of_int ret)) = (code1, u1)"
    and buf: "buf = take (unat (fld st 0)) bs @ drop (length (take (unat (fld st 0)) bs)) (fresh_buf (re_uninit env) (unat (fld st 0)))"
    and c2: "(if ret = re_OK env then os_copy_to_user u1 (fld st 1) buf else (code1, u1)) = (code2, u2)"
  shows "rng_test_get_random env s c arg = Done (code2, (snd (next_alloc s))\<lparr>rs_dev := dev, rs_user := u2\<rparr>)"
proof -
  obtain s1 where na: "next_alloc s = (True, s1)" using al by (cases "next_alloc s") (auto simp: alloc_next_def)
  have s1: "rs_dev s1 = rs_dev s" "rs_user s1 = rs_user s" "rs_bufs_live s1 = rs_bufs_live s"
    using next_alloc_sel [of s] na by auto
  have cp: "os_copy_from_user (rs_user s) arg 16 = (OS_ERROR_OK_S, st)"
    using rd st by (simp add: os_copy_from_user_def copy_from_user_ok)
  have n: "unat (4 * rng_count_words (fld st 0)) = unat (fld st 0)" by (rule rng_count_words_dvd [OF dvd])
  have live: "c \<in> set (rs_ctx_live s)" and b0: "rs_bufs_live s = 0" using inv by (auto simp: shw_inv_def)
  have f1: "fld (set_fld st 3 w) 1 = fld st 1" for w by (simp add: fld_set_fld_other st)
  have len: "length buf = unat (fld st 0)" by (simp add: buf)
  have same: "s1\<lparr>rs_dev := dev, rs_user := u2, rs_bufs_live := 0\<rparr> = s1\<lparr>rs_dev := dev, rs_user := u2\<rparr>"
    by (rule shw_state.equality) (simp_all add: s1 b0)
  have buf': "take (unat (fld st 0)) bs @ drop (min (length bs) (unat (fld st 0))) (fresh_buf (re_uninit env) (unat (fld st 0))) = buf"
    by (simp add: buf)
  show ?thesis
    unfolding rng_test_get_random_def cp na Let_def prod.case if_True snd_conv
    using live b0 c1 c2 same
    by (cases "ret = re_OK env") (simp_all add: len n s1 gr f1 buf' del: One_nat_def)
qed

lemma rng_get_random_inv:
  assumes inv: "shw_inv s" "rs_private s f = Some c"
    and adm: "rng_adm s (RIoctl f RNG_TEST_GET_RANDOM arg)"
  shows "\<exists>r s'. rng_test_get_random env s c arg = Done (r, s') \<and> shw_inv s'"
proof (cases "readable (rs_user s) arg 16")
  case False
  then have "fst (os_copy_from_user (rs_user s) arg 16) = OS_ERROR_BAD_ADDRESS_S"
    by (auto simp: os_copy_from_user_def case_prod_beta copy_from_user_0_iff)
  then show ?thesis using inv by (simp add: rng_test_get_random_def case_prod_beta)
next
  case True
  let ?st = "uread (rs_user s) arg 16"
  have dvd: "4 dvd unat (fld ?st 0)" and al: "alloc_next s"
    using adm True by (auto simp: os_copy_from_user_def copy_from_user_ok)
  obtain ret bs dev where gr: "re_get_random env (rs_dev s) c (4 * rng_count_words (fld ?st 0)) = (ret, bs, dev)"
    by (metis prod_cases3)
  from rng_get_random_words [OF inv True al refl dvd gr prod.collapse [symmetric] refl prod.collapse [symmetric]] inv(1)
  show ?thesis by auto
qed

lemma rng_add_entropy_inv:
  assumes "shw_inv s" "rs_private s f = Some c"
  shows "\<exists>r s'. rng_test_add_entropy env s c arg = Done (r, s') \<and> shw_inv s'"
proof -
  have "c \<in> set (rs_ctx_live s)" using assms by (auto simp: shw_inv_def)
  moreover have "rs_bufs_live s = 0" by (rule shw_inv_no_bufs [OF assms(1)])
  ultimately show ?thesis using assms by (simp add: rng_test_add_entropy_def case_prod_beta Let_def shw_inv_no_bufs)
qed

lemma rng_registers_inv:
  assumes "shw_inv s"
  shows "shw_inv (snd (rng_test_read_register env s arg))" "shw_inv (snd (rng_test_write_register env s arg))"
  using assms by (simp_all add: rng_test_read_register_def rng_test_write_register_def case_prod_beta Let_def)

lemma rng_ioctl_inv:
  assumes inv: "shw_inv s" and adm: "rng_adm s (RIoctl f cmd arg)"
  shows "\<exists>r s'. rng_test_ioctl env s f cmd arg = Done (r, s') \<and> shw_inv s'"
proof -
  have regs: "\<exists>r s'. rng_test_read_register env s arg = (r, s') \<and> shw_inv s'"
      "\<exists>r s'. rng_test_write_register env s arg = (r, s') \<and> shw_inv s'"
    using rng_registers_inv [OF inv, of env arg] by (metis prod.collapse)+
  consider (get) "cmd = RNG_TEST_GET_RANDOM" | (add) "cmd = RNG_TEST_ADD_ENTROPY" "cmd \<noteq> RNG_TEST_GET_RANDOM"
    | (other) "cmd \<noteq> RNG_TEST_GET_RANDOM" "cmd \<noteq> RNG_TEST_ADD_ENTROPY" by blast
  then show ?thesis
  proof cases
    case get
    then show ?thesis using rng_get_random_inv [OF inv] adm inv
      by (cases "rs_private s f") (auto simp: rng_test_ioctl_def)
  next
    case add
    then show ?thesis using rng_add_entropy_inv [OF inv] inv
      by (cases "rs_private s f") (auto simp: rng_test_ioctl_def)
  next
    case other
    then show ?thesis using regs inv by (auto simp: rng_test_ioctl_def)
  qed
qed

interpretation rngd: char_driver "rng_step env" rng_adm shw_inv for env :: "'d rng_env"
proof
  fix s :: "'d shw_state" and c
  assume inv: "shw_inv s" and adm: "rng_adm s c"
  show "\<exists>r s'. rng_step env s c = Done (r, s') \<and> shw_inv s'"
  proof (cases c)
    case (ROpen f)
    then show ?thesis using rng_open_inv [OF inv] adm by (cases "rng_test_open env s f") (auto simp: prod_eq_iff)
  next
    case (RIoctl f cmd arg)
    then show ?thesis using rng_ioctl_inv [OF inv, of f cmd arg] adm by simp
  next
    case (RRelease f)
    then show ?thesis using rng_release_inv [OF inv, of env f] by auto
  qed
qed


section \<open>Properties\<close>

text \<open>A device for the witnesses: every call succeeds, random bytes count up from one.\<close>

definition demo_env :: "unit rng_env" where
  "demo_env = \<lparr>re_OK = 0, re_register_user = (\<lambda>d c. (True, d)), re_deregister_user = (\<lambda>d c. d),
     re_get_random = (\<lambda>d c n. (0, map of_nat [1..<unat n + 1], d)), re_add_entropy = (\<lambda>d c bs. (0, d)),
     re_read_register = (\<lambda>d off old. (0, off + 1, d)), re_write_register = (\<lambda>d off v. (0, d)),
     re_uninit = (\<lambda>n. replicate n 0xAA)\<rparr>"

text \<open>File 0 is open with context 0; the request structure at 0x100 asks for \<open>n\<close> bytes at 0x200.\<close>

definition demo_user :: "u32 \<Rightarrow> umem" where
  "demo_user n = uwrite \<lparr>um_byte = (\<lambda>_. 0), um_rd = (\<lambda>_. True), um_wr = (\<lambda>_. True)\<rparr>
     0x100 (le32 n @ le32 0x200 @ le32 0 @ le32 0)"

definition demo_state :: "u32 \<Rightarrow> unit shw_state" where
  "demo_state n = \<lparr>rs_private = (\<lambda>f. if f = 0 then Some 0 else None), rs_ctx_live = [0], rs_ctx_reg = [0],
     rs_next = 1, rs_bufs_live = 0, rs_alloc = [], rs_user = demo_user n, rs_dev = ()\<rparr>"

lemma demo_state_inv: "shw_inv (demo_state n)"
  by (auto simp: shw_inv_def demo_state_def)

lemma demo_read: "uread (demo_user n) 0x100 16 = le32 n @ le32 0x200 @ le32 0 @ le32 0"
  using uread_uwrite [of "le32 n @ le32 0x200 @ le32 0 @ le32 0"] by (simp add: demo_user_def)

lemma demo_access: "readable (demo_user n) a k" "writable (demo_user n) a k"
  by (simp_all add: readable_def writable_def demo_user_def run_len_all)

text \<open>
  C16: The RNG test driver keeps its contexts in order under every sequence of admissible calls:
  no call uses, deregisters or frees a context that is not alive and registered, two files never
  share one, and no kernel buffer outlives the call that allocated it. (Admissible: a file is
  opened once, and \<open>RNG_TEST_GET_RANDOM\<close> asks for whole words and its allocation succeeds.)
\<close>

theorem rng_driver_safe:
  assumes "shw_inv s" and "adm_calls (rng_step env) rng_adm s cs"
  shows "\<exists>rs s'. run_calls (rng_step env) s cs = Done (rs, s') \<and> length rs = length cs \<and> shw_inv s'"
  by (rule rngd.run_calls_ok [OF assms])

theorem rng_driver_safe_witness:
  "\<exists>rs s'. run_calls (rng_step demo_env) (demo_state 8) [ROpen 1, RRelease 0] = Done (rs, s') \<and> shw_inv s'"
proof -
  have "adm_calls (rng_step demo_env) rng_adm (demo_state 8) [ROpen 1, RRelease 0]"
    by (simp add: demo_state_def split: run.splits)
  from rng_driver_safe [OF demo_state_inv this] show ?thesis by blast
qed

text \<open>
  C17: \<open>RNG_TEST_GET_RANDOM\<close> delivers: for a whole number of words, when the API returns
  success with that many bytes, the caller's buffer holds exactly these bytes and the result is OK.
\<close>

theorem rng_get_random_delivers:
  assumes "shw_inv s" and "rs_private s f = Some c" and "readable (rs_user s) arg 16" and "alloc_next s"
    and "st = uread (rs_user s) arg 16" and "4 dvd unat (fld st 0)"
    and "re_get_random env (rs_dev s) c (4 * rng_count_words (fld st 0)) = (re_OK env, bs, dev)"
    and "length bs = unat (fld st 0)" and "writable (rs_user s) arg 16" and "writable (rs_user s) (fld st 1) (length bs)"
  shows "\<exists>s'. rng_test_ioctl env s f RNG_TEST_GET_RANDOM arg = Done (OS_ERROR_OK_S, s') \<and>
      uread (rs_user s') (fld st 1) (length bs) = bs \<and> rs_dev s' = dev"
proof -
  let ?u1 = "uwrite (rs_user s) arg (set_fld st 3 (word_of_int (re_OK env)))"
  have c1: "os_copy_to_user (rs_user s) arg (set_fld st 3 (word_of_int (re_OK env))) = (OS_ERROR_OK_S, ?u1)"
    using assms(5,9) by (simp add: os_copy_to_user_def copy_to_user_ok)
  have buf: "bs = take (unat (fld st 0)) bs @ drop (length (take (unat (fld st 0)) bs)) (fresh_buf (re_uninit env) (unat (fld st 0)))"
    using assms(8) by simp
  have c2: "(if re_OK env = re_OK env then os_copy_to_user ?u1 (fld st 1) bs else (OS_ERROR_OK_S, ?u1)) =
      (OS_ERROR_OK_S, uwrite ?u1 (fld st 1) bs)"
    using assms(10) by (simp add: os_copy_to_user_def copy_to_user_ok)
  have le: "length bs \<le> 2 ^ 32" using unat_u32_less [of "fld st 0"] assms(8) by simp
  from rng_get_random_words [OF assms(1-7) c1 buf c2] show ?thesis
    using assms(2) uread_uwrite [OF le] by (simp add: rng_test_ioctl_def)
qed

theorem rng_get_random_delivers_witness:
  "\<exists>s'. rng_test_ioctl demo_env (demo_state 8) 0 RNG_TEST_GET_RANDOM 0x100 = Done (OS_ERROR_OK_S, s') \<and>
      uread (rs_user s') 0x200 8 = [1, 2, 3, 4, 5, 6, 7, 8]"
proof -
  have "unat (4 * rng_count_words 8) = 8" by (rule rng_count_words_dvd [of 8, simplified])
  then have gr: "re_get_random demo_env () 0 (4 * rng_count_words 8) = (re_OK demo_env, [1, 2, 3, 4, 5, 6, 7, 8], ())"
    by (simp add: demo_env_def upt_conv_Cons)
  show ?thesis
    using rng_get_random_delivers [of "demo_state 8" 0 0 "0x100" _ demo_env "[1, 2, 3, 4, 5, 6, 7, 8]" "()"] gr
    by (simp add: demo_state_inv) (simp add: demo_state_def demo_read demo_access alloc_next_def next_alloc_def)
qed

text \<open>
  C18: A request whose size is not a multiple of four overruns the kernel buffer: it holds
  \<open>count_bytes\<close> bytes, but the API is asked for the size rounded up to whole words.
\<close>

theorem rng_get_random_overrun:
  assumes "rs_private s f = Some c" and "readable (rs_user s) arg 16" and "alloc_next s"
    and "\<not> 4 dvd unat (fld (uread (rs_user s) arg 16) 0)"
    and "unat (fld (uread (rs_user s) arg 16) 0) \<le> 2 ^ 32 - 4"
  shows "rng_test_ioctl env s f RNG_TEST_GET_RANDOM arg = Undef"
proof -
  let ?st = "uread (rs_user s) arg 16"
  obtain s1 where na: "next_alloc s = (True, s1)" using assms(3) by (cases "next_alloc s") (auto simp: alloc_next_def)
  have cp: "os_copy_from_user (rs_user s) arg 16 = (OS_ERROR_OK_S, ?st)"
    using assms(2) by (simp add: os_copy_from_user_def copy_from_user_ok)
  have "unat (fld ?st 0) < unat (4 * rng_count_words (fld ?st 0))"
    unfolding rng_count_words_unat [OF assms(5)] using assms(4) by presburger
  then show ?thesis
    using assms(1) by (simp add: rng_test_ioctl_def rng_test_get_random_def cp na Let_def)
qed

theorem rng_get_random_overrun_witness:
  "rng_test_ioctl demo_env (demo_state 5) 0 RNG_TEST_GET_RANDOM 0x100 = Undef"
  by (rule rng_get_random_overrun)
     (simp_all add: demo_state_def demo_read demo_access alloc_next_def next_alloc_def)

text \<open>
  Register access passes through unchanged: the structure the caller finds after
  \<open>RNG_TEST_READ_REG\<close> holds its own offset, the value and the return code of the RNG driver.
\<close>

lemma rng_read_register_roundtrip:
  assumes "readable (rs_user s) arg 12" and "writable (rs_user s) arg 12"
    and "st = uread (rs_user s) arg 12" and "re_read_register env (rs_dev s) (fld st 0) (fld st 1) = (ret, v, dev)"
  shows "\<exists>s' st'. rng_test_ioctl env s f RNG_TEST_READ_REG arg = Done (OS_ERROR_OK_S, s') \<and>
      st' = uread (rs_user s') arg 12 \<and> fld st' 0 = fld st 0 \<and> fld st' 1 = v \<and>
      fld st' 2 = word_of_int ret \<and> rs_dev s' = dev"
proof -
  let ?st = "set_fld (set_fld st 1 v) 2 (word_of_int ret)"
  have len: "length st = 12" "length ?st = 12" using assms(3) by simp_all
  have cp: "os_copy_from_user (rs_user s) arg 12 = (OS_ERROR_OK_S, st)"
    "os_copy_to_user (rs_user s) arg ?st = (OS_ERROR_OK_S, uwrite (rs_user s) arg ?st)"
    using assms(1-3) len by (simp_all add: os_copy_from_user_def os_copy_to_user_def copy_from_user_ok copy_to_user_ok)
  have rd: "uread (uwrite (rs_user s) arg ?st) arg 12 = ?st"
    using uread_uwrite [of ?st "rs_user s" arg] len by simp
  have ne: "RNG_TEST_READ_REG \<noteq> RNG_TEST_GET_RANDOM" "RNG_TEST_READ_REG \<noteq> RNG_TEST_ADD_ENTROPY"
    by (simp_all add: rng_cmd_defs ioc_defs)
  show ?thesis
    using len by (simp add: rng_test_ioctl_def ne rng_test_read_register_def cp assms(4) rd fld_set_fld_other del: One_nat_def)
qed

text \<open>
  \<open>RNG_TEST_ADD_ENTROPY\<close> does not add the caller's entropy: the bytes handed to the RNG are
  the uninitialised contents of the fresh kernel buffer, whatever the user memory holds.
\<close>

lemma rng_add_entropy_ignores_user:
  assumes "shw_inv s" and "rs_private s f = Some c" and "readable (rs_user s) arg 12" and "alloc_next s"
  shows "\<exists>code s'. rng_test_ioctl env s f RNG_TEST_ADD_ENTROPY arg = Done (code, s') \<and>
      rs_dev s' = snd (re_add_entropy env (rs_dev s) c (fresh_buf (re_uninit env) (unat (fld (uread (rs_user s) arg 12) 1))))"
proof -
  obtain s1 where na: "next_alloc s = (True, s1)" using assms(4) by (cases "next_alloc s") (auto simp: alloc_next_def)
  have s1: "rs_dev s1 = rs_dev s" "c \<in> set (rs_ctx_live s1)"
    using next_alloc_sel [of s] na assms(1,2) by (auto simp: shw_inv_def)
  have cp: "os_copy_from_user (rs_user s) arg 12 = (OS_ERROR_OK_S, uread (rs_user s) arg 12)"
    using assms(3) by (simp add: os_copy_from_user_def copy_from_user_ok)
  have ne: "RNG_TEST_ADD_ENTROPY \<noteq> RNG_TEST_GET_RANDOM" by (simp add: rng_cmd_defs ioc_defs)
  show ?thesis
    using assms(2) s1 by (simp add: rng_test_ioctl_def ne rng_test_add_entropy_def cp na Let_def case_prod_beta)
qed

end
