(* ===== verification/Scc_Driver.thy ===== *)
theory Scc_Driver
  imports Kernel_Env
begin

unbundle bit_operations_syntax

text \<open>
  The SCC test driver (\<^verbatim>\<open>src/module_test/scc_test_driver.c\<close>). Every command copies a structure
  in, calls the real SCC driver and copies the structure out again. The real driver
  (\<open>scc_crypt\<close>, \<open>scc_alloc_slot\<close> and the others) is a parameter with a device state of any
  type, as are its constants; \<open>kmalloc\<close> succeeds or fails by schedule. The structures have the
  EABI layout: a 64-bit owner id is aligned to 8 bytes and pads the structure to a multiple of 8.
\<close>

section \<open>State and environment\<close>

record 'd scc_env =
  se_RET_OK :: int
  se_RET_INSUFFICIENT_SPACE :: int
  se_CBC_MODE :: u32
  se_config :: "u8 list"
  se_read_register :: "'d \<Rightarrow> u32 \<Rightarrow> u32 \<Rightarrow> int \<times> u32 \<times> 'd"
  se_write_register :: "'d \<Rightarrow> u32 \<Rightarrow> u32 \<Rightarrow> int \<times> 'd"
  se_crypt :: "'d \<Rightarrow> u8 list \<Rightarrow> (u32 \<times> u32) option \<Rightarrow> bool \<Rightarrow> u32 \<Rightarrow> u32 \<Rightarrow> u32 \<Rightarrow> int \<times> u8 list \<times> u32 \<times> 'd"
  se_set_sw_alarm :: "'d \<Rightarrow> 'd"
  se_zeroize_memories :: "'d \<Rightarrow> int \<times> 'd"
  se_alloc_slot :: "'d \<Rightarrow> u32 \<Rightarrow> u64 \<Rightarrow> u32 \<Rightarrow> int \<times> u32 \<times> 'd"
  se_dealloc_slot :: "'d \<Rightarrow> u64 \<Rightarrow> u32 \<Rightarrow> int \<times> 'd"
  se_load_slot :: "'d \<Rightarrow> u64 \<Rightarrow> u32 \<Rightarrow> u8 list \<Rightarrow> int \<times> 'd"
  se_decrypt_slot :: "'d \<Rightarrow> u64 \<Rightarrow> u32 \<Rightarrow> u8 list \<Rightarrow> int \<times> 'd"
  se_encrypt_slot :: "'d \<Rightarrow> u64 \<Rightarrow> u32 \<Rightarrow> u32 \<Rightarrow> int \<times> u8 list \<times> 'd"
  se_get_slot_info :: "'d \<Rightarrow> u64 \<Rightarrow> u32 \<Rightarrow> u32 \<times> u32 \<times> u32 \<Rightarrow> int \<times> (u32 \<times> u32 \<times> u32) \<times> 'd"
  se_uninit :: "nat \<Rightarrow> u8 list"

record 'd scc_state =
  ss_user :: umem
  ss_dev :: 'd
  ss_kmalloc :: "bool list"
  ss_bufs :: int
  ss_opens :: int
  ss_module_refs :: int

definition kmalloc_next :: "'d scc_state \<Rightarrow> bool \<times> 'd scc_state" where
  "kmalloc_next s =
     (let ok = (case ss_kmalloc s of [] \<Rightarrow> True | b # _ \<Rightarrow> b)
      in (ok, s\<lparr>ss_kmalloc := tl (ss_kmalloc s), ss_bufs := ss_bufs s + (if ok then 1 else 0)\<rparr>))"

section \<open>Open, close\<close>

definition scc_test_open :: "'d scc_state \<Rightarrow> int \<times> 'd scc_state" where
  "scc_test_open s = (0, s\<lparr>ss_opens := ss_opens s + 1, ss_module_refs := ss_module_refs s + 1\<rparr>)"

text \<open>\<open>scc_test_release\<close> gives the module reference back; the file itself goes away with \<open>close\<close>.\<close>

definition scc_test_release :: "'d scc_state \<Rightarrow> int \<times> 'd scc_state" where
  "scc_test_release s = (0, s\<lparr>ss_module_refs := ss_module_refs s - 1\<rparr>)"

section \<open>Configuration and registers\<close>

definition scc_test_get_configuration :: "'d scc_env \<Rightarrow> 'd scc_state \<Rightarrow> u32 \<Rightarrow> int \<times> 'd scc_state" where
  "scc_test_get_configuration env s scc_data =
     (let (miss, u) = copy_to_user (ss_user s) scc_data (se_config env)
      in (if miss \<noteq> 0 then - EFAULT else 0, s\<lparr>ss_user := u\<rparr>))"

definition scc_test_read_register :: "'d scc_env \<Rightarrow> 'd scc_state \<Rightarrow> u32 \<Rightarrow> int \<times> 'd scc_state" where
  "scc_test_read_register env s scc_data =
     (let (miss, reg_struct) = copy_from_user (ss_user s) scc_data 12;
          (error_code, scc_return, reg_struct1, dev) =
            (if miss \<noteq> 0 then (- EFAULT, -1, reg_struct, ss_dev s)
             else
               (let (ret, v, dev) = se_read_register env (ss_dev s) (fld reg_struct 0) (fld reg_struct 1)
                in (if ret \<noteq> se_RET_OK env then - EFAULT else 0, ret, set_fld reg_struct 1 v, dev)));
          (copy_code, u) = copy_to_user (ss_user s) scc_data (set_fld reg_struct1 2 (word_of_int scc_return))
      in (if copy_code \<noteq> 0 then ESPIPE else error_code, s\<lparr>ss_dev := dev, ss_user := u\<rparr>))"

definition scc_test_write_register :: "'d scc_env \<Rightarrow> 'd scc_state \<Rightarrow> u32 \<Rightarrow> int \<times> 'd scc_state" where
  "scc_test_write_register env s scc_data =
     (let (miss, reg_struct) = copy_from_user (ss_user s) scc_data 12;
          (error_code, scc_return, dev) =
            (if miss \<noteq> 0 then (- EFAULT, -1, ss_dev s)
             else
               (let (ret, dev) = se_write_register env (ss_dev s) (fld reg_struct 0) (fld reg_struct 1)
                in (if ret \<noteq> se_RET_OK env then - EFAULT else 0, ret, dev)));
          (copy_code, u) = copy_to_user (ss_user s) scc_data (set_fld reg_struct 2 (word_of_int scc_return))
      in (if copy_code \<noteq> 0 then ESPIPE else error_code, s\<lparr>ss_dev := dev, ss_user := u\<rparr>))"

section \<open>Encryption and decryption\<close>

text \<open>
  \<open>scc_encrypt_decrypt\<close> has eleven words: \<open>data_in\<close>, \<open>data_in_length\<close>, \<open>data_out\<close>,
  \<open>data_out_length\<close>, \<open>crypto_mode\<close>, \<open>check_mode\<close>, two of \<open>init_vector\<close>,
  \<open>wait_mode\<close>, \<open>function_return_code\<close> and \<open>verify_mode\<close>. The working areas are 16 bytes
  longer than the lengths say (as 32-bit sums) and used from an offset that repeats the alignment of
  the user pointer: \<open>(int)pointer % 8\<close>, a signed remainder. The result of the inner part is the
  error code, the return code, the structure and the user memory and device afterwards.
\<close>

definition scc_cipher_work ::
    "'d scc_env \<Rightarrow> umem \<Rightarrow> 'd \<Rightarrow> bool \<Rightarrow> u8 list \<Rightarrow> (int \<times> int \<times> u8 list \<times> umem \<times> 'd) run" where
  "scc_cipher_work env u dev enc cs =
     (let area_in = fresh_buf (se_uninit env) (unat (fld cs 1 + 16));
          area_out = fresh_buf (se_uninit env) (unat (fld cs 3 + 16));
          input = s32 (fld cs 0) smod 8;
          output = s32 (fld cs 2) smod 8;
          (copy_code, bs) = copy_from_user u (fld cs 0) (unat (fld cs 1))
      in case c_copy area_in input bs of
           None \<Rightarrow> Undef
         | Some area_in' \<Rightarrow>
             (if copy_code \<noteq> 0 then Done (- ENOMEM, -1, cs, u, dev)
              else
                (let iv = (if fld cs 4 = se_CBC_MODE env then Some (fld cs 6, fld cs 7) else None);
                     (return_code, out, out_len, dev') =
                       se_crypt env dev bs iv enc (fld cs 4) (fld cs 5) (fld cs 3);
                     cs' = set_fld cs 3 out_len
                 in case c_copy area_out output out of
                      None \<Rightarrow> Undef
                    | Some area_out' \<Rightarrow>
                        (if return_code = se_RET_OK env then
                           (case c_read area_out' output (unat out_len) of
                              None \<Rightarrow> Undef
                            | Some data \<Rightarrow>
                                (let (copy_code', u') = copy_to_user u (fld cs 2) data
                                 in Done (if copy_code' \<noteq> 0 \<or> return_code \<noteq> 0 then ENOMEM else 0,
                                      return_code, cs', u', dev')))
                         else Done (if return_code \<noteq> 0 then ENOMEM else 0, return_code, cs', u, dev')))))"

definition SCC_TEST_ENCRYPT :: u32 where "SCC_TEST_ENCRYPT = ioc (IOC_READ OR IOC_WRITE) 0x73 3 44"

definition scc_test_cipher :: "'d scc_env \<Rightarrow> 'd scc_state \<Rightarrow> u32 \<Rightarrow> u32 \<Rightarrow> (int \<times> 'd scc_state) run" where
  "scc_test_cipher env s cmd scc_data =
     (let (miss, cs) = copy_from_user (ss_user s) scc_data 44;
          (area_in, s1) = (if miss \<noteq> 0 then (False, s) else kmalloc_next s);
          (area_out, s2) = (if miss \<noteq> 0 then (False, s1) else kmalloc_next s1);
          work =
            (if miss \<noteq> 0 then Done (- EFAULT, -1, cs, ss_user s2, ss_dev s2)
             else if \<not> area_in \<or> \<not> area_out then Done (- ENOMEM, -1, cs, ss_user s2, ss_dev s2)
             else scc_cipher_work env (ss_user s2) (ss_dev s2) (cmd = SCC_TEST_ENCRYPT) cs)
      in run_bind work (\<lambda>(error_code, return_code, cs', u, dev).
           (let (copy_code, u') = copy_to_user u scc_data (set_fld cs' 9 (word_of_int return_code));
                freed = (if area_in then 1 else 0) + (if area_out then 1 else 0)
            in Done (if copy_code \<noteq> 0 then ESPIPE else error_code,
                     s2\<lparr>ss_user := u', ss_dev := dev, ss_bufs := ss_bufs s2 - freed\<rparr>))))"

section \<open>Zeroize and key slots\<close>

definition scc_test_zeroize :: "'d scc_env \<Rightarrow> 'd scc_state \<Rightarrow> u32 \<Rightarrow> int \<times> 'd scc_state" where
  "scc_test_zeroize env s scc_data =
     (let (return_code, dev) = se_zeroize_memories env (ss_dev s);
          (miss, u) = copy_to_user (ss_user s) scc_data (le32 (word_of_int return_code))
      in (int miss, s\<lparr>ss_dev := dev, ss_user := u\<rparr>))"

text \<open>\<open>scc_alloc_slot_access\<close>: size, slot, owner (words 2 and 3), status; 24 bytes.\<close>

definition scc_test_alloc_slot :: "'d scc_env \<Rightarrow> 'd scc_state \<Rightarrow> u32 \<Rightarrow> int \<times> 'd scc_state" where
  "scc_test_alloc_slot env s scc_data =
     (let (status, acc) = copy_from_user (ss_user s) scc_data 24
      in if status \<noteq> 0 then (int status, s)
         else
           (let (ret, slot, dev) = se_alloc_slot env (ss_dev s) (fld acc 0) (fld64 acc 2) (fld acc 1);
                (status', u) = copy_to_user (ss_user s) scc_data (set_fld (set_fld acc 1 slot) 4 (word_of_int ret))
            in (int status', s\<lparr>ss_dev := dev, ss_user := u\<rparr>)))"

text \<open>\<open>scc_dealloc_slot_access\<close>: slot, status, owner; 16 bytes.\<close>

definition scc_test_dealloc_slot :: "'d scc_env \<Rightarrow> 'd scc_state \<Rightarrow> u32 \<Rightarrow> int \<times> 'd scc_state" where
  "scc_test_dealloc_slot env s scc_data =
     (let (status, acc) = copy_from_user (ss_user s) scc_data 16
      in if status \<noteq> 0 then (int status, s)
         else
           (let (ret, dev) = se_dealloc_slot env (ss_dev s) (fld64 acc 2) (fld acc 0);
                (status', u) = copy_to_user (ss_user s) scc_data (set_fld acc 1 (word_of_int ret))
            in (int status', s\<lparr>ss_dev := dev, ss_user := u\<rparr>)))"

text \<open>
  \<open>scc_load_slot_access\<close>: slot, key_is_red, owner, key_data, key_data_length, status; 32 bytes.
  The key buffer is never freed.
\<close>

definition scc_test_load_slot :: "'d scc_env \<Rightarrow> 'd scc_state \<Rightarrow> u32 \<Rightarrow> int \<times> 'd scc_state" where
  "scc_test_load_slot env s scc_data =
     (let (status, acc) = copy_from_user (ss_user s) scc_data 32
      in if status \<noteq> 0 then (int status, s)
         else
           (let (ret, info, dev) = se_get_slot_info env (ss_dev s) (fld64 acc 2) (fld acc 0) (0, 0, 0);
                s1 = s\<lparr>ss_dev := dev\<rparr>;
                (ret1, s2) =
                  (if ret \<noteq> se_RET_OK env then (ret, s1)
                   else
                     (let (ok, s3) = kmalloc_next s1
                      in if \<not> ok then (se_RET_INSUFFICIENT_SPACE env, s3)
                         else
                           (let (miss, key_data) = copy_from_user (ss_user s3) (fld acc 4) (unat (fld acc 5))
                            in if miss \<noteq> 0 then (ret, s3)
                               else
                                 (let (r, dev') =
                                    (if fld acc 1 \<noteq> 0
                                     then se_load_slot env (ss_dev s3) (fld64 acc 2) (fld acc 0) key_data
                                     else se_decrypt_slot env (ss_dev s3) (fld64 acc 2) (fld acc 0) key_data)
                                  in (r, s3\<lparr>ss_dev := dev'\<rparr>)))));
                (status', u) = copy_to_user (ss_user s2) scc_data (set_fld acc 6 (word_of_int ret1))
            in (int status', s2\<lparr>ss_user := u\<rparr>)))"

text \<open>
  \<open>scc_encrypt_slot_access\<close>: slot, key_data, owner, key_data_length, status; 24 bytes. The
  buffer is never freed here either.
\<close>

definition scc_test_encrypt_slot :: "'d scc_env \<Rightarrow> 'd scc_state \<Rightarrow> u32 \<Rightarrow> (int \<times> 'd scc_state) run" where
  "scc_test_encrypt_slot env s scc_data =
     (let (status, acc) = copy_from_user (ss_user s) scc_data 24
      in if status \<noteq> 0 then Done (int status, s)
         else
           (let (ret, info, dev) = se_get_slot_info env (ss_dev s) (fld64 acc 2) (fld acc 0) (0, 0, 0);
                s1 = s\<lparr>ss_dev := dev\<rparr>;
                inner =
                  (if ret \<noteq> se_RET_OK env then Done (0, ret, s1)
                   else
                     (let (ok, s3) = kmalloc_next s1; len = unat (fld acc 4)
                      in if \<not> ok then Done (0, se_RET_INSUFFICIENT_SPACE env, s3)
                         else
                           (let (r, black, dev') = se_encrypt_slot env (ss_dev s3) (fld64 acc 2) (fld acc 0) (fld acc 4);
                                s4 = s3\<lparr>ss_dev := dev'\<rparr>
                            in case c_store (fresh_buf (se_uninit env) len) 0 black of
                                 None \<Rightarrow> Undef
                               | Some key_data \<Rightarrow>
                                   (if r = se_RET_OK env
                                    then (let (st, u) = copy_to_user (ss_user s4) (fld acc 1) key_data
                                          in Done (st, r, s4\<lparr>ss_user := u\<rparr>))
                                    else Done (0, r, s4)))))
            in run_bind inner (\<lambda>(st, r, s5).
                 if st \<noteq> 0 then Done (int st, s5)
                 else
                   (let (status', u) = copy_to_user (ss_user s5) scc_data (set_fld acc 5 (word_of_int r))
                    in Done (int status', s5\<lparr>ss_user := u\<rparr>)))))"

text \<open>\<open>scc_get_slot_info_access\<close>: slot, address, owner, value size, slot size, status; 32 bytes.\<close>

definition scc_test_get_slot_info :: "'d scc_env \<Rightarrow> 'd scc_state \<Rightarrow> u32 \<Rightarrow> int \<times> 'd scc_state" where
  "scc_test_get_slot_info env s scc_data =
     (let (status, acc) = copy_from_user (ss_user s) scc_data 32
      in if status \<noteq> 0 then (int status, s)
         else
           (let (ret, (address, vsize, ssize), dev) =
                  se_get_slot_info env (ss_dev s) (fld64 acc 2) (fld acc 0) (fld acc 1, fld acc 4, fld acc 5);
                acc' = set_fld (set_fld (set_fld (set_fld acc 1 address) 4 vsize) 5 ssize) 6 (word_of_int ret);
                (status', u) = copy_to_user (ss_user s) scc_data acc'
            in (int status', s\<lparr>ss_dev := dev, ss_user := u\<rparr>)))"

section \<open>Dispatch\<close>

definition SCC_TEST_GET_CONFIGURATION :: u32 where "SCC_TEST_GET_CONFIGURATION = ioc IOC_WRITE 0x73 0 28"
definition SCC_TEST_READ_REG :: u32 where "SCC_TEST_READ_REG = ioc (IOC_READ OR IOC_WRITE) 0x73 1 12"
definition SCC_TEST_WRITE_REG :: u32 where "SCC_TEST_WRITE_REG = ioc (IOC_READ OR IOC_WRITE) 0x73 2 12"
definition SCC_TEST_DECRYPT :: u32 where "SCC_TEST_DECRYPT = ioc (IOC_READ OR IOC_WRITE) 0x73 4 44"
definition SCC_TEST_SET_ALARM :: u32 where "SCC_TEST_SET_ALARM = ioc 0 0x73 5 0"
definition SCC_TEST_ZEROIZE :: u32 where "SCC_TEST_ZEROIZE = ioc (IOC_READ OR IOC_WRITE) 0x73 6 4"
definition SCC_TEST_ALLOC_SLOT :: u32 where "SCC_TEST_ALLOC_SLOT = ioc (IOC_READ OR IOC_WRITE) 0x73 7 24"
definition SCC_TEST_DEALLOC_SLOT :: u32 where "SCC_TEST_DEALLOC_SLOT = ioc (IOC_READ OR IOC_WRITE) 0x73 8 16"
definition SCC_TEST_LOAD_SLOT :: u32 where "SCC_TEST_LOAD_SLOT = ioc (IOC_READ OR IOC_WRITE) 0x73 9 32"
definition SCC_TEST_GET_SLOT_INFO :: u32 where "SCC_TEST_GET_SLOT_INFO = ioc (IOC_READ OR IOC_WRITE) 0x73 10 32"
definition SCC_TEST_ENCRYPT_SLOT :: u32 where "SCC_TEST_ENCRYPT_SLOT = ioc (IOC_READ OR IOC_WRITE) 0x73 11 24"

lemmas scc_cmd_defs = SCC_TEST_GET_CONFIGURATION_def SCC_TEST_READ_REG_def SCC_TEST_WRITE_REG_def
  SCC_TEST_ENCRYPT_def SCC_TEST_DECRYPT_def SCC_TEST_SET_ALARM_def SCC_TEST_ZEROIZE_def
  SCC_TEST_ALLOC_SLOT_def SCC_TEST_DEALLOC_SLOT_def SCC_TEST_LOAD_SLOT_def
  SCC_TEST_GET_SLOT_INFO_def SCC_TEST_ENCRYPT_SLOT_def

definition scc_test_ioctl :: "'d scc_env \<Rightarrow> 'd scc_state \<Rightarrow> u32 \<Rightarrow> u32 \<Rightarrow> (int \<times> 'd scc_state) run" where
  "scc_test_ioctl env s cmd scc_data =
     (if cmd = SCC_TEST_GET_CONFIGURATION then Done (scc_test_get_configuration env s scc_data)
      else if cmd = SCC_TEST_READ_REG then Done (scc_test_read_register env s scc_data)
      else if cmd = SCC_TEST_WRITE_REG then Done (scc_test_write_register env s scc_data)
      else if cmd = SCC_TEST_ENCRYPT \<or> cmd = SCC_TEST_DECRYPT then scc_test_cipher env s cmd scc_data
      else if cmd = SCC_TEST_ALLOC_SLOT then Done (scc_test_alloc_slot env s scc_data)
      else if cmd = SCC_TEST_DEALLOC_SLOT then Done (scc_test_dealloc_slot env s scc_data)
      else if cmd = SCC_TEST_LOAD_SLOT then Done (scc_test_load_slot env s scc_data)
      else if cmd = SCC_TEST_ENCRYPT_SLOT then scc_test_encrypt_slot env s scc_data
      else if cmd = SCC_TEST_GET_SLOT_INFO then Done (scc_test_get_slot_info env s scc_data)
      else if cmd = SCC_TEST_SET_ALARM then Done (0, s\<lparr>ss_dev := se_set_sw_alarm env (ss_dev s)\<rparr>)
      else if cmd = SCC_TEST_ZEROIZE then Done (scc_test_zeroize env s scc_data)
      else Done (- ENOTTY, s))"

text \<open>
  The file operations as \<open>setup_user_driver_interaction\<close> registers them: the handler of
  \<open>mmap\<close> is \<open>scc_test_release\<close>.
\<close>

datatype scc_call = SOpen | SIoctl u32 u32 | SMmap | SClose

fun scc_step :: "'d scc_env \<Rightarrow> 'd scc_state \<Rightarrow> scc_call \<Rightarrow> (int \<times> 'd scc_state) run" where
  "scc_step env s SOpen = Done (scc_test_open s)"
| "scc_step env s (SIoctl cmd arg) = scc_test_ioctl env s cmd arg"
| "scc_step env s SMmap = Done (scc_test_release s)"
| "scc_step env s SClose = Done (scc_test_release (s\<lparr>ss_opens := ss_opens s - 1\<rparr>))"

section \<open>Loading and unloading\<close>

text \<open>
  The kernel's table of character device majors and \<open>scc_test_major_node\<close>. The registration
  call gets the requested major (0 asks for any free one, here \<open>dyn\<close>) and returns \<open>code\<close>.
  \<open>sr_monitor\<close> says that the real driver holds the security failure callback of this module.
\<close>

record scc_reg =
  sr_majors :: "int \<Rightarrow> string option"
  sr_major_node :: int
  sr_monitor :: bool

definition SCC_TEST_DRIVER_NAME :: string where "SCC_TEST_DRIVER_NAME = ''scc_test''"

definition setup_user_driver_interaction :: "int \<Rightarrow> int \<Rightarrow> scc_reg \<Rightarrow> int \<times> scc_reg" where
  "setup_user_driver_interaction code dyn r =
     (let major = (if sr_major_node r = 0 then dyn else sr_major_node r);
          r1 = (if code = 0 then r\<lparr>sr_majors := (sr_majors r)(major := Some SCC_TEST_DRIVER_NAME)\<rparr> else r)
      in if code \<noteq> 0 then (code, r1)
         else (code, if sr_major_node r1 = 0 then r1\<lparr>sr_major_node := code\<rparr> else r1))"

definition scc_test_cleanup :: "scc_reg \<Rightarrow> scc_reg" where
  "scc_test_cleanup r =
     (if sr_major_node r \<noteq> 0
      then r\<lparr>sr_majors := (sr_majors r)(sr_major_node r := None), sr_major_node := 0\<rparr> else r)"

definition scc_test_init :: "int \<Rightarrow> int \<Rightarrow> int \<Rightarrow> scc_reg \<Rightarrow> int \<times> scc_reg" where
  "scc_test_init read_code reg_code dyn r =
     (let (error_code, r1) =
        (if read_code = 0 then setup_user_driver_interaction reg_code dyn r else (read_code, r));
          r2 = r1\<lparr>sr_monitor := True\<rparr>
      in (error_code, if error_code \<noteq> 0 then scc_test_cleanup r2 else r2))"


section \<open>Contract of the real driver and admissible calls\<close>

text \<open>
  \<open>scc_crypt\<close> gets the size of its output area and stores at most that many bytes, as does
  \<open>scc_encrypt_slot\<close>.
\<close>

definition scc_env_ok :: "'d scc_env \<Rightarrow> bool" where
  "scc_env_ok env \<longleftrightarrow>
     (\<forall>d bs iv e m c n ret out len d'. se_crypt env d bs iv e m c n = (ret, out, len, d') \<longrightarrow>
        length out \<le> unat n \<and> unat len \<le> unat n) \<and>
     (\<forall>d owner slot n ret black d'. se_encrypt_slot env d owner slot n = (ret, black, d') \<longrightarrow>
        length black \<le> unat n)"

definition cipher_args_ok :: "u8 list \<Rightarrow> bool" where
  "cipher_args_ok cs \<longleftrightarrow> unat (fld cs 1) + 16 < 2 ^ 32 \<and> unat (fld cs 3) + 16 < 2 ^ 32 \<and>
     0 \<le> s32 (fld cs 0) smod 8 \<and> 0 \<le> s32 (fld cs 2) smod 8"

fun scc_adm :: "'d scc_state \<Rightarrow> scc_call \<Rightarrow> bool" where
  "scc_adm s SOpen = True"
| "scc_adm s (SIoctl cmd arg) =
     (cmd = SCC_TEST_ENCRYPT \<or> cmd = SCC_TEST_DECRYPT \<longrightarrow>
        cipher_args_ok (snd (copy_from_user (ss_user s) arg 44)))"
| "scc_adm s SMmap = False"
| "scc_adm s SClose = (0 < ss_opens s)"

definition scc_inv :: "'d scc_state \<Rightarrow> bool" where
  "scc_inv s \<longleftrightarrow> ss_module_refs s = ss_opens s \<and> 0 \<le> ss_opens s \<and> 0 \<le> ss_bufs s"

lemma area_size: "unat (w :: u32) + 16 < 2 ^ 32 \<Longrightarrow> unat (w + 16) = unat w + 16"
  by (simp add: unat_word_ariths take_bit_nat_eq_self)

lemma scc_cipher_work_safe:
  assumes env: "scc_env_ok env" and args: "cipher_args_ok cs" and len: "length cs = 44"
  shows "\<exists>e r cs' u' d'. scc_cipher_work env u d enc cs = Done (e, r, cs', u', d') \<and> length cs' = 44"
proof -
  define oi oo where "oi = s32 (fld cs 0) smod 8" and "oo = s32 (fld cs 2) smod 8"
  have off: "0 \<le> oi" "nat oi \<le> 16" "0 \<le> oo" "nat oo \<le> 16"
    using args smod_8_bounds(2) [of "s32 (fld cs 0)"] smod_8_bounds(2) [of "s32 (fld cs 2)"]
    by (auto simp: cipher_args_ok_def oi_def oo_def nat_le_iff)
  have sz: "unat (fld cs 1 + 16) = unat (fld cs 1) + 16" "unat (fld cs 3 + 16) = unat (fld cs 3) + 16"
    using args by (auto simp: cipher_args_ok_def intro: area_size)
  obtain miss bs where cp: "copy_from_user u (fld cs 0) (unat (fld cs 1)) = (miss, bs)" by fastforce
  have bs: "length bs = unat (fld cs 1)" using length_copy_from_user cp by (metis snd_conv)
  let ?iv = "if fld cs 4 = se_CBC_MODE env then Some (fld cs 6, fld cs 7) else None"
  obtain ret out ol d' where cr: "se_crypt env d bs ?iv enc (fld cs 4) (fld cs 5) (fld cs 3) = (ret, out, ol, d')"
    by (metis prod_cases4)
  have out: "length out \<le> unat (fld cs 3)" "unat ol \<le> unat (fld cs 3)"
    using env cr unfolding scc_env_ok_def by blast+
  obtain ai where ai: "c_copy (fresh_buf (se_uninit env) (unat (fld cs 1 + 16))) oi bs = Some ai"
    using c_copy_fits [of oi bs "fresh_buf (se_uninit env) (unat (fld cs 1 + 16))"] off bs sz by auto
  obtain ao where ao: "c_copy (fresh_buf (se_uninit env) (unat (fld cs 3 + 16))) oo out = Some ao"
      and "length ao = unat (fld cs 3) + 16"
    using c_copy_fits [of oo out "fresh_buf (se_uninit env) (unat (fld cs 3 + 16))"] off out sz by auto
  then obtain data where data: "c_read ao oo (unat ol) = Some data"
    using c_read_fits [of oo "unat ol" ao] off out by auto
  show ?thesis
    unfolding scc_cipher_work_def Let_def oi_def [symmetric] oo_def [symmetric] cp prod.case ai option.case cr ao data
    using len by (cases "copy_to_user u (fld cs 2) data") simp
qed

lemma kmalloc_next_inv [simp]: "scc_inv s \<Longrightarrow> scc_inv (snd (kmalloc_next s))"
  by (simp add: kmalloc_next_def scc_inv_def Let_def)

lemma kmalloc_next_sel [simp]:
  "ss_user (snd (kmalloc_next s)) = ss_user s" "ss_dev (snd (kmalloc_next s)) = ss_dev s"
  "ss_opens (snd (kmalloc_next s)) = ss_opens s" "ss_module_refs (snd (kmalloc_next s)) = ss_module_refs s"
  "ss_bufs (snd (kmalloc_next s)) = ss_bufs s + (if fst (kmalloc_next s) then 1 else 0)"
  by (simp_all add: kmalloc_next_def Let_def)

lemma scc_inv_frame [simp]:
  "scc_inv (s\<lparr>ss_user := u\<rparr>) = scc_inv s" "scc_inv (s\<lparr>ss_dev := d\<rparr>) = scc_inv s"
  by (simp_all add: scc_inv_def)

lemma scc_test_cipher_inv:
  assumes env: "scc_env_ok env" and inv: "scc_inv s"
    and args: "cipher_args_ok (snd (copy_from_user (ss_user s) arg 44))"
  shows "\<exists>r s'. scc_test_cipher env s cmd arg = Done (r, s') \<and> scc_inv s' \<and> ss_bufs s' = ss_bufs s"
proof -
  obtain miss cs where cp: "copy_from_user (ss_user s) arg 44 = (miss, cs)" by fastforce
  have cs: "cipher_args_ok cs" "length cs = 44"
    using args cp length_copy_from_user [of "ss_user s" arg 44] by simp_all
  obtain a1 s1 where k1: "kmalloc_next s = (a1, s1)" by fastforce
  obtain a2 s2 where k2: "kmalloc_next s1 = (a2, s2)" by fastforce
  note sel = kmalloc_next_sel [of s, unfolded k1 fst_conv snd_conv] kmalloc_next_sel [of s1, unfolded k2 fst_conv snd_conv]
  obtain e r cs' u' d' where work:
    "scc_cipher_work env (ss_user s) (ss_dev s) (cmd = SCC_TEST_ENCRYPT) cs = Done (e, r, cs', u', d')"
    using scc_cipher_work_safe [OF env cs] by metis
  show ?thesis
    using inv by (simp add: scc_test_cipher_def cp k1 k2 sel work Let_def case_prod_beta scc_inv_def)
qed

lemma scc_encrypt_slot_inv:
  assumes env: "scc_env_ok env" and inv: "scc_inv s"
  shows "\<exists>r s'. scc_test_encrypt_slot env s arg = Done (r, s') \<and> scc_inv s'"
proof -
  obtain status acc where cp: "copy_from_user (ss_user s) arg 24 = (status, acc)" by fastforce
  obtain ret info dev where gi: "se_get_slot_info env (ss_dev s) (fld64 acc 2) (fld acc 0) (0, 0, 0) = (ret, info, dev)"
    by (metis prod_cases3)
  let ?s1 = "s\<lparr>ss_dev := dev\<rparr>"
  obtain ok s3 where km: "kmalloc_next ?s1 = (ok, s3)" by fastforce
  have inv3: "scc_inv s3" using kmalloc_next_inv [of ?s1] inv km by simp
  obtain r black d' where en: "se_encrypt_slot env (ss_dev s3) (fld64 acc 2) (fld acc 0) (fld acc 4) = (r, black, d')"
    by (metis prod_cases3)
  have "length black \<le> unat (fld acc 4)" using env en unfolding scc_env_ok_def by blast
  then obtain kd where kd: "c_store (fresh_buf (se_uninit env) (unat (fld acc 4))) 0 black = Some kd"
    using c_store_fits [of 0 black "fresh_buf (se_uninit env) (unat (fld acc 4))"] by auto
  show ?thesis
    using inv inv3 by (simp add: scc_test_encrypt_slot_def cp gi km en kd Let_def case_prod_beta)
qed

lemma scc_load_slot_inv: "scc_inv s \<Longrightarrow> scc_inv (snd (scc_test_load_slot env s arg))"
  by (simp add: scc_test_load_slot_def case_prod_beta Let_def)

lemma scc_simple_inv:
  assumes "scc_inv s"
  shows "scc_inv (snd (scc_test_get_configuration env s arg))" "scc_inv (snd (scc_test_read_register env s arg))"
    "scc_inv (snd (scc_test_write_register env s arg))" "scc_inv (snd (scc_test_alloc_slot env s arg))"
    "scc_inv (snd (scc_test_dealloc_slot env s arg))" "scc_inv (snd (scc_test_get_slot_info env s arg))"
    "scc_inv (snd (scc_test_zeroize env s arg))"
  using assms
  by (simp_all add: scc_test_get_configuration_def scc_test_read_register_def scc_test_write_register_def
      scc_test_alloc_slot_def scc_test_dealloc_slot_def scc_test_get_slot_info_def scc_test_zeroize_def
      case_prod_beta Let_def)

lemma scc_test_ioctl_inv:
  assumes env: "scc_env_ok env" and inv: "scc_inv s" and adm: "scc_adm s (SIoctl cmd arg)"
  shows "\<exists>r s'. scc_test_ioctl env s cmd arg = Done (r, s') \<and> scc_inv s'"
proof (cases "cmd = SCC_TEST_ENCRYPT \<or> cmd = SCC_TEST_DECRYPT")
  case True
  then have "cipher_args_ok (snd (copy_from_user (ss_user s) arg 44))" using adm by auto
  moreover have "cmd \<noteq> SCC_TEST_GET_CONFIGURATION" "cmd \<noteq> SCC_TEST_READ_REG" "cmd \<noteq> SCC_TEST_WRITE_REG"
    using True by (auto simp: scc_cmd_defs ioc_defs)
  ultimately show ?thesis
    using True scc_test_cipher_inv [OF env inv, of arg cmd] by (auto simp: scc_test_ioctl_def)
next
  case False
  have "returns scc_inv (scc_test_encrypt_slot env s arg)"
    using scc_encrypt_slot_inv [OF env inv] by (simp add: returns_iff)
  then have "returns scc_inv (scc_test_ioctl env s cmd arg)"
    using False inv unfolding scc_test_ioctl_def by (simp add: scc_simple_inv scc_load_slot_inv)
  then show ?thesis by (simp add: returns_iff)
qed

interpretation sccd: char_driver "scc_step env" scc_adm "\<lambda>s. scc_env_ok env \<and> scc_inv s" for env :: "'d scc_env"
proof
  fix s :: "'d scc_state" and c
  assume inv: "scc_env_ok env \<and> scc_inv s" and adm: "scc_adm s c"
  show "\<exists>r s'. scc_step env s c = Done (r, s') \<and> scc_env_ok env \<and> scc_inv s'"
  proof (cases c)
    case (SIoctl cmd arg)
    then show ?thesis using scc_test_ioctl_inv [of env s cmd arg] inv adm by simp
  qed (use inv adm in \<open>auto simp: scc_test_open_def scc_test_release_def scc_inv_def\<close>)
qed



lemma scc_ioctl_cipher:
  assumes "cmd \<in> {SCC_TEST_ENCRYPT, SCC_TEST_DECRYPT}"
  shows "scc_test_ioctl env s cmd arg = scc_test_cipher env s cmd arg"
proof -
  have "cmd \<notin> {SCC_TEST_GET_CONFIGURATION, SCC_TEST_READ_REG, SCC_TEST_WRITE_REG}"
    using assms by (auto simp: scc_cmd_defs ioc_defs)
  then show ?thesis using assms by (auto simp: scc_test_ioctl_def)
qed

section \<open>Properties\<close>

text \<open>
  C21: Under every sequence of \<open>open\<close>, \<open>ioctl\<close> and \<open>close\<close> calls the SCC test driver
  stays inside its kernel buffers and holds exactly one module reference per open file, as long as
  the cipher requests have lengths that leave room for the 16 spare bytes and pointers whose signed
  remainder by 8 is not negative, and the real driver keeps to the output size it is given.
\<close>

theorem scc_driver_safe:
  assumes "scc_env_ok env" and "scc_inv s" and "adm_calls (scc_step env) scc_adm s cs"
  shows "\<exists>rs s'. run_calls (scc_step env) s cs = Done (rs, s') \<and> length rs = length cs \<and> scc_inv s'"
  using sccd.run_calls_ok [of env s cs] assms by auto

text \<open>A device that inverts every byte, for the witnesses.\<close>

definition inv_env :: "unit scc_env" where
  "inv_env = \<lparr>se_RET_OK = 0, se_RET_INSUFFICIENT_SPACE = 7, se_CBC_MODE = 1, se_config = [1, 2, 3, 4],
     se_read_register = (\<lambda>d off old. (0, off, d)), se_write_register = (\<lambda>d off v. (0, d)),
     se_crypt = (\<lambda>d bs iv e m c n. (0, map NOT (take (unat n) bs), word_of_nat (min (unat n) (length bs)), d)),
     se_set_sw_alarm = (\<lambda>d. d), se_zeroize_memories = (\<lambda>d. (0, d)),
     se_alloc_slot = (\<lambda>d n owner old. (0, 3, d)), se_dealloc_slot = (\<lambda>d owner slot. (0, d)),
     se_load_slot = (\<lambda>d owner slot key. (0, d)), se_decrypt_slot = (\<lambda>d owner slot key. (0, d)),
     se_encrypt_slot = (\<lambda>d owner slot n. (0, replicate (unat n) 0, d)),
     se_get_slot_info = (\<lambda>d owner slot old. (0, old, d)), se_uninit = (\<lambda>n. [])\<rparr>"

lemma inv_env_ok: "scc_env_ok inv_env"
proof -
  have "unat (word_of_nat (min (unat n) k) :: u32) \<le> unat n" for n :: u32 and k
    using unat_u32_less [of n] by (simp add: unat_of_nat take_bit_nat_eq_self min_def)
  then show ?thesis by (auto simp: scc_env_ok_def inv_env_def)
qed

definition cipher_req :: "u32 \<Rightarrow> u32 \<Rightarrow> u32 \<Rightarrow> u32 \<Rightarrow> u8 list" where
  "cipher_req din len dout olen = le32 din @ le32 len @ le32 dout @ le32 olen @ replicate 28 0"

definition scc_start :: "u8 list \<Rightarrow> unit scc_state" where
  "scc_start req = \<lparr>ss_user = uwrite \<lparr>um_byte = ucast, um_rd = (\<lambda>a. unat a < 0x10000), um_wr = (\<lambda>_. True)\<rparr> 0x100 req,
     ss_dev = (), ss_kmalloc = [], ss_bufs = 0, ss_opens = 1, ss_module_refs = 1\<rparr>"

lemma scc_start_inv: "scc_inv (scc_start req)"
  by (simp add: scc_inv_def scc_start_def)

theorem scc_driver_safe_witness:
  "\<exists>rs s'. run_calls (scc_step inv_env) (scc_start (cipher_req 0x200 8 0x300 8))
     [SOpen, SIoctl SCC_TEST_ZEROIZE 0x400, SClose, SClose] = Done (rs, s') \<and> scc_inv s'"
proof -
  have ne: "SCC_TEST_ZEROIZE \<noteq> SCC_TEST_ENCRYPT" "SCC_TEST_ZEROIZE \<noteq> SCC_TEST_DECRYPT"
    by (simp_all add: scc_cmd_defs ioc_defs)
  have "adm_calls (scc_step inv_env) scc_adm (scc_start (cipher_req 0x200 8 0x300 8))
     [SOpen, SIoctl SCC_TEST_ZEROIZE 0x400, SClose, SClose]"
    by (simp add: ne scc_test_open_def scc_test_release_def scc_test_ioctl_def scc_test_zeroize_def
        scc_cmd_defs ioc_defs scc_start_def Let_def case_prod_beta)
  from scc_driver_safe [OF inv_env_ok scc_start_inv this] show ?thesis by blast
qed

lemma req_read: "uread (ss_user (scc_start (cipher_req a b c d))) 0x100 44 = cipher_req a b c d"
  using uread_uwrite [of "cipher_req a b c d"] by (simp add: scc_start_def cipher_req_def)

lemma req_fld:
  "fld (cipher_req a b c d) 0 = a" "fld (cipher_req a b c d) (Suc 0) = b" "fld (cipher_req a b c d) 2 = c"
  "fld (cipher_req a b c d) 3 = d" "fld (cipher_req a b c d) 4 = 0"
  by (simp_all add: cipher_req_def fld_def) (simp_all add: numeral_eq_Suc)

lemma scc_start_access:
  "unat b + n \<le> 0x10000 \<Longrightarrow> readable (ss_user (scc_start req)) b n" "writable (ss_user (scc_start req)) a n"
  "\<not> readable (ss_user (scc_start req)) 0x20000 8"
proof -
  assume "unat b + n \<le> 0x10000"
  then have "unat (b + of_nat k) < 0x10000" if "k < n" for k
    using that by (simp add: unat_word_ariths unat_of_nat take_bit_nat_eq_self)
  then show "readable (ss_user (scc_start req)) b n"
    unfolding readable_def by (intro run_len_range) (simp add: scc_start_def)
next
  have "run_len (um_rd (ss_user (scc_start req))) 0x20000 (Suc 7) = 0"
    unfolding run_len.simps by (simp add: scc_start_def)
  then show "\<not> readable (ss_user (scc_start req)) 0x20000 8" by (simp add: readable_def)
qed (simp add: scc_start_def writable_def run_len_all)

text \<open>
  C22: A cipher request delivers: when the copies succeed, \<open>SCC_TEST_ENCRYPT\<close> calls \<open>scc_crypt\<close> to
  encrypt and \<open>SCC_TEST_DECRYPT\<close> to decrypt; when it returns success with \<open>out\<close>, the command returns 0, the caller's output area holds \<open>out\<close>, the structure tells its
  length and the return code, and both kernel buffers are freed again.
\<close>

theorem scc_cipher_delivers:
  assumes cmd: "cmd \<in> {SCC_TEST_ENCRYPT, SCC_TEST_DECRYPT}" and env: "scc_env_ok env" and ok: "se_RET_OK env = 0" and km: "ss_kmalloc s = []"
    and req: "readable (ss_user s) arg 44" "writable (ss_user s) arg 44" "cs = uread (ss_user s) arg 44"
    and args: "cipher_args_ok cs" and din: "readable (ss_user s) (fld cs 0) (unat (fld cs 1))"
    and cr: "se_crypt env (ss_dev s) (uread (ss_user s) (fld cs 0) (unat (fld cs 1)))
      (if fld cs 4 = se_CBC_MODE env then Some (fld cs 6, fld cs 7) else None) (cmd = SCC_TEST_ENCRYPT)
      (fld cs 4) (fld cs 5) (fld cs 3) = (0, out, ol, dev)"
    and ol: "length out = unat ol" and dout: "writable (ss_user s) (fld cs 2) (length out)"
    and apart: "no_overlap (fld cs 2) (length out) arg 44"
  shows "\<exists>s' cs'. scc_test_ioctl env s cmd arg = Done (0, s') \<and>
      uread (ss_user s') (fld cs 2) (length out) = out \<and> cs' = uread (ss_user s') arg 44 \<and>
      fld cs' 3 = ol \<and> fld cs' 9 = 0 \<and> ss_dev s' = dev \<and> ss_bufs s' = ss_bufs s"
proof -
  define oi oo where "oi = s32 (fld cs 0) smod 8" and "oo = s32 (fld cs 2) smod 8"
  have off: "0 \<le> oi" "nat oi \<le> 16" "0 \<le> oo" "nat oo \<le> 16"
    using args smod_8_bounds(2) [of "s32 (fld cs 0)"] smod_8_bounds(2) [of "s32 (fld cs 2)"]
    by (auto simp: cipher_args_ok_def oi_def oo_def nat_le_iff)
  have sz: "unat (fld cs 1 + 16) = unat (fld cs 1) + 16" "unat (fld cs 3 + 16) = unat (fld cs 3) + 16"
    using args by (auto simp: cipher_args_ok_def intro: area_size)
  have out: "length out \<le> unat (fld cs 3)" using env cr unfolding scc_env_ok_def by blast
  let ?bs = "uread (ss_user s) (fld cs 0) (unat (fld cs 1))"
  obtain ai where ai: "c_copy (fresh_buf (se_uninit env) (unat (fld cs 1 + 16))) oi ?bs = Some ai"
    using c_copy_fits [of oi ?bs "fresh_buf (se_uninit env) (unat (fld cs 1 + 16))"] off sz by auto
  obtain ao where ao: "c_copy (fresh_buf (se_uninit env) (unat (fld cs 3 + 16))) oo out = Some ao"
    using c_copy_fits [of oo out "fresh_buf (se_uninit env) (unat (fld cs 3 + 16))"] off out sz by auto
  have data: "c_read ao oo (unat ol) = Some out" using c_read_c_copy [OF ao] ol by simp
  let ?u1 = "uwrite (ss_user s) (fld cs 2) out"
  have work: "scc_cipher_work env (ss_user s) (ss_dev s) (cmd = SCC_TEST_ENCRYPT) cs = Done (0, 0, set_fld cs 3 ol, ?u1, dev)"
    unfolding scc_cipher_work_def Let_def oi_def [symmetric] oo_def [symmetric] copy_from_user_ok [OF din]
      prod.case ai option.case cr ao data
    using ok copy_to_user_ok [OF dout] by simp
  let ?cs = "set_fld (set_fld cs 3 ol) 9 0"
  have len: "length cs = 44" "length ?cs = 44" using req(3) by simp_all
  have cp: "copy_from_user (ss_user s) arg 44 = (0, cs)"
    "copy_to_user ?u1 arg ?cs = (0, uwrite ?u1 arg ?cs)"
    using req len by (simp_all add: copy_from_user_ok copy_to_user_ok)
  have k: "kmalloc_next s = (True, s\<lparr>ss_bufs := ss_bufs s + 1\<rparr>)"
    "kmalloc_next (s\<lparr>ss_bufs := ss_bufs s + 1\<rparr>) = (True, s\<lparr>ss_bufs := ss_bufs s + 2\<rparr>)"
    using km by (simp_all add: kmalloc_next_def)
  have run: "scc_test_ioctl env s cmd arg = scc_test_cipher env s cmd arg" by (rule scc_ioctl_cipher [OF cmd])
  have le: "length out \<le> 2 ^ 32" using unat_u32_less [of ol] ol by simp
  have rd: "uread (uwrite ?u1 arg ?cs) (fld cs 2) (length out) = out" "uread (uwrite ?u1 arg ?cs) arg 44 = ?cs"
    using apart uread_uwrite [OF le] uread_uwrite [of ?cs ?u1 arg] len
    by (simp_all add: uread_uwrite_other)
  show ?thesis
    using len by (simp add: run scc_test_cipher_def cp k work rd fld_set_fld_other)
qed

theorem scc_cipher_delivers_witness:
  "\<exists>s'. scc_test_ioctl inv_env (scc_start (cipher_req 0x108 2 0x300 2)) SCC_TEST_DECRYPT 0x100 = Done (0, s') \<and>
      uread (ss_user s') 0x300 2 = [NOT 0, NOT 3] \<and> ss_bufs s' = 0"
proof -
  let ?s = "scc_start (cipher_req 0x108 2 0x300 2)" and ?cs = "cipher_req 0x108 2 0x300 2"
  have rd: "uread (ss_user ?s) 0x108 2 = [0, 3]"
  proof -
    have "uread (ss_user ?s) 0x108 2 = take 2 (drop 8 (uread (ss_user ?s) 0x100 44))"
      by (rule nth_equalityI) (simp_all add: uread_nth)
    also have "\<dots> = take 2 (drop 8 ?cs)" unfolding req_read ..
    also have "\<dots> = [0, 3]" by (simp add: cipher_req_def le32_def)
    finally show ?thesis .
  qed
  have args: "cipher_args_ok ?cs" by (simp add: cipher_args_ok_def req_fld)
  have din: "readable (ss_user ?s) 0x108 2"
    by (rule scc_start_access) simp
  have ov: "no_overlap 0x300 2 0x100 44" by (simp add: no_overlap_def upt_conv_Cons)
  have st: "ss_kmalloc ?s = []" "ss_bufs ?s = 0" "ss_dev ?s = ()" "se_RET_OK inv_env = 0"
    by (simp_all add: scc_start_def inv_env_def)
  show ?thesis
    using scc_cipher_delivers [OF _ inv_env_ok st(4,1) scc_start_access(1,2) req_read [symmetric] args, of SCC_TEST_DECRYPT out ol dev for out ol dev]
      din rd ov st
    by (simp add: req_read req_fld scc_start_access inv_env_def) blast
qed

text \<open>
  C23: Two kinds of cipher requests, to encrypt or to decrypt, write outside the kernel buffer: a length
  within 16 of \<open>2^32\<close>, for which the size of the buffer wraps around, and a length other than 0 with a
  user pointer in the upper half of the address space that is not a multiple of 8, for which the signed
  remainder is negative and the copy starts before the buffer.
\<close>

theorem scc_cipher_input_overrun:
  assumes cmd: "cmd \<in> {SCC_TEST_ENCRYPT, SCC_TEST_DECRYPT}" and "readable (ss_user s) arg 44" and "cs = uread (ss_user s) arg 44" and "ss_kmalloc s = []"
    and "2 ^ 32 \<le> unat (fld cs 1) + 16 \<or> fld cs 1 \<noteq> 0 \<and> 0x80000000 \<le> fld cs 0 \<and> \<not> 8 dvd unat (fld cs 0)"
  shows "scc_test_ioctl env s cmd arg = Undef"
proof -
  let ?area = "fresh_buf (se_uninit env) (unat (fld cs 1 + 16))"
  obtain miss bs where c0: "copy_from_user (ss_user s) (fld cs 0) (unat (fld cs 1)) = (miss, bs)" by fastforce
  have bs: "length bs = unat (fld cs 1)" using length_copy_from_user c0 by (metis snd_conv)
  have over: "c_copy ?area (s32 (fld cs 0) smod 8) bs = None"
  proof (cases "2 ^ 32 \<le> unat (fld cs 1) + 16")
    case True
    then have "unat (fld cs 1 + 16) < unat (fld cs 1)"
      using unat_u32_less [of "fld cs 1"] unfolding unat_word_ariths
      by (simp add: take_bit_eq_mod mod_if)
    then show ?thesis using bs by (intro c_copy_outside) auto
  next
    case False
    then have "s32 (fld cs 0) smod 8 < 0" "fld cs 1 \<noteq> 0" using assms(5) s32_high_smod by blast+
    then show ?thesis using bs by (intro c_copy_outside) (auto simp: unat_eq_0)
  qed
  have k: "kmalloc_next s = (True, s\<lparr>ss_bufs := ss_bufs s + 1\<rparr>)"
    "kmalloc_next (s\<lparr>ss_bufs := ss_bufs s + 1\<rparr>) = (True, s\<lparr>ss_bufs := ss_bufs s + 2\<rparr>)"
    using assms(4) by (simp_all add: kmalloc_next_def)
  have "scc_cipher_work env (ss_user s) (ss_dev s) (cmd = SCC_TEST_ENCRYPT) cs = Undef"
    unfolding scc_cipher_work_def Let_def c0 prod.case over by simp
  then show ?thesis
    using assms(2,3) by (simp add: scc_ioctl_cipher [OF cmd] scc_test_cipher_def copy_from_user_ok k)
qed

theorem scc_cipher_input_overrun_witness:
  "scc_test_ioctl inv_env (scc_start (cipher_req 0xBEFFF124 8 0x300 8)) SCC_TEST_DECRYPT 0x100 = Undef"
  by (rule scc_cipher_input_overrun [OF _ _ refl])
     (simp_all add: scc_start_access req_read req_fld, simp add: scc_start_def)

text \<open>
  \<open>SCC_TEST_LOAD_SLOT\<close> hides a failure: when the key cannot be read from user space nothing
  is loaded, yet the command returns 0 and the status in the structure is \<open>SCC_RET_OK\<close>; and the
  key buffer is never freed.
\<close>

lemma scc_load_slot_hides_failure:
  assumes "readable (ss_user s) arg 32" and "writable (ss_user s) arg 32" and "ss_kmalloc s = []"
    and "acc = uread (ss_user s) arg 32"
    and "se_get_slot_info env (ss_dev s) (fld64 acc 2) (fld acc 0) (0, 0, 0) = (se_RET_OK env, info, dev)"
    and "\<not> readable (ss_user s) (fld acc 4) (unat (fld acc 5))"
  shows "\<exists>s'. scc_test_ioctl env s SCC_TEST_LOAD_SLOT arg = Done (0, s') \<and>
      fld (uread (ss_user s') arg 32) 6 = word_of_int (se_RET_OK env) \<and> ss_dev s' = dev \<and>
      ss_bufs s' = ss_bufs s + 1"
proof -
  obtain miss kd where c0: "copy_from_user (ss_user s) (fld acc 4) (unat (fld acc 5)) = (miss, kd)" by fastforce
  have miss: "miss \<noteq> 0" using copy_from_user_0_iff c0 assms(6) by (metis fst_conv)
  let ?acc = "set_fld acc 6 (word_of_int (se_RET_OK env))"
  have len: "length acc = 32" "length ?acc = 32" using assms(4) by simp_all
  have cp: "copy_from_user (ss_user s) arg 32 = (0, acc)"
    "copy_to_user (ss_user s) arg ?acc = (0, uwrite (ss_user s) arg ?acc)"
    using assms(1,2,4) len by (simp_all add: copy_from_user_ok copy_to_user_ok)
  have ne: "SCC_TEST_LOAD_SLOT \<notin> {SCC_TEST_GET_CONFIGURATION, SCC_TEST_READ_REG, SCC_TEST_WRITE_REG,
      SCC_TEST_ENCRYPT, SCC_TEST_DECRYPT, SCC_TEST_ALLOC_SLOT, SCC_TEST_DEALLOC_SLOT}"
    by (simp add: scc_cmd_defs ioc_defs)
  show ?thesis
    using ne miss assms(3) len uread_uwrite [of ?acc "ss_user s" arg]
    by (simp add: scc_test_ioctl_def scc_test_load_slot_def cp assms(5) c0 kmalloc_next_def Let_def)
qed

text \<open>
  Loading and unloading pair up when everything goes well: after \<open>scc_test_init\<close> the major
  belongs to this driver and after \<open>scc_test_cleanup\<close> it is free. But when the registration
  fails because the major already belongs to another driver, the clean-up after the error takes the
  major away from that driver, and the security failure callback of the module that did not load
  stays registered.
\<close>

lemma scc_init_cleanup:
  assumes "sr_major_node r = m" and "m \<noteq> 0"
  shows "(\<exists>r1. scc_test_init 0 0 dyn r = (0, r1) \<and> sr_majors r1 m = Some SCC_TEST_DRIVER_NAME \<and>
        sr_majors (scc_test_cleanup r1) = (sr_majors r)(m := None)) \<and>
     (code \<noteq> 0 \<and> sr_majors r m = Some other \<longrightarrow>
        (\<exists>r2. scc_test_init 0 code dyn r = (code, r2) \<and> sr_majors r2 m = None \<and> sr_monitor r2))"
  using assms
  by (auto simp: scc_test_init_def setup_user_driver_interaction_def scc_test_cleanup_def Let_def)

end
