(* ===== verification/Scc2_Driver.thy ===== *)
theory Scc2_Driver
  imports Kernel_Env
begin

unbundle bit_operations_syntax

text \<open>
  The SCC2 test driver (\<^verbatim>\<open>src/module_test/scc2_test_driver.c\<close>). The partitions of the SCC2
  are ordinary kernel memory to this driver, so the state has a kernel address space beside the user
  memory (both as byte maps with access rights); touching an unmapped kernel address is undefined
  behaviour. The real SCC2 driver is a parameter with a device state of any type, and whether a DMA
  allocation succeeds is a schedule.
\<close>

section \<open>State and environment\<close>

record 'd scc2_env =
  s2_RET_OK :: int
  s2_config :: "u8 list"
  s2_read_register :: "'d \<Rightarrow> u32 \<Rightarrow> u32 \<Rightarrow> int \<times> u32 \<times> 'd"
  s2_write_register :: "'d \<Rightarrow> u32 \<Rightarrow> u32 \<Rightarrow> int \<times> 'd"
  s2_set_sw_alarm :: "'d \<Rightarrow> 'd"
  s2_allocate_partition :: "'d \<Rightarrow> u32 \<Rightarrow> u32 \<times> u32 \<times> u32 \<Rightarrow> int \<times> (u32 \<times> u32 \<times> u32) \<times> 'd"
  s2_engage_partition :: "'d \<Rightarrow> u32 \<Rightarrow> u8 list option \<Rightarrow> u32 \<Rightarrow> int \<times> 'd"
  s2_encrypt_region :: "'d \<Rightarrow> umem \<Rightarrow> u32 \<Rightarrow> u32 \<Rightarrow> u32 \<Rightarrow> u32 list \<Rightarrow> int \<times> u8 list \<times> 'd"
  s2_decrypt_region :: "'d \<Rightarrow> umem \<Rightarrow> u32 \<Rightarrow> u32 \<Rightarrow> u8 list \<Rightarrow> u32 list \<Rightarrow> int \<times> umem \<times> 'd"
  s2_release_partition :: "'d \<Rightarrow> u32 \<Rightarrow> int \<times> 'd"
  s2_uninit :: "nat \<Rightarrow> u8 list"

record 'd scc2_state =
  st_user :: umem
  st_kmem :: umem
  st_dev :: 'd
  st_dma :: "bool list"
  st_dma_live :: nat

section \<open>Configuration and registers\<close>

definition scc2_test_get_configuration :: "'d scc2_env \<Rightarrow> 'd scc2_state \<Rightarrow> u32 \<Rightarrow> int \<times> 'd scc2_state" where
  "scc2_test_get_configuration env s scc_data =
     (let (miss, u) = copy_to_user (st_user s) scc_data (s2_config env)
      in (if miss \<noteq> 0 then - EFAULT else 0, s\<lparr>st_user := u\<rparr>))"

definition scc2_test_read_register :: "'d scc2_env \<Rightarrow> 'd scc2_state \<Rightarrow> u32 \<Rightarrow> int \<times> 'd scc2_state" where
  "scc2_test_read_register env s scc_data =
     (let (miss, reg_struct) = copy_from_user (st_user s) scc_data 12;
          (error_code, scc_return, reg_struct1, dev) =
            (if miss \<noteq> 0 then (- EFAULT, -1, reg_struct, st_dev s)
             else
               (let (ret, v, dev) = s2_read_register env (st_dev s) (fld reg_struct 0) (fld reg_struct 1)
                in (if ret \<noteq> s2_RET_OK env then - EFAULT else 0, ret, set_fld reg_struct 1 v, dev)));
          (retval, u) = copy_to_user (st_user s) scc_data (set_fld reg_struct1 2 (word_of_int scc_return))
      in (error_code, s\<lparr>st_dev := dev, st_user := u\<rparr>))"

definition scc2_test_write_register :: "'d scc2_env \<Rightarrow> 'd scc2_state \<Rightarrow> u32 \<Rightarrow> int \<times> 'd scc2_state" where
  "scc2_test_write_register env s scc_data =
     (let (miss, reg_struct) = copy_from_user (st_user s) scc_data 12;
          (error_code, scc_return, dev) =
            (if miss \<noteq> 0 then (- EFAULT, -1, st_dev s)
             else
               (let (ret, dev) = s2_write_register env (st_dev s) (fld reg_struct 0) (fld reg_struct 1)
                in (if ret \<noteq> s2_RET_OK env then - EFAULT else 0, ret, dev)));
          (retval, u) = copy_to_user (st_user s) scc_data (set_fld reg_struct 2 (word_of_int scc_return))
      in (error_code, s\<lparr>st_dev := dev, st_user := u\<rparr>))"

section \<open>Partitions\<close>

text \<open>
  \<open>scc_partition_access\<close> is five words: the virtual address, a union of (smid, part_no,
  phys_address) and (umid, permissions), and the status.
\<close>

definition scc2_test_alloc_part :: "'d scc2_env \<Rightarrow> 'd scc2_state \<Rightarrow> u32 \<Rightarrow> int \<times> 'd scc2_state" where
  "scc2_test_alloc_part env s scc_data =
     (let (status, acc) = copy_from_user (st_user s) scc_data 20
      in if status \<noteq> 0 then (int status, s)
         else
           (let (ret, (part_no, virt, phys), dev) =
                  s2_allocate_partition env (st_dev s) (fld acc 1) (fld acc 2, fld acc 0, fld acc 3);
                acc' = set_fld (set_fld (set_fld (set_fld acc 2 part_no) 0 virt) 3 phys) 4 (word_of_int ret);
                (status', u) = copy_to_user (st_user s) scc_data acc'
            in (int status', s\<lparr>st_dev := dev, st_user := u\<rparr>)))"

definition scc2_test_engage_part :: "'d scc2_env \<Rightarrow> 'd scc2_state \<Rightarrow> u32 \<Rightarrow> int \<times> 'd scc2_state" where
  "scc2_test_engage_part env s scc_data =
     (let (status, acc) = copy_from_user (st_user s) scc_data 20
      in if status \<noteq> 0 then (int status, s)
         else
           (let (status1, umid_ptr) =
                  (if fld acc 1 \<noteq> 0
                   then (let (miss, umid) = copy_from_user (st_user s) (fld acc 1) 16 in (miss, Some umid))
                   else (0, None))
            in if status1 \<noteq> 0 then (int status1, s)
               else
                 (let (ret, dev) = s2_engage_partition env (st_dev s) (fld acc 0) umid_ptr (fld acc 2);
                      (status', u) = copy_to_user (st_user s) scc_data (set_fld acc 4 (word_of_int ret))
                  in (int status', s\<lparr>st_dev := dev, st_user := u\<rparr>))))"

definition scc2_test_release_part :: "'d scc2_env \<Rightarrow> 'd scc2_state \<Rightarrow> u32 \<Rightarrow> int \<times> 'd scc2_state" where
  "scc2_test_release_part env s scc_data =
     (let (status, acc) = copy_from_user (st_user s) scc_data 20
      in if status \<noteq> 0 then (int status, s)
         else
           (let (ret, dev) = s2_release_partition env (st_dev s) (fld acc 0);
                (status', u) = copy_to_user (st_user s) scc_data (set_fld acc 4 (word_of_int ret))
            in (int status', s\<lparr>st_dev := dev, st_user := u\<rparr>)))"

section \<open>Encryption of partition memory\<close>

text \<open>
  \<open>scc_part_cipher_access\<close> is eight words: virtual address, red offset, black address, size,
  two of \<open>iv\<close>, status, padding. Both helpers return the status, the structure and the new state.
\<close>

definition part_iv :: "u8 list \<Rightarrow> u32 list" where
  "part_iv acc = [fld acc 4, fld acc 5, 0, 0]"

definition do_encrypt_part ::
    "'d scc2_env \<Rightarrow> 'd scc2_state \<Rightarrow> u8 list \<Rightarrow> u8 list \<Rightarrow> (nat \<times> u8 list \<times> 'd scc2_state) run" where
  "do_encrypt_part env s acc local_black =
     (let (ret, black, dev) =
            s2_encrypt_region env (st_dev s) (st_kmem s) (fld acc 0) (fld acc 1) (fld acc 3) (part_iv acc);
          acc' = set_fld acc 6 (word_of_int ret)
      in case c_store local_black 0 black of
           None \<Rightarrow> Undef
         | Some local_black' \<Rightarrow>
             (case c_slice local_black' 0 (int (unat (fld acc 3))) of
                None \<Rightarrow> Undef
              | Some data \<Rightarrow>
                  (let (status, u) = copy_to_user (st_user s) (fld acc 2) data
                   in Done (status, acc', s\<lparr>st_dev := dev, st_user := u\<rparr>))))"

definition do_decrypt_part ::
    "'d scc2_env \<Rightarrow> 'd scc2_state \<Rightarrow> u8 list \<Rightarrow> u8 list \<Rightarrow> (nat \<times> u8 list \<times> 'd scc2_state) run" where
  "do_decrypt_part env s acc local_black =
     (let (status, bs) = copy_from_user (st_user s) (fld acc 2) (unat (fld acc 3))
      in case c_store local_black 0 bs of
           None \<Rightarrow> Undef
         | Some local_black' \<Rightarrow>
             (if status \<noteq> 0 then Done (status, acc, s)
              else
                (let (ret, km, dev) =
                       s2_decrypt_region env (st_dev s) (st_kmem s) (fld acc 0) (fld acc 1)
                         (take (unat (fld acc 3)) local_black') (part_iv acc)
                 in Done (status, set_fld acc 6 (word_of_int ret), s\<lparr>st_dev := dev, st_kmem := km\<rparr>))))"

definition SCC2_TEST_ENCRYPT_PART :: u32 where "SCC2_TEST_ENCRYPT_PART = ioc (IOC_READ OR IOC_WRITE) 0x73 14 32"

definition scc2_test_encrypt_part :: "'d scc2_env \<Rightarrow> 'd scc2_state \<Rightarrow> u32 \<Rightarrow> u32 \<Rightarrow> (int \<times> 'd scc2_state) run" where
  "scc2_test_encrypt_part env s cmd scc_data =
     (let (status, acc) = copy_from_user (st_user s) scc_data 32
      in if status \<noteq> 0 then Done (int status, s)
         else
           (let black = (case st_dma s of [] \<Rightarrow> True | b # _ \<Rightarrow> b);
                s1 = s\<lparr>st_dma := tl (st_dma s)\<rparr>
            in if \<not> black then Done (ENOMEM, s1)
               else
                 (let s2 = s1\<lparr>st_dma_live := Suc (st_dma_live s1)\<rparr>;
                      local_black = fresh_buf (s2_uninit env) (unat (fld acc 3))
                  in run_bind (if cmd = SCC2_TEST_ENCRYPT_PART then do_encrypt_part env s2 acc local_black
                               else do_decrypt_part env s2 acc local_black)
                       (\<lambda>(status1, acc', s3).
                          (let s4 = s3\<lparr>st_dma_live := st_dma_live s3 - 1\<rparr>
                           in if status1 \<noteq> 0 then Done (int status1, s4)
                              else
                                (let (status2, u) = copy_to_user (st_user s4) scc_data acc'
                                 in Done (int status2, s4\<lparr>st_user := u\<rparr>)))))))"

section \<open>Plain access to partition memory\<close>

definition scc2_test_load_data :: "'d scc2_state \<Rightarrow> u32 \<Rightarrow> (int \<times> 'd scc2_state) run" where
  "scc2_test_load_data s scc_data =
     (let (status, acc) = copy_from_user (st_user s) scc_data 32
      in if status \<noteq> 0 then Done (int status, s)
         else
           (let dst = fld acc 0 + fld acc 1; n = unat (fld acc 3);
                (status', bs) = copy_from_user (st_user s) (fld acc 2) n
            in if \<not> writable (st_kmem s) dst n then Undef
               else Done (int status', s\<lparr>st_kmem := uwrite (st_kmem s) dst bs\<rparr>)))"

definition scc2_test_read_data :: "'d scc2_state \<Rightarrow> u32 \<Rightarrow> (int \<times> 'd scc2_state) run" where
  "scc2_test_read_data s scc_data =
     (let (status, acc) = copy_from_user (st_user s) scc_data 32
      in if status \<noteq> 0 then Done (int status, s)
         else
           (let src = fld acc 0 + fld acc 1; n = unat (fld acc 3)
            in if \<not> readable (st_kmem s) src n then Undef
               else
                 (let (status', u) = copy_to_user (st_user s) (fld acc 2) (uread (st_kmem s) src n)
                  in Done (int status', s\<lparr>st_user := u\<rparr>))))"

section \<open>Dispatch\<close>

definition SCC2_TEST_GET_CONFIGURATION :: u32 where "SCC2_TEST_GET_CONFIGURATION = ioc IOC_WRITE 0x73 0 28"
definition SCC2_TEST_READ_REG :: u32 where "SCC2_TEST_READ_REG = ioc (IOC_READ OR IOC_WRITE) 0x73 1 12"
definition SCC2_TEST_WRITE_REG :: u32 where "SCC2_TEST_WRITE_REG = ioc (IOC_READ OR IOC_WRITE) 0x73 2 12"
definition SCC2_TEST_SET_ALARM :: u32 where "SCC2_TEST_SET_ALARM = ioc 0 0x73 5 0"
definition SCC2_TEST_ALLOC_PART :: u32 where "SCC2_TEST_ALLOC_PART = ioc (IOC_READ OR IOC_WRITE) 0x73 12 20"
definition SCC2_TEST_ENGAGE_PART :: u32 where "SCC2_TEST_ENGAGE_PART = ioc (IOC_READ OR IOC_WRITE) 0x73 13 20"
definition SCC2_TEST_DECRYPT_PART :: u32 where "SCC2_TEST_DECRYPT_PART = ioc (IOC_READ OR IOC_WRITE) 0x73 15 32"
definition SCC2_TEST_RELEASE_PART :: u32 where "SCC2_TEST_RELEASE_PART = ioc (IOC_READ OR IOC_WRITE) 0x73 16 20"
definition SCC2_TEST_LOAD_PART :: u32 where "SCC2_TEST_LOAD_PART = ioc (IOC_READ OR IOC_WRITE) 0x73 17 32"
definition SCC2_TEST_READ_PART :: u32 where "SCC2_TEST_READ_PART = ioc (IOC_READ OR IOC_WRITE) 0x73 18 32"

lemmas scc2_cmd_defs = SCC2_TEST_GET_CONFIGURATION_def SCC2_TEST_READ_REG_def SCC2_TEST_WRITE_REG_def
  SCC2_TEST_SET_ALARM_def SCC2_TEST_ALLOC_PART_def SCC2_TEST_ENGAGE_PART_def SCC2_TEST_ENCRYPT_PART_def
  SCC2_TEST_DECRYPT_PART_def SCC2_TEST_RELEASE_PART_def SCC2_TEST_LOAD_PART_def SCC2_TEST_READ_PART_def

definition scc2_test_ioctl :: "'d scc2_env \<Rightarrow> 'd scc2_state \<Rightarrow> u32 \<Rightarrow> u32 \<Rightarrow> (int \<times> 'd scc2_state) run" where
  "scc2_test_ioctl env s cmd scc_data =
     (if cmd = SCC2_TEST_GET_CONFIGURATION then Done (scc2_test_get_configuration env s scc_data)
      else if cmd = SCC2_TEST_READ_REG then Done (scc2_test_read_register env s scc_data)
      else if cmd = SCC2_TEST_WRITE_REG then Done (scc2_test_write_register env s scc_data)
      else if cmd = SCC2_TEST_SET_ALARM then Done (0, s\<lparr>st_dev := s2_set_sw_alarm env (st_dev s)\<rparr>)
      else if cmd = SCC2_TEST_ALLOC_PART then Done (scc2_test_alloc_part env s scc_data)
      else if cmd = SCC2_TEST_ENGAGE_PART then Done (scc2_test_engage_part env s scc_data)
      else if cmd = SCC2_TEST_ENCRYPT_PART \<or> cmd = SCC2_TEST_DECRYPT_PART
        then scc2_test_encrypt_part env s cmd scc_data
      else if cmd = SCC2_TEST_LOAD_PART then scc2_test_load_data s scc_data
      else if cmd = SCC2_TEST_READ_PART then scc2_test_read_data s scc_data
      else if cmd = SCC2_TEST_RELEASE_PART then Done (scc2_test_release_part env s scc_data)
      else Done (- ENOTTY, s))"

datatype scc2_call = S2Open | S2Ioctl u32 u32 | S2Close

text \<open>\<open>scc2_test_open\<close> and \<open>scc2_test_release\<close> only report success.\<close>

definition scc2_test_open :: "'d scc2_state \<Rightarrow> int \<times> 'd scc2_state" where "scc2_test_open s = (0, s)"
definition scc2_test_release :: "'d scc2_state \<Rightarrow> int \<times> 'd scc2_state" where "scc2_test_release s = (0, s)"

fun scc2_step :: "'d scc2_env \<Rightarrow> 'd scc2_state \<Rightarrow> scc2_call \<Rightarrow> (int \<times> 'd scc2_state) run" where
  "scc2_step env s S2Open = Done (scc2_test_open s)"
| "scc2_step env s (S2Ioctl cmd arg) = scc2_test_ioctl env s cmd arg"
| "scc2_step env s S2Close = Done (scc2_test_release s)"

section \<open>Loading and unloading\<close>

text \<open>
  \<open>s2r_registered\<close>: the character device is registered; \<open>s2r_monitor\<close>: the real driver holds
  the callback \<open>scc2_test_report_failure\<close>. \<open>read_code\<close> and \<open>code\<close> are the results of
  \<open>scc_read_register\<close> and \<open>os_driver_complete_registration\<close>.
\<close>

record scc2_reg =
  s2r_registered :: bool
  s2r_monitor :: bool
  s2r_major_node :: int

definition setup_user_driver_interaction2 :: "int \<Rightarrow> scc2_reg \<Rightarrow> int \<times> scc2_reg" where
  "setup_user_driver_interaction2 code r =
     (if code \<noteq> 0 then (code, r)
      else (code, (if s2r_major_node r = 0 then r\<lparr>s2r_major_node := code\<rparr> else r)\<lparr>s2r_registered := True\<rparr>))"

definition scc2_test_cleanup :: "scc2_reg \<Rightarrow> scc2_reg" where
  "scc2_test_cleanup r = r\<lparr>s2r_registered := False\<rparr>"

definition scc2_test_init :: "int \<Rightarrow> int \<Rightarrow> scc2_reg \<Rightarrow> int \<times> scc2_reg" where
  "scc2_test_init read_code code r =
     (let (error_code, r1) =
        (if read_code = 0 then setup_user_driver_interaction2 code r else (read_code, r));
          r2 = r1\<lparr>s2r_monitor := True\<rparr>
      in (error_code, if error_code \<noteq> 0 then scc2_test_cleanup r2 else r2))"


section \<open>Contract of the real driver and admissible calls\<close>

text \<open>\<open>scc_encrypt_region\<close> stores at most the number of bytes it is asked for.\<close>

definition scc2_env_ok :: "'d scc2_env \<Rightarrow> bool" where
  "scc2_env_ok env \<longleftrightarrow>
     (\<forall>d km virt off n iv ret black d'.
        s2_encrypt_region env d km virt off n iv = (ret, black, d') \<longrightarrow> length black \<le> unat n)"

text \<open>The plain partition commands name a kernel range that is mapped.\<close>

fun scc2_adm :: "'d scc2_state \<Rightarrow> scc2_call \<Rightarrow> bool" where
  "scc2_adm s (S2Ioctl cmd arg) =
     (let acc = snd (copy_from_user (st_user s) arg 32)
      in (cmd = SCC2_TEST_LOAD_PART \<longrightarrow> writable (st_kmem s) (fld acc 0 + fld acc 1) (unat (fld acc 3))) \<and>
         (cmd = SCC2_TEST_READ_PART \<longrightarrow> readable (st_kmem s) (fld acc 0 + fld acc 1) (unat (fld acc 3))))"
| "scc2_adm s _ = True"

text \<open>No DMA buffer outlives a call.\<close>

definition scc2_inv :: "'d scc2_state \<Rightarrow> bool" where "scc2_inv s \<longleftrightarrow> st_dma_live s = 0"

lemma scc2_inv_frame [simp]:
  "scc2_inv (s\<lparr>st_user := u\<rparr>) = scc2_inv s" "scc2_inv (s\<lparr>st_kmem := k\<rparr>) = scc2_inv s"
  "scc2_inv (s\<lparr>st_dev := d\<rparr>) = scc2_inv s" "scc2_inv (s\<lparr>st_dma := b\<rparr>) = scc2_inv s"
  by (simp_all add: scc2_inv_def)

lemma do_encrypt_part_safe:
  assumes "scc2_env_ok env" and "length lb = unat (fld acc 3)"
  shows "\<exists>st acc' s'. do_encrypt_part env s acc lb = Done (st, acc', s') \<and> st_dma_live s' = st_dma_live s"
proof -
  obtain ret black d' where er:
    "s2_encrypt_region env (st_dev s) (st_kmem s) (fld acc 0) (fld acc 1) (fld acc 3) (part_iv acc) = (ret, black, d')"
    by (metis prod_cases3)
  have "length black \<le> unat (fld acc 3)" using assms(1) er unfolding scc2_env_ok_def by blast
  then obtain lb' where lb': "c_store lb 0 black = Some lb'" using c_store_fits [of 0 black lb] assms(2) by auto
  obtain data where data: "c_slice lb' 0 (int (unat (fld acc 3))) = Some data"
    using c_slice_fits [of 0 "unat (fld acc 3)" lb'] c_store_length [OF lb'] assms(2) by auto
  show ?thesis
    unfolding do_encrypt_part_def er Let_def prod.case lb' option.case data
    by (cases "copy_to_user (st_user s) (fld acc 2) data") simp
qed

lemma do_decrypt_part_safe:
  assumes "length lb = unat (fld acc 3)"
  shows "\<exists>st acc' s'. do_decrypt_part env s acc lb = Done (st, acc', s') \<and> st_dma_live s' = st_dma_live s"
proof -
  obtain miss bs where cp: "copy_from_user (st_user s) (fld acc 2) (unat (fld acc 3)) = (miss, bs)" by fastforce
  have "length bs = unat (fld acc 3)" using length_copy_from_user cp by (metis snd_conv)
  then obtain lb' where lb': "c_store lb 0 bs = Some lb'" using c_store_fits [of 0 bs lb] assms by auto
  show ?thesis
    unfolding do_decrypt_part_def cp Let_def prod.case lb' option.case by (auto split: prod.splits)
qed

lemma scc2_encrypt_part_inv:
  assumes env: "scc2_env_ok env" and inv: "scc2_inv s"
  shows "returns scc2_inv (scc2_test_encrypt_part env s cmd arg)"
proof -
  obtain status acc where cp: "copy_from_user (st_user s) arg 32 = (status, acc)" by fastforce
  let ?s1 = "s\<lparr>st_dma := tl (st_dma s)\<rparr>"
  let ?s = "?s1\<lparr>st_dma_live := Suc (st_dma_live ?s1)\<rparr>"
  let ?lb = "fresh_buf (s2_uninit env) (unat (fld acc 3))"
  have "\<exists>st acc' s'. (if cmd = SCC2_TEST_ENCRYPT_PART then do_encrypt_part env ?s acc ?lb
      else do_decrypt_part env ?s acc ?lb) = Done (st, acc', s') \<and> st_dma_live s' = 1"
    using do_encrypt_part_safe [OF env, of ?lb acc ?s] do_decrypt_part_safe [of ?lb acc env ?s] inv
    by (simp add: scc2_inv_def)
  then obtain st acc' s' where w: "(if cmd = SCC2_TEST_ENCRYPT_PART then do_encrypt_part env ?s acc ?lb
      else do_decrypt_part env ?s acc ?lb) = Done (st, acc', s')" "st_dma_live s' = 1" by blast
  show ?thesis
    unfolding scc2_test_encrypt_part_def cp Let_def prod.case w(1) run_bind.simps
    using w(2) inv by (simp add: case_prod_beta) (simp add: scc2_inv_def)
qed

lemma scc2_data_inv:
  assumes "scc2_inv s" and "scc2_adm s (S2Ioctl cmd arg)"
  shows "cmd = SCC2_TEST_LOAD_PART \<Longrightarrow> returns scc2_inv (scc2_test_load_data s arg)"
    and "cmd = SCC2_TEST_READ_PART \<Longrightarrow> returns scc2_inv (scc2_test_read_data s arg)"
  using assms by (auto simp: scc2_test_load_data_def scc2_test_read_data_def case_prod_beta Let_def)

lemma scc2_simple_inv:
  assumes "scc2_inv s"
  shows "scc2_inv (snd (scc2_test_get_configuration env s arg))" "scc2_inv (snd (scc2_test_read_register env s arg))"
    "scc2_inv (snd (scc2_test_write_register env s arg))" "scc2_inv (snd (scc2_test_alloc_part env s arg))"
    "scc2_inv (snd (scc2_test_engage_part env s arg))" "scc2_inv (snd (scc2_test_release_part env s arg))"
  using assms
  by (simp_all add: scc2_test_get_configuration_def scc2_test_read_register_def scc2_test_write_register_def
      scc2_test_alloc_part_def scc2_test_engage_part_def scc2_test_release_part_def case_prod_beta Let_def)

lemma scc2_test_ioctl_inv:
  assumes env: "scc2_env_ok env" and inv: "scc2_inv s" and adm: "scc2_adm s (S2Ioctl cmd arg)"
  shows "returns scc2_inv (scc2_test_ioctl env s cmd arg)"
  unfolding scc2_test_ioctl_def
  using scc2_data_inv [OF inv adm] scc2_encrypt_part_inv [OF env inv] inv
  by (simp add: scc2_simple_inv)

interpretation scc2d: char_driver "scc2_step env" scc2_adm "\<lambda>s. scc2_env_ok env \<and> scc2_inv s" for env :: "'d scc2_env"
proof
  fix s :: "'d scc2_state" and c
  assume inv: "scc2_env_ok env \<and> scc2_inv s" and adm: "scc2_adm s c"
  show "\<exists>r s'. scc2_step env s c = Done (r, s') \<and> scc2_env_ok env \<and> scc2_inv s'"
  proof (cases c)
    case (S2Ioctl cmd arg)
    then show ?thesis using scc2_test_ioctl_inv [of env s cmd arg] inv adm by (simp add: returns_iff)
  qed (use inv in \<open>auto simp: scc2_test_open_def scc2_test_release_def\<close>)
qed

section \<open>Properties\<close>

text \<open>A device for the witnesses: it hands out nothing and encrypts nothing.\<close>

definition null_env :: "unit scc2_env" where
  "null_env = \<lparr>s2_RET_OK = 0, s2_config = [1, 2], s2_read_register = (\<lambda>d off old. (0, off, d)),
     s2_write_register = (\<lambda>d off v. (0, d)), s2_set_sw_alarm = (\<lambda>d. d),
     s2_allocate_partition = (\<lambda>d smid old. (0, old, d)), s2_engage_partition = (\<lambda>d v umid p. (0, d)),
     s2_encrypt_region = (\<lambda>d km v off n iv. (3, [], d)), s2_decrypt_region = (\<lambda>d km v off bs iv. (0, km, d)),
     s2_release_partition = (\<lambda>d v. (0, d)), s2_uninit = (\<lambda>n. replicate n 0xA5)\<rparr>"

lemma null_env_ok: "scc2_env_ok null_env"
  by (simp add: scc2_env_ok_def null_env_def)

definition all_mem :: umem where
  "all_mem = \<lparr>um_byte = (\<lambda>_. 0), um_rd = (\<lambda>_. True), um_wr = (\<lambda>_. True)\<rparr>"

lemma all_mem_access [simp]: "readable (uwrite all_mem a bs) b n" "writable (uwrite all_mem a bs) b n"
  "readable all_mem b n" "writable all_mem b n"
  by (simp_all add: readable_def writable_def all_mem_def uwrite_def run_len_all)

definition part_req :: "u32 \<Rightarrow> u32 \<Rightarrow> u32 \<Rightarrow> u32 \<Rightarrow> u8 list" where
  "part_req virt off black n = le32 virt @ le32 off @ le32 black @ le32 n @ replicate 16 0"

definition part_start :: "u8 list \<Rightarrow> unit scc2_state" where
  "part_start req = \<lparr>st_user = uwrite all_mem 0x100 req, st_kmem = all_mem, st_dev = (), st_dma = [], st_dma_live = 0\<rparr>"

lemma length_part_req [simp]: "length (part_req v off b n) = 32"
  by (simp add: part_req_def)

lemma part_fld:
  "fld (part_req v off b n) 0 = v" "fld (part_req v off b n) (Suc 0) = off"
  "fld (part_req v off b n) 2 = b" "fld (part_req v off b n) 3 = n"
  by (simp_all add: part_req_def fld_def)

lemma part_read: "uread (st_user (part_start (part_req v off b n))) 0x100 32 = part_req v off b n"
  using uread_uwrite [of "part_req v off b n"] by (simp add: part_start_def)

text \<open>
  C26: Under every sequence of calls, whatever the commands and structures, the SCC2 test driver
  stays inside its DMA buffers and gives every DMA buffer back before the call returns, as long as
  the plain partition commands name mapped kernel addresses and the real driver keeps to the size.
\<close>

theorem scc2_driver_safe:
  assumes "scc2_env_ok env" and "scc2_inv s" and "adm_calls (scc2_step env) scc2_adm s cs"
  shows "\<exists>rs s'. run_calls (scc2_step env) s cs = Done (rs, s') \<and> length rs = length cs \<and> scc2_inv s'"
  using scc2d.run_calls_ok [of env s cs] assms by auto

theorem scc2_driver_safe_witness:
  "\<exists>rs s'. run_calls (scc2_step null_env) (part_start (part_req 0 0 0x300 4))
     [S2Open, S2Ioctl SCC2_TEST_ENCRYPT_PART 0x100, S2Close] = Done (rs, s') \<and> scc2_inv s'"
proof -
  have ne: "SCC2_TEST_ENCRYPT_PART \<noteq> SCC2_TEST_LOAD_PART" "SCC2_TEST_ENCRYPT_PART \<noteq> SCC2_TEST_READ_PART"
    by (simp_all add: scc2_cmd_defs ioc_defs)
  have "adm_calls (scc2_step null_env) scc2_adm (part_start (part_req 0 0 0x300 4))
      [S2Open, S2Ioctl SCC2_TEST_ENCRYPT_PART 0x100, S2Close]"
    by (auto simp: ne scc2_test_open_def split: run.splits)
  from scc2_driver_safe [OF null_env_ok _ this] show ?thesis by (auto simp: scc2_inv_def part_start_def)
qed

text \<open>
  C27: \<open>SCC2_TEST_LOAD_PART\<close> and \<open>SCC2_TEST_READ_PART\<close> are inverse: bytes loaded from one
  user buffer to a kernel address come back unchanged in another. No condition on the address is
  needed beyond being mapped: the commands reach every kernel address, allocated partition or not.
\<close>

theorem scc2_load_read:
  assumes "readable (st_user s) a 32" and "acc = uread (st_user s) a 32" and "readable (st_user s) b 32"
    and "acc2 = uread (st_user s) b 32" and "fld acc2 0 + fld acc2 1 = fld acc 0 + fld acc 1"
    and "fld acc2 3 = fld acc 3" and "n = unat (fld acc 3)"
    and "readable (st_user s) (fld acc 2) n" and "writable (st_user s) (fld acc2 2) n"
    and "writable (st_kmem s) (fld acc 0 + fld acc 1) n" and "readable (st_kmem s) (fld acc 0 + fld acc 1) n"
  shows "\<exists>s1 s2. scc2_test_ioctl env s SCC2_TEST_LOAD_PART a = Done (0, s1) \<and>
      scc2_test_ioctl env s1 SCC2_TEST_READ_PART b = Done (0, s2) \<and>
      uread (st_user s2) (fld acc2 2) n = uread (st_user s) (fld acc 2) n"
proof -
  let ?k = "fld acc 0 + fld acc 1" and ?bs = "uread (st_user s) (fld acc 2) n"
  let ?s1 = "s\<lparr>st_kmem := uwrite (st_kmem s) ?k ?bs\<rparr>"
  let ?s2 = "?s1\<lparr>st_user := uwrite (st_user s) (fld acc2 2) ?bs\<rparr>"
  have ne: "SCC2_TEST_LOAD_PART \<notin> {SCC2_TEST_GET_CONFIGURATION, SCC2_TEST_READ_REG, SCC2_TEST_WRITE_REG,
      SCC2_TEST_SET_ALARM, SCC2_TEST_ALLOC_PART, SCC2_TEST_ENGAGE_PART, SCC2_TEST_ENCRYPT_PART, SCC2_TEST_DECRYPT_PART}"
    "SCC2_TEST_READ_PART \<notin> {SCC2_TEST_GET_CONFIGURATION, SCC2_TEST_READ_REG, SCC2_TEST_WRITE_REG,
      SCC2_TEST_SET_ALARM, SCC2_TEST_ALLOC_PART, SCC2_TEST_ENGAGE_PART, SCC2_TEST_ENCRYPT_PART, SCC2_TEST_DECRYPT_PART,
      SCC2_TEST_LOAD_PART}"
    by (simp_all add: scc2_cmd_defs ioc_defs)
  have le: "length ?bs \<le> 2 ^ 32" using unat_u32_less [of "fld acc 3"] assms(7) by simp
  have km: "uread (uwrite (st_kmem s) ?k ?bs) ?k n = ?bs" using uread_uwrite [OF le, of "st_kmem s" ?k] by simp
  have load: "scc2_test_load_data s a = Done (0, ?s1)"
    unfolding scc2_test_load_data_def copy_from_user_ok [OF assms(1)] assms(2) [symmetric] Let_def prod.case
      assms(7) [symmetric] copy_from_user_ok [OF assms(8)]
    using assms(10) by simp
  have k2: "readable (st_kmem ?s1) ?k n" "st_user ?s1 = st_user s" using assms(11) by simp_all
  have out: "copy_to_user (st_user s) (fld acc2 2) ?bs = (0, uwrite (st_user s) (fld acc2 2) ?bs)"
    using assms(9) by (simp add: copy_to_user_ok)
  have n2: "unat (fld acc2 3) = n" using assms(6,7) by simp
  have read: "scc2_test_read_data ?s1 b = Done (0, ?s2)"
    unfolding scc2_test_read_data_def k2(2) copy_from_user_ok [OF assms(3)] assms(4) [symmetric] Let_def prod.case
      n2 assms(5)
    using k2(1) km out by simp
  have fin: "uread (st_user ?s2) (fld acc2 2) n = ?bs" using uread_uwrite [OF le, of "st_user s" "fld acc2 2"] by simp
  have "scc2_test_ioctl env s SCC2_TEST_LOAD_PART a = Done (0, ?s1)"
    "scc2_test_ioctl env ?s1 SCC2_TEST_READ_PART b = Done (0, ?s2)"
    using ne load read by (simp_all add: scc2_test_ioctl_def)
  with fin show ?thesis by blast
qed

theorem scc2_load_read_witness:
  "\<exists>s1 s2. scc2_test_ioctl null_env (part_start (part_req 0xC0008000 4 0x101 2)) SCC2_TEST_LOAD_PART 0x100 = Done (0, s1) \<and>
      scc2_test_ioctl null_env s1 SCC2_TEST_READ_PART 0x100 = Done (0, s2) \<and>
      uread (st_user s2) 0x101 2 = uread (uwrite all_mem 0x100 (part_req 0xC0008000 4 0x101 2)) 0x101 2"
proof -
  have acc: "readable (st_user (part_start req)) p k" "writable (st_user (part_start req)) p k"
    "readable (st_kmem (part_start req)) p k" "writable (st_kmem (part_start req)) p k" for req p k
    by (simp_all add: part_start_def)
  have u: "uwrite all_mem 0x100 req = st_user (part_start req)" for req by (simp add: part_start_def)
  have two: "unat (2 :: u32) = 2" by simp
  show ?thesis
    using scc2_load_read [OF acc(1) part_read [of "0xC0008000" 4 "0x101" 2, symmetric] acc(1)
        part_read [of "0xC0008000" 4 "0x101" 2, symmetric] refl refl refl acc(1) acc(2) acc(4) acc(3), of null_env]
    unfolding part_fld u two .
qed

text \<open>
  \<open>SCC2_TEST_ENCRYPT_PART\<close> delivers the black bytes \<open>scc_encrypt_region\<close> produced and its
  status to the caller; what it copies has the requested size even when fewer bytes were produced,
  the rest being the uninitialised contents of the DMA buffer. In particular a failing encryption
  hands the caller stale kernel memory.
\<close>

lemma scc2_encrypt_part_effect:
  assumes "readable (st_user s) a 32" and "writable (st_user s) a 32" and "acc = uread (st_user s) a 32"
    and "st_dma s = []" and "n = unat (fld acc 3)"
    and "s2_encrypt_region env (st_dev s) (st_kmem s) (fld acc 0) (fld acc 1) (fld acc 3)
        [fld acc 4, fld acc 5, 0, 0] = (ret, black, dev)"
    and "length black \<le> n" and "writable (st_user s) (fld acc 2) n" and "no_overlap (fld acc 2) n a 32"
  shows "\<exists>s'. scc2_test_ioctl env s SCC2_TEST_ENCRYPT_PART a = Done (0, s') \<and>
      uread (st_user s') (fld acc 2) n = black @ drop (length black) (fresh_buf (s2_uninit env) n) \<and>
      fld (uread (st_user s') a 32) 6 = word_of_int ret \<and> st_dev s' = dev \<and> st_dma_live s' = st_dma_live s"
proof -
  let ?lb = "fresh_buf (s2_uninit env) n" and ?acc = "set_fld acc 6 (word_of_int ret)"
  let ?data = "black @ drop (length black) ?lb"
  let ?s2 = "s\<lparr>st_dma := tl (st_dma s), st_dma_live := Suc (st_dma_live s)\<rparr>"
  let ?u1 = "uwrite (st_user s) (fld acc 2) ?data"
  have len: "length acc = 32" "length ?acc = 32" "length ?data = n" using assms(3,7) by simp_all
  have st: "c_store ?lb 0 black = Some ?data" using assms(7) by (simp add: c_store_def)
  have sl: "c_slice ?data 0 (int n) = Some ?data" using assms(7) by (simp add: c_slice_def)
  have enc: "do_encrypt_part env ?s2 acc ?lb = Done (0, ?acc, ?s2\<lparr>st_dev := dev, st_user := ?u1\<rparr>)"
    unfolding do_encrypt_part_def part_iv_def assms(5) [symmetric]
    using assms(6,8) st sl len by (simp add: copy_to_user_ok)
  have out: "copy_to_user ?u1 a ?acc = (0, uwrite ?u1 a ?acc)" using assms(2) len by (simp add: copy_to_user_ok)
  have le: "length ?data \<le> 2 ^ 32" using unat_u32_less [of "fld acc 3"] assms(5) len by simp
  have rd: "uread (uwrite ?u1 a ?acc) (fld acc 2) n = ?data" "uread (uwrite ?u1 a ?acc) a 32 = ?acc"
    using assms(9) uread_uwrite [OF le, of "st_user s" "fld acc 2"] uread_uwrite [of ?acc ?u1 a] len
    by (simp_all add: uread_uwrite_other)
  have ne: "SCC2_TEST_ENCRYPT_PART \<notin> {SCC2_TEST_GET_CONFIGURATION, SCC2_TEST_READ_REG, SCC2_TEST_WRITE_REG,
      SCC2_TEST_SET_ALARM, SCC2_TEST_ALLOC_PART, SCC2_TEST_ENGAGE_PART}"
    by (simp add: scc2_cmd_defs ioc_defs)
  have "scc2_test_encrypt_part env s SCC2_TEST_ENCRYPT_PART a =
      Done (0, s\<lparr>st_dma := tl (st_dma s), st_dev := dev, st_user := uwrite ?u1 a ?acc, st_dma_live := st_dma_live s\<rparr>)"
    unfolding scc2_test_encrypt_part_def copy_from_user_ok [OF assms(1)] assms(3) [symmetric] Let_def prod.case
      assms(5) [symmetric]
    using assms(4) enc out by simp
  then show ?thesis using ne rd len by (simp add: scc2_test_ioctl_def)
qed

text \<open>
  A failed \<open>scc2_test_init\<close> returns the error and leaves no device registered, but its
  security failure callback stays registered with the real driver.
\<close>

lemma scc2_init_failure:
  "case scc2_test_init read_code code r of (e, r') \<Rightarrow>
     if read_code = 0 \<and> code = 0 then e = 0 \<and> s2r_registered r' \<and> s2r_monitor r'
     else e \<noteq> 0 \<and> \<not> s2r_registered r' \<and> s2r_monitor r'"
  by (simp add: scc2_test_init_def setup_user_driver_interaction2_def scc2_test_cleanup_def)

end
