(* ===== verification/Spdc_Driver.thy ===== *)
theory Spdc_Driver
  imports Kernel_Env
begin

text \<open>
  The SPDC test driver (\<^verbatim>\<open>src/module_test/spdc_test_driver.c\<close>): a thin \<open>ioctl\<close> layer over the
  SPDC frame buffer driver. The command numbers and structure sizes come from a kernel header and
  the called functions from the frame buffer driver: both are parameters. C requires the case labels
  of the \<open>switch\<close> to be distinct, which is \<open>spdc_cmds_ok\<close>.
\<close>

section \<open>State and environment\<close>

record 'd spdc_env =
  MXCFB_SET_WAVEFORM_MODES :: u32
  MXCFB_SET_TEMPERATURE :: u32
  MXCFB_SET_AUTO_UPDATE_MODE :: u32
  MXCFB_SET_UPDATE_SCHEME :: u32
  MXCFB_SEND_UPDATE :: u32
  MXCFB_WAIT_FOR_UPDATE_COMPLETE :: u32
  MXCFB_SET_PWRDOWN_DELAY :: u32
  MXCFB_GET_PWRDOWN_DELAY :: u32
  sizeof_waveform_modes :: nat
  sizeof_update_data :: nat
  sizeof_update_marker_data :: nat
  mxc_spdc_fb_set_waveform_modes :: "'d \<Rightarrow> u8 list \<Rightarrow> 'd"
  mxc_spdc_fb_set_temperature :: "'d \<Rightarrow> int \<Rightarrow> int \<times> 'd"
  mxc_spdc_fb_set_auto_update :: "'d \<Rightarrow> u32 \<Rightarrow> int \<times> 'd"
  mxc_spdc_fb_set_upd_scheme :: "'d \<Rightarrow> u32 \<Rightarrow> int \<times> 'd"
  mxc_spdc_fb_send_update :: "'d \<Rightarrow> u8 list \<Rightarrow> int \<times> u8 list \<times> 'd"
  mxc_spdc_fb_wait_update_complete :: "'d \<Rightarrow> u8 list \<Rightarrow> int \<times> u8 list \<times> 'd"
  mxc_spdc_fb_set_pwrdown_delay :: "'d \<Rightarrow> int \<Rightarrow> int \<times> 'd"
  mxc_spdc_get_pwrdown_delay :: "'d \<Rightarrow> int"

definition spdc_cmds_ok :: "'d spdc_env \<Rightarrow> bool" where
  "spdc_cmds_ok env = distinct [MXCFB_SET_WAVEFORM_MODES env, MXCFB_SET_TEMPERATURE env,
     MXCFB_SET_AUTO_UPDATE_MODE env, MXCFB_SET_UPDATE_SCHEME env, MXCFB_SEND_UPDATE env,
     MXCFB_WAIT_FOR_UPDATE_COMPLETE env, MXCFB_SET_PWRDOWN_DELAY env, MXCFB_GET_PWRDOWN_DELAY env]"

record 'd spdc_state =
  sp_user :: umem
  sp_dev :: 'd
  sp_opens :: int
  sp_module_refs :: int

section \<open>File operations\<close>

definition spdc_test_open :: "'d spdc_state \<Rightarrow> int \<times> 'd spdc_state" where
  "spdc_test_open s = (0, s\<lparr>sp_module_refs := sp_module_refs s + 1\<rparr>)"

definition spdc_test_release :: "'d spdc_state \<Rightarrow> int \<times> 'd spdc_state" where
  "spdc_test_release s = (0, s\<lparr>sp_module_refs := sp_module_refs s - 1\<rparr>)"

text \<open>The commands that read one integer and hand it on: a fault leaves \<open>ret\<close> at \<open>-EINVAL\<close>.\<close>

definition with_user_word ::
    "'d spdc_state \<Rightarrow> u32 \<Rightarrow> ('d \<Rightarrow> u32 \<Rightarrow> int \<times> 'd) \<Rightarrow> int \<times> 'd spdc_state" where
  "with_user_word s arg f =
     (let (fault, v) = get_user (sp_user s) arg
      in if fault \<noteq> 0 then (- EINVAL, s)
         else (let (ret, dev) = f (sp_dev s) v in (ret, s\<lparr>sp_dev := dev\<rparr>)))"

definition spdc_test_ioctl :: "'d spdc_env \<Rightarrow> 'd spdc_state \<Rightarrow> u32 \<Rightarrow> u32 \<Rightarrow> int \<times> 'd spdc_state" where
  "spdc_test_ioctl env s cmd arg =
     (if cmd = MXCFB_SET_WAVEFORM_MODES env then
        (let (miss, modes) = copy_from_user (sp_user s) arg (sizeof_waveform_modes env)
         in if miss \<noteq> 0 then (- EINVAL, s)
            else (0, s\<lparr>sp_dev := mxc_spdc_fb_set_waveform_modes env (sp_dev s) modes\<rparr>))
      else if cmd = MXCFB_SET_TEMPERATURE env then
        with_user_word s arg (\<lambda>d v. mxc_spdc_fb_set_temperature env d (s32 v))
      else if cmd = MXCFB_SET_AUTO_UPDATE_MODE env then
        with_user_word s arg (mxc_spdc_fb_set_auto_update env)
      else if cmd = MXCFB_SET_UPDATE_SCHEME env then
        with_user_word s arg (mxc_spdc_fb_set_upd_scheme env)
      else if cmd = MXCFB_SEND_UPDATE env then
        (let (miss, upd_data) = copy_from_user (sp_user s) arg (sizeof_update_data env)
         in if miss \<noteq> 0 then (- EFAULT, s)
            else
              (let (ret, upd_data', dev) = mxc_spdc_fb_send_update env (sp_dev s) upd_data;
                   s1 = s\<lparr>sp_dev := dev\<rparr>
               in if ret \<noteq> 0 then (ret, s1)
                  else (let (miss', u) = copy_to_user (sp_user s1) arg upd_data'
                        in (if miss' \<noteq> 0 then - EFAULT else ret, s1\<lparr>sp_user := u\<rparr>))))
      else if cmd = MXCFB_WAIT_FOR_UPDATE_COMPLETE env then
        (let (miss, marker) = copy_from_user (sp_user s) arg (sizeof_update_marker_data env)
         in if miss \<noteq> 0 then (- EFAULT, s)
            else
              (let (ret, marker', dev) = mxc_spdc_fb_wait_update_complete env (sp_dev s) marker;
                   (miss', u) = copy_to_user (sp_user s) arg marker'
               in (if miss' \<noteq> 0 then - EFAULT else ret, s\<lparr>sp_dev := dev, sp_user := u\<rparr>)))
      else if cmd = MXCFB_SET_PWRDOWN_DELAY env then
        with_user_word s arg (\<lambda>d v. mxc_spdc_fb_set_pwrdown_delay env d (s32 v))
      else if cmd = MXCFB_GET_PWRDOWN_DELAY env then
        (let pwrdown_delay = mxc_spdc_get_pwrdown_delay env (sp_dev s);
             (fault, u) = put_user (sp_user s) arg (word_of_int pwrdown_delay);
             ret = (if fault \<noteq> 0 then - EFAULT else - EINVAL);
             ret = 0
         in (ret, s\<lparr>sp_user := u\<rparr>))
      else (- EINVAL, s))"

datatype spdc_call = POpen | PIoctl u32 u32 | PClose

fun spdc_step :: "'d spdc_env \<Rightarrow> 'd spdc_state \<Rightarrow> spdc_call \<Rightarrow> (int \<times> 'd spdc_state) run" where
  "spdc_step env s POpen = Done (spdc_test_open (s\<lparr>sp_opens := sp_opens s + 1\<rparr>))"
| "spdc_step env s (PIoctl cmd arg) = Done (spdc_test_ioctl env s cmd arg)"
| "spdc_step env s PClose = Done (spdc_test_release (s\<lparr>sp_opens := sp_opens s - 1\<rparr>))"

section \<open>Loading and unloading\<close>

text \<open>
  \<open>major\<close> is what \<open>register_chrdev\<close> returns; \<open>class_err\<close> is 0 or the error
  \<open>class_create\<close> reports; \<open>device_ok\<close> says whether \<open>device_create\<close> succeeds.
\<close>

definition spdc_test_init_module :: "int \<Rightarrow> int \<Rightarrow> bool \<Rightarrow> devreg \<Rightarrow> int \<times> devreg" where
  "spdc_test_init_module major class_err device_ok r =
     (if major < 0 then (major, r)
      else
        (let r1 = r\<lparr>dr_chrdev := True\<rparr>
         in if class_err \<noteq> 0 then (class_err, r1\<lparr>dr_chrdev := False\<rparr>)
            else
              (let r2 = r1\<lparr>dr_class := True\<rparr>
               in if \<not> device_ok then (-1, r2\<lparr>dr_class := False, dr_chrdev := False\<rparr>)
                  else (0, r2\<lparr>dr_device := True\<rparr>))))"

definition spdc_test_cleanup_module :: "devreg \<Rightarrow> devreg" where
  "spdc_test_cleanup_module r = r\<lparr>dr_chrdev := False, dr_device := False, dr_class := False\<rparr>"

lemma spdc_init_atomic:
  "case spdc_test_init_module major class_err device_ok no_reg of (e, r) \<Rightarrow>
     (if 0 \<le> major \<and> class_err = 0 \<and> device_ok then e = 0 \<and> r = all_reg else e \<noteq> 0 \<and> r = no_reg)"
  by (simp add: spdc_test_init_module_def no_reg_def all_reg_def Let_def)

section \<open>Invariant\<close>

definition spdc_inv :: "'d spdc_state \<Rightarrow> bool" where
  "spdc_inv s \<longleftrightarrow> sp_module_refs s = sp_opens s \<and> 0 \<le> sp_opens s"

fun spdc_adm :: "'d spdc_state \<Rightarrow> spdc_call \<Rightarrow> bool" where
  "spdc_adm s PClose = (0 < sp_opens s)"
| "spdc_adm s _ = True"

lemma spdc_inv_frame [simp]:
  "spdc_inv (s\<lparr>sp_user := u\<rparr>) = spdc_inv s" "spdc_inv (s\<lparr>sp_dev := d\<rparr>) = spdc_inv s"
  by (simp_all add: spdc_inv_def)

lemma spdc_ioctl_inv: "spdc_inv s \<Longrightarrow> spdc_inv (snd (spdc_test_ioctl env s cmd arg))"
  by (simp add: spdc_test_ioctl_def with_user_word_def case_prod_beta Let_def)

interpretation spdcd: char_driver "spdc_step env" spdc_adm spdc_inv for env :: "'d spdc_env"
proof
  fix s :: "'d spdc_state" and c
  assume inv: "spdc_inv s" and adm: "spdc_adm s c"
  have "returns spdc_inv (spdc_step env s c)"
    using inv adm spdc_ioctl_inv [OF inv]
    by (cases c) (auto simp: spdc_test_open_def spdc_test_release_def spdc_inv_def)
  then show "\<exists>r s'. spdc_step env s c = Done (r, s') \<and> spdc_inv s'" by (simp add: returns_iff)
qed

section \<open>Properties\<close>

definition spdc_demo_env :: "nat spdc_env" where
  "spdc_demo_env = \<lparr>MXCFB_SET_WAVEFORM_MODES = 1, MXCFB_SET_TEMPERATURE = 2, MXCFB_SET_AUTO_UPDATE_MODE = 3,
     MXCFB_SET_UPDATE_SCHEME = 4, MXCFB_SEND_UPDATE = 5, MXCFB_WAIT_FOR_UPDATE_COMPLETE = 6,
     MXCFB_SET_PWRDOWN_DELAY = 7, MXCFB_GET_PWRDOWN_DELAY = 8, sizeof_waveform_modes = 4,
     sizeof_update_data = 2, sizeof_update_marker_data = 2,
     mxc_spdc_fb_set_waveform_modes = (\<lambda>d bs. d), mxc_spdc_fb_set_temperature = (\<lambda>d t. (0, d)),
     mxc_spdc_fb_set_auto_update = (\<lambda>d m. (0, d)), mxc_spdc_fb_set_upd_scheme = (\<lambda>d m. (0, d)),
     mxc_spdc_fb_send_update = (\<lambda>d bs. (0, map ((+) 1) bs, Suc d)),
     mxc_spdc_fb_wait_update_complete = (\<lambda>d bs. (0, bs, d)),
     mxc_spdc_fb_set_pwrdown_delay = (\<lambda>d t. (0, d)), mxc_spdc_get_pwrdown_delay = (\<lambda>d. 9)\<rparr>"

definition spdc_demo :: "bool \<Rightarrow> nat spdc_state" where
  "spdc_demo w = \<lparr>sp_user = \<lparr>um_byte = (\<lambda>_. 7), um_rd = (\<lambda>_. True), um_wr = (\<lambda>_. w)\<rparr>, sp_dev = 0,
     sp_opens = 1, sp_module_refs = 1\<rparr>"

text \<open>
  C30: \<open>MXCFB_SEND_UPDATE\<close> calls the frame buffer driver exactly when the request can be read,
  with the caller's bytes; the caller's memory changes only after success, where it receives the
  structure the driver filled in, and a fault in either direction is reported as \<open>-EFAULT\<close>.
\<close>

theorem spdc_send_update_spec:
  assumes "spdc_cmds_ok env" and "n = sizeof_update_data env"
    and "mxc_spdc_fb_send_update env (sp_dev s) (uread (sp_user s) arg n) = (ret, upd, dev)"
    and "length upd = n" and "n \<le> 2 ^ 32"
  shows "case spdc_test_ioctl env s (MXCFB_SEND_UPDATE env) arg of (r, s') \<Rightarrow>
      if \<not> readable (sp_user s) arg n then r = - EFAULT \<and> s' = s
      else sp_dev s' = dev \<and>
        (if ret \<noteq> 0 then r = ret \<and> sp_user s' = sp_user s
         else if writable (sp_user s) arg n then r = 0 \<and> uread (sp_user s') arg n = upd
         else r = - EFAULT)"
proof -
  have ne: "MXCFB_SEND_UPDATE env \<notin> {MXCFB_SET_WAVEFORM_MODES env, MXCFB_SET_TEMPERATURE env,
      MXCFB_SET_AUTO_UPDATE_MODE env, MXCFB_SET_UPDATE_SCHEME env}"
    using assms(1) by (auto simp: spdc_cmds_ok_def)
  have miss: "\<not> readable (sp_user s) arg n \<Longrightarrow> fst (copy_from_user (sp_user s) arg n) \<noteq> 0"
    "\<not> writable (sp_user s) arg n \<Longrightarrow> fst (copy_to_user (sp_user s) arg upd) \<noteq> 0"
    using assms(4) by (simp_all add: copy_from_user_0_iff copy_to_user_0_iff)
  have rd: "uread (uwrite (sp_user s) arg upd) arg n = upd"
    using uread_uwrite [of upd "sp_user s" arg] assms(4,5) by simp
  show ?thesis
    using ne miss rd assms(3,4)
    by (cases "readable (sp_user s) arg n"; cases "writable (sp_user s) arg n")
       (simp_all add: spdc_test_ioctl_def assms(2) [symmetric] copy_from_user_ok copy_to_user_ok case_prod_beta Let_def)
qed

theorem spdc_send_update_spec_witness:
  "case spdc_test_ioctl spdc_demo_env (spdc_demo True) (MXCFB_SEND_UPDATE spdc_demo_env) 0x100 of (r, s') \<Rightarrow>
     r = 0 \<and> uread (sp_user s') 0x100 2 = [8, 8] \<and> sp_dev s' = 1"
proof -
  have ok: "spdc_cmds_ok spdc_demo_env" by (simp add: spdc_cmds_ok_def spdc_demo_env_def)
  have up: "mxc_spdc_fb_send_update spdc_demo_env (sp_dev (spdc_demo True)) (uread (sp_user (spdc_demo True)) 0x100 2) =
      (0, [8, 8], 1)" by (simp add: spdc_demo_env_def spdc_demo_def numeral_eq_Suc)
  have acc: "readable (sp_user (spdc_demo True)) 0x100 2" "writable (sp_user (spdc_demo True)) 0x100 2"
    by (simp_all add: spdc_demo_def readable_def writable_def run_len_all)
  have "2 = sizeof_update_data spdc_demo_env" by (simp add: spdc_demo_env_def)
  from spdc_send_update_spec [OF ok this up] acc show ?thesis by (simp add: case_prod_beta)
qed

text \<open>
  \<open>MXCFB_GET_PWRDOWN_DELAY\<close> hides a fault: it returns 0 whether or not the delay could be
  stored; when the destination is not writable the caller's memory is unchanged.
\<close>

lemma spdc_get_delay_hides_fault:
  assumes "spdc_cmds_ok env"
  shows "case spdc_test_ioctl env s (MXCFB_GET_PWRDOWN_DELAY env) arg of (r, s') \<Rightarrow>
      r = 0 \<and>
      (if writable (sp_user s) arg 4
       then uread (sp_user s') arg 4 = le32 (word_of_int (mxc_spdc_get_pwrdown_delay env (sp_dev s)))
       else sp_user s' = sp_user s)"
proof -
  have ne: "MXCFB_GET_PWRDOWN_DELAY env \<notin> {MXCFB_SET_WAVEFORM_MODES env, MXCFB_SET_TEMPERATURE env,
      MXCFB_SET_AUTO_UPDATE_MODE env, MXCFB_SET_UPDATE_SCHEME env, MXCFB_SEND_UPDATE env,
      MXCFB_WAIT_FOR_UPDATE_COMPLETE env, MXCFB_SET_PWRDOWN_DELAY env}"
    using assms by (auto simp: spdc_cmds_ok_def)
  show ?thesis
    using ne uread_uwrite [of "le32 (word_of_int (mxc_spdc_get_pwrdown_delay env (sp_dev s)))" "sp_user s" arg]
    by (simp add: spdc_test_ioctl_def put_user_def writable_def Let_def case_prod_beta)
qed

text \<open>
  Every sequence of \<open>open\<close>, \<open>ioctl\<close> and \<open>close\<close> calls returns, and the module
  reference count equals the number of open files throughout, so the module cannot be unloaded
  while a file is open.
\<close>

lemma spdc_refs_balanced:
  assumes "spdc_inv s" and "adm_calls (spdc_step env) spdc_adm s cs"
  shows "\<exists>rs s'. run_calls (spdc_step env) s cs = Done (rs, s') \<and> length rs = length cs \<and>
      sp_module_refs s' = sp_opens s' \<and> 0 \<le> sp_opens s'"
  using spdcd.run_calls_ok [OF assms] by (auto simp: spdc_inv_def)

end
