(* ===== verification/Driver_Abi.thy ===== *)
theory Driver_Abi
  imports Scc_Driver Scc2_Driver Rng_Driver Memalloc
begin

unbundle bit_operations_syntax

text \<open>
  The structures that user programs exchange with the RNG, SCC and SCC2 test drivers
  (\<^verbatim>\<open>src/include/rng_test_driver.h\<close>, \<^verbatim>\<open>src/include/scc_test_driver.h\<close> and
  \<^verbatim>\<open>src/include/scc2_test_driver.h\<close>): their declarations as the headers have them, the layout the
  target's EABI gives them, the bytes a program puts in memory when it fills one in, and the
  agreement of that layout with the \<open>ioctl\<close> numbers and with the word positions the driver models use.
\<close>

section \<open>Declarations and layout\<close>

text \<open>The member types: everything is a 32-bit word except 64-bit integers and two-element word arrays.\<close>

datatype cty = CInt | CU32 | CPtr | CEnum | CU64 | CU32x2

datatype member = Fld string cty | AnonUnion "(string \<times> cty) list list"

type_synonym cstruct = "member list"

fun csize :: "cty \<Rightarrow> nat" where
  "csize CU64 = 8"
| "csize CU32x2 = 8"
| "csize _ = 4"

fun calign :: "cty \<Rightarrow> nat" where
  "calign CU64 = 8"
| "calign _ = 4"

definition align_up :: "nat \<Rightarrow> nat \<Rightarrow> nat" where
  "align_up off a = (off + a - 1) div a * a"

text \<open>The offsets of consecutive members from \<open>off\<close> on, and the offset behind them.\<close>

fun place :: "nat \<Rightarrow> (string \<times> cty) list \<Rightarrow> (string \<times> nat \<times> cty) list \<times> nat" where
  "place off [] = ([], off)"
| "place off ((n, t) # ms) =
     (let o' = align_up off (calign t); (fs, e) = place (o' + csize t) ms in ((n, o', t) # fs, e))"

definition fields_align :: "(string \<times> cty) list \<Rightarrow> nat" where
  "fields_align ms = fold (\<lambda>(n, t) a. max a (calign t)) ms 1"

text \<open>An anonymous union starts aligned for all its alternatives and is as long as the longest.\<close>

definition union_align :: "(string \<times> cty) list list \<Rightarrow> nat" where
  "union_align us = fold (\<lambda>ms a. max a (fields_align ms)) us 1"

definition union_end :: "nat \<Rightarrow> (string \<times> cty) list list \<Rightarrow> nat" where
  "union_end off us = fold (\<lambda>ms e. max e (align_up (snd (place off ms)) (fields_align ms))) us off"

fun place_members :: "nat \<Rightarrow> cstruct \<Rightarrow> (string \<times> nat \<times> cty) list \<times> nat" where
  "place_members off [] = ([], off)"
| "place_members off (Fld n t # ms) =
     (let o' = align_up off (calign t); (fs, e) = place_members (o' + csize t) ms in ((n, o', t) # fs, e))"
| "place_members off (AnonUnion us # ms) =
     (let o' = align_up off (union_align us);
          (fs, e) = place_members (align_up (union_end o' us) (union_align us)) ms
      in (concat (map (\<lambda>u. fst (place o' u)) us) @ fs, e))"

definition member_align :: "member \<Rightarrow> nat" where
  "member_align m = (case m of Fld _ t \<Rightarrow> calign t | AnonUnion us \<Rightarrow> union_align us)"

definition sizeof :: "cstruct \<Rightarrow> nat" where
  "sizeof ms = align_up (snd (place_members 0 ms)) (fold (\<lambda>m a. max a (member_align m)) ms 1)"

section \<open>The headers' structures\<close>

definition rng_test_add_entropy_t :: cstruct where
  "rng_test_add_entropy_t = [Fld ''function_return_code'' CEnum, Fld ''count_bytes'' CU32, Fld ''entropy'' CPtr]"

definition rng_test_get_random_t :: cstruct where
  "rng_test_get_random_t = [Fld ''count_bytes'' CInt, Fld ''random'' CPtr, Fld ''isr_flag'' CInt,
     Fld ''function_return_code'' CEnum]"

definition rng_test_reg_access_t :: cstruct where
  "rng_test_reg_access_t = [Fld ''reg_offset'' CU32, Fld ''reg_data'' CU32, Fld ''function_return_code'' CEnum]"

definition scc_configuration_access :: cstruct where
  "scc_configuration_access = [Fld ''driver_major_version'' CInt, Fld ''driver_minor_version'' CInt,
     Fld ''scm_version'' CInt, Fld ''smn_version'' CInt, Fld ''block_size'' CInt, Fld ''black_ram_size'' CInt,
     Fld ''red_ram_size'' CInt]"

definition scc_reg_access :: cstruct where
  "scc_reg_access = [Fld ''reg_offset'' CU32, Fld ''reg_data'' CU32, Fld ''function_return_code'' CEnum]"

definition scc_encrypt_decrypt :: cstruct where
  "scc_encrypt_decrypt = [Fld ''data_in'' CPtr, Fld ''data_in_length'' CU32, Fld ''data_out'' CPtr,
     Fld ''data_out_length'' CU32, Fld ''crypto_mode'' CEnum, Fld ''check_mode'' CEnum,
     Fld ''init_vector'' CU32x2, Fld ''wait_mode'' CEnum, Fld ''function_return_code'' CEnum,
     Fld ''verify_mode'' CEnum]"

definition scc_alloc_slot_access :: cstruct where
  "scc_alloc_slot_access = [Fld ''value_size_bytes'' CU32, Fld ''slot'' CU32, Fld ''owner_id'' CU64, Fld ''scc_status'' CEnum]"

definition scc_dealloc_slot_access :: cstruct where
  "scc_dealloc_slot_access = [Fld ''slot'' CU32, Fld ''scc_status'' CEnum, Fld ''owner_id'' CU64]"

definition scc_load_slot_access :: cstruct where
  "scc_load_slot_access = [Fld ''slot'' CU32, Fld ''key_is_red'' CU32, Fld ''owner_id'' CU64, Fld ''key_data'' CPtr,
     Fld ''key_data_length'' CU32, Fld ''scc_status'' CEnum]"

definition scc_encrypt_slot_access :: cstruct where
  "scc_encrypt_slot_access = [Fld ''slot'' CU32, Fld ''key_data'' CPtr, Fld ''owner_id'' CU64,
     Fld ''key_data_length'' CU32, Fld ''scc_status'' CEnum]"

definition scc_get_slot_info_access :: cstruct where
  "scc_get_slot_info_access = [Fld ''slot'' CU32, Fld ''address'' CU32, Fld ''owner_id'' CU64,
     Fld ''value_size_bytes'' CU32, Fld ''slot_size_bytes'' CU32, Fld ''scc_status'' CEnum]"

definition scc_partition_access :: cstruct where
  "scc_partition_access = [Fld ''virt_address'' CU32,
     AnonUnion [[(''smid'', CU32), (''part_no'', CU32), (''phys_address'', CU32)],
                [(''umid'', CPtr), (''permissions'', CU32)]],
     Fld ''scc_status'' CEnum]"

definition scc_part_cipher_access :: cstruct where
  "scc_part_cipher_access = [Fld ''virt_address'' CU32, Fld ''red_offset'' CU32, Fld ''black_address'' CPtr,
     Fld ''size_bytes'' CU32, Fld ''iv'' CU64, Fld ''scc_status'' CEnum]"

lemmas abi_struct_defs = rng_test_add_entropy_t_def rng_test_get_random_t_def rng_test_reg_access_t_def
  scc_configuration_access_def scc_reg_access_def scc_encrypt_decrypt_def
  scc_alloc_slot_access_def scc_dealloc_slot_access_def scc_load_slot_access_def scc_encrypt_slot_access_def
  scc_get_slot_info_access_def scc_partition_access_def scc_part_cipher_access_def

section \<open>The commands and their structures\<close>

definition rng_cmds :: "(u32 \<times> cstruct) list" where
  "rng_cmds = [(RNG_TEST_READ_REG, rng_test_reg_access_t), (RNG_TEST_WRITE_REG, rng_test_reg_access_t),
     (RNG_TEST_ADD_ENTROPY, rng_test_add_entropy_t), (RNG_TEST_GET_RANDOM, rng_test_get_random_t)]"

definition scc_cmds :: "(u32 \<times> cstruct) list" where
  "scc_cmds = [(SCC_TEST_GET_CONFIGURATION, scc_configuration_access), (SCC_TEST_READ_REG, scc_reg_access),
     (SCC_TEST_WRITE_REG, scc_reg_access), (SCC_TEST_ENCRYPT, scc_encrypt_decrypt),
     (SCC_TEST_DECRYPT, scc_encrypt_decrypt), (SCC_TEST_SET_ALARM, []), (SCC_TEST_ZEROIZE, [Fld ''scc_return_t'' CEnum]),
     (SCC_TEST_ALLOC_SLOT, scc_alloc_slot_access), (SCC_TEST_DEALLOC_SLOT, scc_dealloc_slot_access),
     (SCC_TEST_LOAD_SLOT, scc_load_slot_access), (SCC_TEST_GET_SLOT_INFO, scc_get_slot_info_access),
     (SCC_TEST_ENCRYPT_SLOT, scc_encrypt_slot_access)]"

definition scc2_cmds :: "(u32 \<times> cstruct) list" where
  "scc2_cmds = [(SCC2_TEST_GET_CONFIGURATION, scc_configuration_access), (SCC2_TEST_READ_REG, scc_reg_access),
     (SCC2_TEST_WRITE_REG, scc_reg_access), (SCC2_TEST_SET_ALARM, []), (SCC2_TEST_ALLOC_PART, scc_partition_access),
     (SCC2_TEST_ENGAGE_PART, scc_partition_access), (SCC2_TEST_ENCRYPT_PART, scc_part_cipher_access),
     (SCC2_TEST_DECRYPT_PART, scc_part_cipher_access), (SCC2_TEST_RELEASE_PART, scc_partition_access),
     (SCC2_TEST_LOAD_PART, scc_part_cipher_access), (SCC2_TEST_READ_PART, scc_part_cipher_access)]"

text \<open>
  A command table is sound: each number carries the size of its structure, and no two commands of
  a driver have the same number, so that the \<open>switch\<close> reaches every handler.
\<close>

definition cmds_ok :: "(u32 \<times> cstruct) list \<Rightarrow> bool" where
  "cmds_ok cs \<longleftrightarrow> list_all (\<lambda>(c, st). unat (ioc_size c) = sizeof st) cs \<and> distinct (map fst cs)"

lemma abi_sizes:
  "sizeof rng_test_add_entropy_t = 12" "sizeof rng_test_get_random_t = 16" "sizeof rng_test_reg_access_t = 12"
  "sizeof scc_configuration_access = 28" "sizeof scc_reg_access = 12" "sizeof scc_encrypt_decrypt = 44"
  "sizeof scc_alloc_slot_access = 24" "sizeof scc_dealloc_slot_access = 16" "sizeof scc_load_slot_access = 32"
  "sizeof scc_encrypt_slot_access = 24" "sizeof scc_get_slot_info_access = 32" "sizeof scc_partition_access = 20"
  "sizeof scc_part_cipher_access = 32" "sizeof [] = 0" "sizeof [Fld n CEnum] = 4"
  by code_simp+

text \<open>
  Every command number carries the size of the structure the header declares for it, and no two commands
  of a driver collide, so that the \<open>switch\<close> of each handler reaches every case.
\<close>
lemma abi_consistent: "cmds_ok rng_cmds" "cmds_ok scc_cmds" "cmds_ok scc2_cmds"
  by (simp_all add: cmds_ok_def rng_cmds_def scc_cmds_def scc2_cmds_def abi_sizes rng_cmd_defs scc_cmd_defs scc2_cmd_defs ioc_defs)

section \<open>Filled-in structures\<close>

text \<open>The bytes of a structure without unions whose members have the values \<open>v\<close>; padding is zero.\<close>

definition put :: "cty \<Rightarrow> u64 \<Rightarrow> u8 list" where
  "put t x = (if csize t = 4 then le32 (ucast x) else le32 (ucast x) @ le32 (ucast (drop_bit 32 x)))"

fun fill :: "(string \<Rightarrow> u64) \<Rightarrow> nat \<Rightarrow> (string \<times> cty) list \<Rightarrow> u8 list" where
  "fill v off [] = []"
| "fill v off ((n, t) # ms) =
     (let o' = align_up off (calign t) in replicate (o' - off) 0 @ put t (v n) @ fill v (o' + csize t) ms)"

lemma length_put [simp]: "length (put t x) = csize t"
  by (cases t) (auto simp: put_def)

lemma calign_pos: "0 < calign t" and calign_4: "4 dvd calign t"
  by (cases t; simp)+

lemma align_up_ge: "0 < a \<Longrightarrow> off \<le> align_up off a"
  using mod_less_divisor [of a "off + a - 1"] div_mult_mod_eq [of "off + a - 1" a]
  unfolding align_up_def by linarith

lemma align_up_dvd: "a dvd align_up off a"
  by (simp add: align_up_def)

text \<open>Every placed member sits at its offset in the filled-in structure.\<close>

lemma fill_split:
  "(n, p, t) \<in> set (fst (place off ms)) \<Longrightarrow>
     \<exists>xs ys. fill v off ms = xs @ put t (v n) @ ys \<and> off + length xs = p \<and> 4 dvd p"
proof (induction off ms rule: place.induct)
  case (2 off m u ms)
  define o' where "o' = align_up off (calign u)"
  have ge: "off \<le> o'" unfolding o'_def by (rule align_up_ge [OF calign_pos])
  consider "n = m" "p = o'" "t = u" | "(n, p, t) \<in> set (fst (place (o' + csize u) ms))"
    using "2.prems" by (auto simp: Let_def o'_def case_prod_beta)
  then show ?case
  proof cases
    case 1
    have "4 dvd o'" unfolding o'_def using calign_4 align_up_dvd dvd_trans by blast
    then show ?thesis using 1 ge
      by (intro exI [of _ "replicate (o' - off) 0"] exI [of _ "fill v (o' + csize u) ms"]) (simp add: Let_def o'_def)
  next
    case 2
    then obtain xs ys where "fill v (o' + csize u) ms = xs @ put t (v n) @ ys" "o' + csize u + length xs = p" "4 dvd p"
      using "2.IH" [OF o'_def] by blast
    then show ?thesis using ge
      by (intro exI [of _ "replicate (o' - off) 0 @ put u (v m) @ xs"] exI [of _ ys]) (simp add: Let_def o'_def [symmetric])
  qed
qed simp

lemma place_members_fields: "place_members off (map (\<lambda>(n, t). Fld n t) ms) = place off ms"
  by (induction off ms rule: place.induct) (simp_all add: Let_def)

lemma ucast_halves: "ucast (ucast x :: u32) OR push_bit 32 (ucast (ucast (drop_bit 32 x) :: u32)) = (x :: u64)"
  (is "?l = x")
proof (rule bit_word_eqI)
  fix k
  assume "k < LENGTH(64)"
  then show "bit ?l k = bit x k"
    by (cases "k < 32") (auto simp: bit_simps)
qed

text \<open>
  What a user program fills into a structure by member name is what a handler reads at the member's
  word: for every union-free declaration and all member values, the word at a member's offset is
  the member's value, and for 64-bit members the two words are.
\<close>

lemma abi_fill_read:
  assumes "(n, p, t) \<in> set (fst (place_members 0 (map (\<lambda>(n, t). Fld n t) ms)))"
  shows "fld (fill v 0 ms @ pad) (p div 4) = ucast (v n)"
    and "csize t = 8 \<Longrightarrow> fld64 (fill v 0 ms @ pad) (p div 4) = v n"
proof -
  obtain xs ys where f: "fill v 0 ms = xs @ put t (v n) @ ys" and p: "length xs = p" "4 dvd p"
    using fill_split [of n p t 0 ms v] assms by (auto simp: place_members_fields)
  have at: "drop (4 * (p div 4)) (fill v 0 ms @ pad) = put t (v n) @ ys @ pad" using p f by simp
  show lo: "fld (fill v 0 ms @ pad) (p div 4) = ucast (v n)" unfolding fld_def at by (simp add: put_def)
  assume c8: "csize t = 8"
  have "drop (4 * (p div 4 + 1)) (fill v 0 ms @ pad) = drop 4 (drop (4 * (p div 4)) (fill v 0 ms @ pad))"
    unfolding drop_drop by (simp add: add.commute)
  also have "\<dots> = le32 (ucast (drop_bit 32 (v n))) @ ys @ pad" unfolding at using c8 by (simp add: put_def)
  finally have hi: "fld (fill v 0 ms @ pad) (p div 4 + 1) = ucast (drop_bit 32 (v n))" unfolding fld_def by simp
  show "fld64 (fill v 0 ms @ pad) (p div 4) = v n" unfolding fld64_def lo hi by (rule ucast_halves)
qed

text \<open>
  Storing the word of a 4-byte member is filling in the structure with another value of the member.
\<close>

lemma fill_cong: "(\<And>n. n \<in> fst ` set ms \<Longrightarrow> v n = v' n) \<Longrightarrow> fill v off ms = fill v' off ms"
  by (induction off ms rule: place.induct) (simp_all add: Let_def)

lemma length_fill_values: "length (fill v off ms) = length (fill v' off ms)"
  by (induction off ms rule: place.induct) (simp_all add: Let_def)

lemma place_name: "(n, p, t) \<in> set (fst (place off ms)) \<Longrightarrow> n \<in> fst ` set ms"
  by (induction off ms rule: place.induct) (auto simp: Let_def case_prod_beta)

lemma fill_split_upd:
  "(n, p, t) \<in> set (fst (place off ms)) \<Longrightarrow> distinct (map fst ms) \<Longrightarrow>
     \<exists>xs ys. off + length xs = p \<and> (\<forall>x. fill (v(n := x)) off ms = xs @ put t x @ ys)"
proof (induction off ms rule: place.induct)
  case (2 off m u ms)
  define o' where "o' = align_up off (calign u)"
  have ge: "off \<le> o'" unfolding o'_def by (rule align_up_ge [OF calign_pos])
  have d: "distinct (map fst ms)" using "2.prems"(2) by simp
  consider "n = m" "p = o'" "t = u" | "(n, p, t) \<in> set (fst (place (o' + csize u) ms))"
    using "2.prems"(1) by (auto simp: Let_def o'_def case_prod_beta)
  then show ?case
  proof cases
    case 1
    have "fill (v(n := x)) (o' + csize u) ms = fill v (o' + csize u) ms" for x
      by (rule fill_cong) (use "2.prems"(2) 1(1) in auto)
    then show ?thesis using 1 ge
      by (intro exI [of _ "replicate (o' - off) 0"] exI [of _ "fill v (o' + csize u) ms"]) (simp add: Let_def o'_def fun_upd_same del: fun_upd_apply)
  next
    case 2
    then obtain xs ys where xy: "o' + csize u + length xs = p" "\<forall>x. fill (v(n := x)) (o' + csize u) ms = xs @ put t x @ ys"
      using "2.IH" [OF o'_def] d by blast
    have "n \<in> fst ` set ms" using 2 by (rule place_name)
    then have "n \<noteq> m" using "2.prems"(2) by auto
    then show ?thesis using ge xy
      by (intro exI [of _ "replicate (o' - off) 0 @ put u (v m) @ xs"] exI [of _ ys]) (simp add: Let_def o'_def [symmetric] fun_upd_other del: fun_upd_apply)
  qed
qed simp

lemma set_fld_fill:
  assumes "(n, 4 * k, t) \<in> set (fst (place 0 ms))" and "csize t = 4" and "distinct (map fst ms)"
  shows "set_fld (fill v 0 ms @ pad) k w = fill (v(n := ucast w)) 0 ms @ pad"
proof -
  obtain xs ys where len: "length xs = 4 * k" and f: "\<And>x. fill (v(n := x)) 0 ms = xs @ put t x @ ys"
    using fill_split_upd [OF assms(1,3), of v] by auto
  have "fill v 0 ms = xs @ put t (v n) @ ys" using f [of "v n"] by simp
  moreover have "ucast (ucast w :: u64) = w" by (rule bit_word_eqI) (simp add: bit_simps)
  then have "put t (ucast w) = le32 w" using assms(2) by (simp add: put_def)
  moreover have "length (put t (v n)) = 4" using assms(2) by simp
  ultimately show ?thesis using len by (simp add: f set_fld_def)
qed

section \<open>A structure in the memory of a program\<close>

fun members :: "cstruct \<Rightarrow> (string \<times> cty) list" where
  "members (Fld n t # ms) = (n, t) # members ms"
| "members _ = []"

text \<open>The structure at \<open>a\<close> holds the values \<open>v\<close>, with \<open>pad\<close> behind the last member.\<close>

definition in_user :: "umem \<Rightarrow> u32 \<Rightarrow> cstruct \<Rightarrow> (string \<Rightarrow> u64) \<Rightarrow> u8 list \<Rightarrow> bool" where
  "in_user u a st v pad \<longleftrightarrow>
     uread u a (sizeof st) = fill v 0 (members st) @ pad \<and> readable u a (sizeof st) \<and> writable u a (sizeof st)"

abbreviation ret32 :: "int \<Rightarrow> u64" where "ret32 r \<equiv> ucast (word_of_int r :: u32)"

lemma in_user_read: "in_user u a st v pad \<Longrightarrow> copy_from_user u a (sizeof st) = (0, fill v 0 (members st) @ pad)"
  by (simp add: in_user_def copy_from_user_ok)

lemma in_user_reply:
  assumes "in_user u a st v pad" and "sizeof st \<le> 2 ^ 32"
  shows "copy_to_user u a (fill v' 0 (members st) @ pad) = (0, uwrite u a (fill v' 0 (members st) @ pad))"
    and "in_user (uwrite u a (fill v' 0 (members st) @ pad)) a st v' pad"
proof -
  let ?bs = "fill v' 0 (members st) @ pad"
  have "length (fill v 0 (members st) @ pad) = sizeof st" using assms(1) by (metis in_user_def length_uread)
  then have len: "length ?bs = sizeof st" using length_fill_values [of v 0 "members st" v'] by simp
  show "copy_to_user u a ?bs = (0, uwrite u a ?bs)"
    using assms(1) len by (intro copy_to_user_ok) (simp add: in_user_def)
  show "in_user (uwrite u a ?bs) a st v' pad"
    using assms uread_uwrite [of ?bs u a] len by (simp add: in_user_def)
qed

text \<open>Where the members of the key slot structures are.\<close>

lemma slot_members:
  "set (fst (place 0 (members scc_alloc_slot_access))) =
     {(''value_size_bytes'', 4 * 0, CU32), (''slot'', 4 * 1, CU32), (''owner_id'', 4 * 2, CU64), (''scc_status'', 4 * 4, CEnum)}"
  "set (fst (place 0 (members scc_dealloc_slot_access))) =
     {(''slot'', 4 * 0, CU32), (''scc_status'', 4 * 1, CEnum), (''owner_id'', 4 * 2, CU64)}"
  "set (fst (place 0 (members scc_load_slot_access))) =
     {(''slot'', 4 * 0, CU32), (''key_is_red'', 4 * 1, CU32), (''owner_id'', 4 * 2, CU64), (''key_data'', 4 * 4, CPtr),
      (''key_data_length'', 4 * 5, CU32), (''scc_status'', 4 * 6, CEnum)}"
  "set (fst (place 0 (members scc_get_slot_info_access))) =
     {(''slot'', 4 * 0, CU32), (''address'', 4 * 1, CU32), (''owner_id'', 4 * 2, CU64), (''value_size_bytes'', 4 * 4, CU32),
      (''slot_size_bytes'', 4 * 5, CU32), (''scc_status'', 4 * 6, CEnum)}"
  by (simp_all add: abi_struct_defs align_up_def)

lemma slot_distinct:
  "distinct (map fst (members scc_alloc_slot_access))" "distinct (map fst (members scc_dealloc_slot_access))"
  "distinct (map fst (members scc_load_slot_access))" "distinct (map fst (members scc_get_slot_info_access))"
  by (simp_all add: abi_struct_defs)

lemma slot_words:
  fixes v :: "string \<Rightarrow> u64"
  shows "\<And>k n t. (n, 4 * k, t) \<in> set (fst (place 0 ms)) \<Longrightarrow> fld (fill v 0 ms @ pad) k = ucast (v n)"
    and "\<And>k n t. (n, 4 * k, t) \<in> set (fst (place 0 ms)) \<Longrightarrow> csize t = 8 \<Longrightarrow> fld64 (fill v 0 ms @ pad) k = v n"
  using abi_fill_read [of _ _ _ ms v pad] unfolding place_members_fields by fastforce+

lemma slot_cmds:
  "scc_test_ioctl env s SCC_TEST_ALLOC_SLOT arg = Done (scc_test_alloc_slot env s arg)"
  "scc_test_ioctl env s SCC_TEST_DEALLOC_SLOT arg = Done (scc_test_dealloc_slot env s arg)"
  "scc_test_ioctl env s SCC_TEST_LOAD_SLOT arg = Done (scc_test_load_slot env s arg)"
  "scc_test_ioctl env s SCC_TEST_GET_SLOT_INFO arg = Done (scc_test_get_slot_info env s arg)"
  by (simp_all add: scc_test_ioctl_def scc_cmd_defs ioc_defs)

lemma alloc_slot_by_name:
  assumes st: "in_user (ss_user s) arg scc_alloc_slot_access v pad"
    and dr: "se_alloc_slot env (ss_dev s) (ucast (v ''value_size_bytes'')) (v ''owner_id'') (ucast (v ''slot'')) = (ret, slot, dev)"
  shows "\<exists>s'. scc_test_ioctl env s SCC_TEST_ALLOC_SLOT arg = Done (0, s') \<and> ss_dev s' = dev \<and>
    in_user (ss_user s') arg scc_alloc_slot_access (v(''slot'' := ucast slot, ''scc_status'' := ret32 ret)) pad"
proof -
  let ?acc = "fill v 0 (members scc_alloc_slot_access) @ pad"
  note w = slot_words [where ms = "members scc_alloc_slot_access" and v = v and pad = pad, unfolded slot_members]
  have rd: "fld ?acc 0 = ucast (v ''value_size_bytes'')" "fld ?acc 1 = ucast (v ''slot'')" "fld64 ?acc 2 = v ''owner_id''"
    by (rule w(1), blast, rule w(1), blast, rule w(2), blast, simp)
  have up: "set_fld (set_fld ?acc 1 slot) 4 (word_of_int ret) =
      fill (v(''slot'' := ucast slot, ''scc_status'' := ret32 ret)) 0 (members scc_alloc_slot_access) @ pad"
    by (subst set_fld_fill [where n = "''slot''" and t = CU32], simp only: slot_members, blast, simp, rule slot_distinct,
        rule set_fld_fill [where t = CEnum], simp only: slot_members, blast, simp, rule slot_distinct)
  note io = in_user_read [OF st, unfolded abi_sizes] in_user_reply [OF st, unfolded abi_sizes]
  show ?thesis
    unfolding slot_cmds scc_test_alloc_slot_def Let_def io(1) prod.case rd dr up
    by (simp add: io)
qed

lemma dealloc_slot_by_name:
  assumes st: "in_user (ss_user s) arg scc_dealloc_slot_access v pad"
    and dr: "se_dealloc_slot env (ss_dev s) (v ''owner_id'') (ucast (v ''slot'')) = (ret, dev)"
  shows "\<exists>s'. scc_test_ioctl env s SCC_TEST_DEALLOC_SLOT arg = Done (0, s') \<and> ss_dev s' = dev \<and>
    in_user (ss_user s') arg scc_dealloc_slot_access (v(''scc_status'' := ret32 ret)) pad"
proof -
  let ?acc = "fill v 0 (members scc_dealloc_slot_access) @ pad"
  note w = slot_words [where ms = "members scc_dealloc_slot_access" and v = v and pad = pad, unfolded slot_members]
  have rd: "fld ?acc 0 = ucast (v ''slot'')" "fld64 ?acc 2 = v ''owner_id''"
    by (rule w(1), blast, rule w(2), blast, simp)
  have up: "set_fld ?acc 1 (word_of_int ret) = fill (v(''scc_status'' := ret32 ret)) 0 (members scc_dealloc_slot_access) @ pad"
    by (rule set_fld_fill [where t = CEnum], simp only: slot_members, blast, simp, rule slot_distinct)
  note io = in_user_read [OF st, unfolded abi_sizes] in_user_reply [OF st, unfolded abi_sizes]
  show ?thesis
    unfolding slot_cmds scc_test_dealloc_slot_def Let_def io(1) prod.case rd dr up by (simp add: io)
qed

lemma slot_info_by_name:
  assumes st: "in_user (ss_user s) arg scc_get_slot_info_access v pad"
    and dr: "se_get_slot_info env (ss_dev s) (v ''owner_id'') (ucast (v ''slot''))
      (ucast (v ''address''), ucast (v ''value_size_bytes''), ucast (v ''slot_size_bytes'')) = (ret, (address, vsize, ssize), dev)"
  shows "\<exists>s'. scc_test_ioctl env s SCC_TEST_GET_SLOT_INFO arg = Done (0, s') \<and> ss_dev s' = dev \<and>
    in_user (ss_user s') arg scc_get_slot_info_access
      (v(''address'' := ucast address, ''value_size_bytes'' := ucast vsize, ''slot_size_bytes'' := ucast ssize,
         ''scc_status'' := ret32 ret)) pad"
proof -
  let ?acc = "fill v 0 (members scc_get_slot_info_access) @ pad"
  note w = slot_words [where ms = "members scc_get_slot_info_access" and v = v and pad = pad, unfolded slot_members]
  have rd: "fld ?acc 0 = ucast (v ''slot'')" "fld ?acc 1 = ucast (v ''address'')" "fld64 ?acc 2 = v ''owner_id''"
      "fld ?acc 4 = ucast (v ''value_size_bytes'')" "fld ?acc 5 = ucast (v ''slot_size_bytes'')"
    by (rule w(1) [where t = CU32] w(2) [where t = CU64] w(1) [where t = CPtr]; simp)+
  note set = set_fld_fill [where ms = "members scc_get_slot_info_access" and pad = pad, OF _ _ slot_distinct(4), unfolded slot_members]
  have up: "set_fld (set_fld (set_fld (set_fld ?acc 1 address) 4 vsize) 5 ssize) 6 (word_of_int ret) =
      fill (v(''address'' := ucast address, ''value_size_bytes'' := ucast vsize, ''slot_size_bytes'' := ucast ssize,
         ''scc_status'' := ret32 ret)) 0 (members scc_get_slot_info_access) @ pad"
    by (subst set [where n = "''address''" and t = CU32], simp, simp, subst set [where n = "''value_size_bytes''" and t = CU32], simp, simp,
        subst set [where n = "''slot_size_bytes''" and t = CU32], simp, simp, rule set [where t = CEnum], simp, simp)
  note io = in_user_read [OF st, unfolded abi_sizes] in_user_reply [OF st, unfolded abi_sizes]
  show ?thesis
    unfolding slot_cmds scc_test_get_slot_info_def Let_def io(1) prod.case rd dr up by (simp add: io)
qed

text \<open>Loading a key: \<open>key_is_red\<close> chooses between storing the key as it is and decrypting it into the slot.\<close>

lemma load_slot_by_name:
  assumes st: "in_user (ss_user s) arg scc_load_slot_access v pad" and km: "ss_kmalloc s = []"
    and gi: "se_get_slot_info env (ss_dev s) (v ''owner_id'') (ucast (v ''slot'')) (0, 0, 0) = (se_RET_OK env, info, dev0)"
    and key: "readable (ss_user s) (ucast (v ''key_data'')) n" "n = unat (ucast (v ''key_data_length'') :: u32)"
    and dr: "(if (ucast (v ''key_is_red'') :: u32) \<noteq> 0 then se_load_slot env else se_decrypt_slot env) dev0 (v ''owner_id'') (ucast (v ''slot''))
      (uread (ss_user s) (ucast (v ''key_data'')) n) = (ret, dev)"
  shows "\<exists>s'. scc_test_ioctl env s SCC_TEST_LOAD_SLOT arg = Done (0, s') \<and> ss_dev s' = dev \<and>
    in_user (ss_user s') arg scc_load_slot_access (v(''scc_status'' := ret32 ret)) pad"
proof -
  let ?acc = "fill v 0 (members scc_load_slot_access) @ pad"
  note w = slot_words [where ms = "members scc_load_slot_access" and v = v and pad = pad, unfolded slot_members]
  have rd: "fld ?acc 0 = ucast (v ''slot'')" "fld ?acc 1 = ucast (v ''key_is_red'')" "fld64 ?acc 2 = v ''owner_id''"
      "fld ?acc 4 = ucast (v ''key_data'')" "fld ?acc 5 = ucast (v ''key_data_length'')"
    by (rule w(1) [where t = CU32] w(2) [where t = CU64] w(1) [where t = CPtr]; simp)+
  have up: "set_fld ?acc 6 (word_of_int ret) = fill (v(''scc_status'' := ret32 ret)) 0 (members scc_load_slot_access) @ pad"
    by (rule set_fld_fill [where t = CEnum], simp add: slot_members, simp, rule slot_distinct)
  note io = in_user_read [OF st, unfolded abi_sizes] in_user_reply [OF st, unfolded abi_sizes]
  have k: "copy_from_user (ss_user s) (ucast (v ''key_data'')) (unat (ucast (v ''key_data_length'') :: u32)) =
      (0, uread (ss_user s) (ucast (v ''key_data'')) n)"
    using copy_from_user_ok [OF key(1)] key(2) by simp
  show ?thesis
    using dr km unfolding slot_cmds scc_test_load_slot_def Let_def io(1) prod.case rd gi
    by (auto simp: kmalloc_next_def k up io split: if_splits)
qed

section \<open>Properties\<close>

text \<open>
  C39: The key slot commands seen from the program that issues them. When it fills in the structure of the
  header by member name, \<open>SCC_TEST_ALLOC_SLOT\<close>, \<open>SCC_TEST_DEALLOC_SLOT\<close>, \<open>SCC_TEST_GET_SLOT_INFO\<close> and
  \<open>SCC_TEST_LOAD_SLOT\<close> call the SCC driver with exactly these members, and afterwards the members that report
  results hold what the driver returned, while the other members and the padding are as they were.
\<close>

theorem scc_slots_by_name:
  "(in_user (ss_user s) arg scc_alloc_slot_access v pad \<and>
    se_alloc_slot env (ss_dev s) (ucast (v ''value_size_bytes'')) (v ''owner_id'') (ucast (v ''slot'')) = (ret, slot, dev) \<longrightarrow>
    (\<exists>s'. scc_test_ioctl env s SCC_TEST_ALLOC_SLOT arg = Done (0, s') \<and> ss_dev s' = dev \<and>
      in_user (ss_user s') arg scc_alloc_slot_access (v(''slot'' := ucast slot, ''scc_status'' := ret32 ret)) pad)) \<and>
   (in_user (ss_user s) arg scc_dealloc_slot_access v pad \<and>
    se_dealloc_slot env (ss_dev s) (v ''owner_id'') (ucast (v ''slot'')) = (ret, dev) \<longrightarrow>
    (\<exists>s'. scc_test_ioctl env s SCC_TEST_DEALLOC_SLOT arg = Done (0, s') \<and> ss_dev s' = dev \<and>
      in_user (ss_user s') arg scc_dealloc_slot_access (v(''scc_status'' := ret32 ret)) pad)) \<and>
   (in_user (ss_user s) arg scc_get_slot_info_access v pad \<and>
    se_get_slot_info env (ss_dev s) (v ''owner_id'') (ucast (v ''slot''))
      (ucast (v ''address''), ucast (v ''value_size_bytes''), ucast (v ''slot_size_bytes'')) = (ret, (address, vsize, ssize), dev) \<longrightarrow>
    (\<exists>s'. scc_test_ioctl env s SCC_TEST_GET_SLOT_INFO arg = Done (0, s') \<and> ss_dev s' = dev \<and>
      in_user (ss_user s') arg scc_get_slot_info_access
        (v(''address'' := ucast address, ''value_size_bytes'' := ucast vsize, ''slot_size_bytes'' := ucast ssize,
           ''scc_status'' := ret32 ret)) pad)) \<and>
   (in_user (ss_user s) arg scc_load_slot_access v pad \<and> ss_kmalloc s = [] \<and>
    se_get_slot_info env (ss_dev s) (v ''owner_id'') (ucast (v ''slot'')) (0, 0, 0) = (se_RET_OK env, info, dev0) \<and>
    n = unat (ucast (v ''key_data_length'') :: u32) \<and> readable (ss_user s) (ucast (v ''key_data'')) n \<and>
    (if (ucast (v ''key_is_red'') :: u32) \<noteq> 0 then se_load_slot env else se_decrypt_slot env) dev0 (v ''owner_id'') (ucast (v ''slot''))
      (uread (ss_user s) (ucast (v ''key_data'')) n) = (ret, dev) \<longrightarrow>
    (\<exists>s'. scc_test_ioctl env s SCC_TEST_LOAD_SLOT arg = Done (0, s') \<and> ss_dev s' = dev \<and>
      in_user (ss_user s') arg scc_load_slot_access (v(''scc_status'' := ret32 ret)) pad))"
  using alloc_slot_by_name [of s arg v pad env ret slot dev] dealloc_slot_by_name [of s arg v pad env ret dev]
    slot_info_by_name [of s arg v pad env ret address vsize ssize dev] load_slot_by_name [of s arg v pad env info dev0 n ret dev]
  by blast

definition slot_values :: "string \<Rightarrow> u64" where
  "slot_values = (\<lambda>n. if n = ''value_size_bytes'' then 16 else if n = ''owner_id'' then 0x1122334455667788 else 0)"

definition slot_state :: "unit scc_state" where
  "slot_state = scc_start (fill slot_values 0 (members scc_alloc_slot_access) @ replicate 4 0)"

lemma slot_state_holds: "in_user (ss_user slot_state) 0x100 scc_alloc_slot_access slot_values (replicate 4 0)"
proof -
  have "length (fill slot_values 0 (members scc_alloc_slot_access) @ replicate 4 0) = 24"
    by (simp add: abi_struct_defs align_up_def)
  then show ?thesis
    unfolding in_user_def abi_sizes slot_state_def
    using uread_uwrite [of "fill slot_values 0 (members scc_alloc_slot_access) @ replicate 4 0"]
      scc_start_access(1) [of "0x100" 24] scc_start_access(2)
    by (simp add: scc_start_def)
qed

theorem scc_slots_by_name_witness:
  "\<exists>s'. scc_test_ioctl inv_env slot_state SCC_TEST_ALLOC_SLOT 0x100 = Done (0, s') \<and>
    in_user (ss_user s') 0x100 scc_alloc_slot_access (slot_values(''slot'' := 3, ''scc_status'' := 0)) (replicate 4 0)"
  using scc_slots_by_name [THEN conjunct1, of slot_state "0x100" slot_values "replicate 4 0" inv_env 0 3 "()"] slot_state_holds
  by (auto simp: inv_env_def)

end
