(* ===== verification/C_Strings.thy ===== *)
theory C_Strings
  imports Prelude
begin

text \<open>
  The functions of \<^verbatim>\<open>string.h\<close>, \<^verbatim>\<open>ctype.h\<close> and \<^verbatim>\<open>stdlib.h\<close> the programs use, on strings without
  their terminating zero. A position found by \<open>strchr\<close> is the prefix before it and the rest after
  it, which is what the sources make of it by writing a zero there.
\<close>

definition isspace :: "char \<Rightarrow> bool" where
  "isspace c = (c \<in> {CHR '' '', CHR 0x09, CHR 0x0A, CHR 0x0B, CHR 0x0C, CHR 0x0D})"

fun strchr_cut :: "char \<Rightarrow> string \<Rightarrow> (string \<times> string) option" where
  "strchr_cut c [] = None"
| "strchr_cut c (x # xs) =
     (if x = c then Some ([], xs)
      else case strchr_cut c xs of None \<Rightarrow> None | Some (a, b) \<Rightarrow> Some (x # a, b))"

text \<open>\<open>strncmp(s, p, strlen(p)) == 0\<close>.\<close>

definition has_prefix :: "string \<Rightarrow> string \<Rightarrow> bool" where
  "has_prefix s p \<longleftrightarrow> take (length p) s = p"

text \<open>\<open>strstr(s, p)\<close>: the string from the first occurrence on.\<close>

fun strstr :: "string \<Rightarrow> string \<Rightarrow> string option" where
  "strstr [] p = (if p = [] then Some [] else None)"
| "strstr (x # xs) p = (if has_prefix (x # xs) p then Some (x # xs) else strstr xs p)"

definition hex_val :: "char \<Rightarrow> nat option" where
  "hex_val c = (let k = of_char c :: nat
     in if 48 \<le> k \<and> k \<le> 57 then Some (k - 48)
        else if 97 \<le> k \<and> k \<le> 102 then Some (k - 87)
        else if 65 \<le> k \<and> k \<le> 70 then Some (k - 55) else None)"

fun hex_acc :: "nat \<Rightarrow> string \<Rightarrow> nat" where
  "hex_acc a [] = a"
| "hex_acc a (c # cs) = (case hex_val c of None \<Rightarrow> a | Some d \<Rightarrow> hex_acc (16 * a + d) cs)"

fun strip_0x :: "string \<Rightarrow> string" where
  "strip_0x (a # b # cs) = (if a = CHR ''0'' \<and> (b = CHR ''x'' \<or> b = CHR ''X'') then cs else a # b # cs)"
| "strip_0x cs = cs"

text \<open>\<open>strtoul(s, NULL, 16)\<close> with a 32-bit \<open>long\<close>: saturating, and a minus sign negates.\<close>

definition strtoul16 :: "string \<Rightarrow> u32" where
  "strtoul16 s =
     (let t = dropWhile isspace s;
          neg = (case t of c # _ \<Rightarrow> c = CHR ''-'' | [] \<Rightarrow> False);
          t1 = (case t of c # cs \<Rightarrow> if c = CHR ''-'' \<or> c = CHR ''+'' then cs else t | [] \<Rightarrow> []);
          n = hex_acc 0 (strip_0x t1)
      in if n \<ge> 2 ^ 32 then 0xFFFFFFFF else if neg then - of_nat n else of_nat n)"

definition dec_val :: "char \<Rightarrow> int option" where
  "dec_val c = (let k = of_char c :: int in if 48 \<le> k \<and> k \<le> 57 then Some (k - 48) else None)"

fun dec_acc :: "int \<Rightarrow> string \<Rightarrow> int" where
  "dec_acc a [] = a"
| "dec_acc a (c # cs) = (case dec_val c of None \<Rightarrow> a | Some d \<Rightarrow> dec_acc (10 * a + d) cs)"

text \<open>\<open>strtol(s, NULL, 10)\<close> and \<open>atoi\<close> with a 32-bit \<open>long\<close>: saturating at both ends.\<close>

definition strtol10 :: "string \<Rightarrow> int" where
  "strtol10 s =
     (let t = dropWhile isspace s;
          neg = (case t of c # _ \<Rightarrow> c = CHR ''-'' | [] \<Rightarrow> False);
          t1 = (case t of c # cs \<Rightarrow> if c = CHR ''-'' \<or> c = CHR ''+'' then cs else t | [] \<Rightarrow> []);
          n = dec_acc 0 t1
      in if neg then max (- (2 ^ 31)) (- n) else min (2 ^ 31 - 1) n)"

text \<open>\<open>strncpy\<close> into a character array: padded with zeros to \<open>n\<close>, the rest of the array stays.\<close>

definition strncpy :: "string \<Rightarrow> string \<Rightarrow> nat \<Rightarrow> string" where
  "strncpy dst s n = take n (s @ replicate n CHR 0x00) @ drop n dst"

lemma length_strncpy: "n \<le> length dst \<Longrightarrow> length (strncpy dst s n) = length dst"
  by (simp add: strncpy_def)

lemma strchr_cut_None_iff: "strchr_cut c s = None \<longleftrightarrow> c \<notin> set s"
  by (induction s) (auto split: option.splits)

lemma strchr_cut_append: "c \<notin> set a \<Longrightarrow> strchr_cut c (a @ c # b) = Some (a, b)"
  by (induction a) auto

lemma strchr_cut_SomeD: "strchr_cut c s = Some (a, b) \<Longrightarrow> s = a @ c # b \<and> c \<notin> set a"
  by (induction s arbitrary: a) (auto split: if_splits option.splits)

end
