(* ===== verification/Soc_Check.thy ===== *)
theory Soc_Check
  imports C_Strings
begin

text \<open>
  The check that most of the tests begin with (\<^verbatim>\<open>src/include/soc_check.h\<close>): \<open>soc_version_check\<close> reads
  the name of the chip from \<^verbatim>\<open>/sys/devices/soc0/soc_id\<close> and looks it up in a list of names that ends
  with a string starting with a blank. The file is an argument (\<open>None\<close>: it cannot be opened); running
  off the end of the list is \<open>Undef\<close>.
\<close>

definition LEN :: nat where "LEN = 10"

text \<open>The C string in a character array: up to the first zero.\<close>

definition c_string :: "string \<Rightarrow> string" where
  "c_string s = takeWhile (\<lambda>c. c \<noteq> CHR 0x00) s"

definition starts_blank :: "string \<Rightarrow> bool" where
  "starts_blank s \<longleftrightarrow> take 1 s = '' ''"

fun soc_scan :: "string \<Rightarrow> string list \<Rightarrow> bool run" where
  "soc_scan name [] = Undef"
| "soc_scan name (s # list) =
     (if starts_blank s then Done False else if name = s then Done True else soc_scan name list)"

definition soc_version_check :: "string option \<Rightarrow> string list \<Rightarrow> bool run" where
  "soc_version_check soc_id soc_name =
     (case soc_id of None \<Rightarrow> Done False
      | Some text \<Rightarrow>
          (let name = take LEN text
           in if name = [] then Done False
              else soc_scan (c_string (name[length name - 1 := CHR 0x00])) soc_name))"

lemma soc_scan_terminated:
  "list_all (\<lambda>s. \<not> starts_blank s) names \<Longrightarrow> starts_blank e \<Longrightarrow>
     soc_scan name (names @ e # rest) = Done (name \<in> set names)"
  by (induction names) auto

lemma c_string_cut:
  assumes "CHR 0x00 \<notin> set s"
  shows "c_string (s @ CHR 0x00 # t) = s"
proof -
  have "takeWhile (\<lambda>c. c \<noteq> CHR 0x00) s = s" using assms by (auto simp: takeWhile_eq_all_conv)
  then show ?thesis by (simp add: c_string_def takeWhile_append2 assms)
qed

lemma last_zeroed: "(s @ [c])[length (s @ [c]) - 1 := z] = s @ [z]"
  by simp

text \<open>
  C40: On every list that is ended by a blank entry the check returns, whatever the file holds; for
  a chip name of at most nine characters and its newline the answer is whether the name is in the
  list, and without the file or with an empty file it is no.
\<close>
theorem soc_version_check_spec:
  assumes "list_all (\<lambda>s. \<not> starts_blank s) names" and "starts_blank e"
  shows "(\<exists>b. soc_version_check soc_id (names @ e # rest) = Done b) \<and>
    soc_version_check None (names @ e # rest) = Done False \<and>
    soc_version_check (Some []) (names @ e # rest) = Done False \<and>
    (length n < LEN \<and> CHR 0x00 \<notin> set n \<longrightarrow>
       soc_version_check (Some (n @ [CHR 0x0A])) (names @ e # rest) = Done (n \<in> set names))"
proof -
  note scan = soc_scan_terminated [OF assms]
  have "soc_version_check (Some (n @ [CHR 0x0A])) (names @ e # rest) = Done (n \<in> set names)"
    if "length n < LEN" "CHR 0x00 \<notin> set n"
  proof -
    have "take LEN (n @ [CHR 0x0A]) = n @ [CHR 0x0A]" using that by (simp add: LEN_def)
    then show ?thesis
      unfolding soc_version_check_def option.case Let_def
      by (simp only: last_zeroed c_string_cut [OF that(2)] scan append_is_Nil_conv list.distinct if_False simp_thms)
  qed
  then show ?thesis by (auto simp: soc_version_check_def scan Let_def LEN_def split: option.split)
qed

theorem soc_version_check_spec_witness:
  "soc_version_check (Some ''i.MX6QP\<newline>'') [''i.MX6Q'', ''i.MX6QP'', ''i.MX6DL'', '' ''] = Done True"
  using soc_version_check_spec [of "[''i.MX6Q'', ''i.MX6QP'', ''i.MX6DL'']" "'' ''" None "[]" "''i.MX6QP''"]
  by (simp add: starts_blank_def LEN_def)

end
