(* ===== verification/Memtool.thy ===== *)
theory Memtool
  imports C_Strings
begin

unbundle bit_operations_syntax

text \<open>
  The memory tool (\<^verbatim>\<open>src/test/memtool/memtool.c\<close>): it parses its command line into globals,
  looks registers up in a table of the chip and reads or writes physical memory through a one-page
  window of \<^verbatim>\<open>/dev/mem\<close>. The tables (\<open>mx6q\<close> and the others, generated data) are an
  argument. Physical memory is a byte map; the outcomes of \<open>open\<close> and \<open>mmap\<close> are schedules;
  what is printed is recorded as events.
\<close>

section \<open>Outcomes, tables, state\<close>

text \<open>
  \<open>MDie\<close> is \<open>die\<close>; \<open>MCrash\<close> is undefined behaviour: an access to memory that is not mapped, a
  null string, a shift by more than the width.
\<close>

datatype 'a mt = MOk 'a | MDie | MCrash

fun mt_bind :: "'a mt \<Rightarrow> ('a \<Rightarrow> 'b mt) \<Rightarrow> 'b mt" where
  "mt_bind (MOk x) f = f x"
| "mt_bind MDie f = MDie"
| "mt_bind MCrash f = MCrash"

lemma mt_bind_cong [fundef_cong]:
  "r = r' \<Longrightarrow> (\<And>x. r' = MOk x \<Longrightarrow> f x = g x) \<Longrightarrow> mt_bind r f = mt_bind r' g"
  by (cases r') simp_all

definition mt_opt :: "'a option \<Rightarrow> 'a mt" where
  "mt_opt x = (case x of None \<Rightarrow> MCrash | Some v \<Rightarrow> MOk v)"

lemma mt_opt_simps [simp]: "mt_opt None = MCrash" "mt_opt (Some v) = MOk v"
  by (simp_all add: mt_opt_def)

record field_t =
  f_name :: string
  f_description :: string
  f_lsb :: nat
  f_msb :: nat
  f_is_readable :: bool
  f_is_writable :: bool

record reg_t =
  r_name :: string
  r_description :: string
  r_width :: nat
  r_offset :: u32
  r_is_readable :: bool
  r_is_writable :: bool
  r_fields :: "field_t list"

record module_t =
  m_name :: string
  m_base_address :: u32
  m_regs :: "reg_t list"

text \<open>The window \<open>g_map_vaddr\<close>: 0, a mapped physical page, or the \<open>MAP_FAILED\<close> of an unchecked \<open>mmap\<close>.\<close>

datatype mt_win = NoMap | Mapped u32 | MapFailed

datatype mt_event =
    ERegVal string string u32 u32
  | EFieldVal string string string nat nat u32
  | EComp "string list"
  | EWriteMask u32 nat nat u32
  | EWrite u32 u32
  | ENotWritable "string list"
  | ENoRegister string
  | ENoModule string
  | EModule string u32
  | ESoc string
  | EUsage
  | EReading u32 u32
  | EWriting nat u32 u32
  | ELine u32
  | EMemVal u32

record memtool =
  mt_mem :: "u32 \<Rightarrow> u8"
  mt_fmem :: int
  mt_open :: "int list"
  mt_vaddr :: mt_win
  mt_paddr :: u32
  mt_mmap :: "bool list"
  mt_log :: "mt_event list"

definition MAP_SIZE :: nat where "MAP_SIZE = 0x1000"

definition page_of :: "u32 \<Rightarrow> u32" where "page_of a = a AND NOT (0xfff)"

definition logm :: "mt_event \<Rightarrow> memtool \<Rightarrow> memtool" where
  "logm e s = s\<lparr>mt_log := mt_log s @ [e]\<rparr>"

section \<open>The window\<close>

definition open_mem_file :: "memtool \<Rightarrow> memtool mt" where
  "open_mem_file s =
     (let s1 = (if mt_fmem s = 0
                then s\<lparr>mt_fmem := (case mt_open s of [] \<Rightarrow> 3 | fd # _ \<Rightarrow> fd), mt_open := tl (mt_open s)\<rparr> else s)
      in if mt_fmem s1 = 0 then MDie else MOk s1)"

definition map_address :: "u32 \<Rightarrow> memtool \<Rightarrow> memtool" where
  "map_address address s =
     (if page_of address = mt_paddr s then s
      else
        (let ok = (case mt_mmap s of [] \<Rightarrow> True | b # _ \<Rightarrow> b)
         in s\<lparr>mt_vaddr := (if ok then Mapped (page_of address) else MapFailed),
              mt_mmap := tl (mt_mmap s), mt_paddr := page_of address\<rparr>))"

text \<open>The bytes at an address of the window; outside the page there is nothing.\<close>

definition win_addr :: "memtool \<Rightarrow> u32 \<Rightarrow> nat \<Rightarrow> u32 mt" where
  "win_addr s address width =
     (case mt_vaddr s of
        Mapped p \<Rightarrow> (if unat (address AND 0xfff) + width \<le> MAP_SIZE then MOk (p + (address AND 0xfff)) else MCrash)
      | _ \<Rightarrow> MCrash)"

primrec mem_read :: "(u32 \<Rightarrow> u8) \<Rightarrow> u32 \<Rightarrow> nat \<Rightarrow> u8 list" where
  "mem_read m a 0 = []"
| "mem_read m a (Suc n) = m a # mem_read m (a + 1) n"

definition mem_write :: "(u32 \<Rightarrow> u8) \<Rightarrow> u32 \<Rightarrow> u8 list \<Rightarrow> u32 \<Rightarrow> u8" where
  "mem_write m a bs x = (if unat (x - a) < length bs then bs ! unat (x - a) else m x)"

definition le_value :: "u8 list \<Rightarrow> u32" where
  "le_value bs = of_le32 (bs @ replicate (4 - length bs) 0)"

definition readm :: "u32 \<Rightarrow> nat \<Rightarrow> memtool \<Rightarrow> (u32 \<times> memtool) mt" where
  "readm address width s =
     mt_bind (open_mem_file s) (\<lambda>s1.
       (let s2 = map_address address s1
        in if width = 1 \<or> width = 2 \<or> width = 4
           then mt_bind (win_addr s2 address width) (\<lambda>a. MOk (le_value (mem_read (mt_mem s2) a width), s2))
           else MDie))"

definition writem :: "u32 \<Rightarrow> nat \<Rightarrow> u32 \<Rightarrow> memtool \<Rightarrow> memtool mt" where
  "writem address width v s =
     mt_bind (open_mem_file s) (\<lambda>s1.
       (let s2 = map_address address s1
        in if width = 1 \<or> width = 2 \<or> width = 4
           then mt_bind (win_addr s2 address width)
                  (\<lambda>a. MOk (s2\<lparr>mt_mem := mem_write (mt_mem s2) a (take width (le32 v))\<rparr>))
           else MDie))"

section \<open>Bit fields\<close>

text \<open>The shifts of \<open>get_value\<close> and \<open>write_reg_mask\<close> are by \<open>int\<close>s; outside 0..31 they are undefined.\<close>

definition get_value :: "u32 \<Rightarrow> nat \<Rightarrow> nat \<Rightarrow> u32 mt" where
  "get_value v lsb msb =
     (if lsb \<le> 31 \<and> lsb \<le> msb \<and> msb - lsb \<le> 31
      then MOk (signed_drop_bit lsb v AND drop_bit (31 - (msb - lsb)) 0xFFFFFFFF) else MCrash)"

definition write_reg_mask :: "u32 \<Rightarrow> nat \<Rightarrow> u32 \<Rightarrow> nat \<Rightarrow> nat \<Rightarrow> memtool \<Rightarrow> memtool mt" where
  "write_reg_mask addr width v lsb msb s =
     mt_bind (readm addr width (logm (EWriteMask v lsb msb addr) s)) (\<lambda>(org, s1).
       if lsb \<le> 31 \<and> msb \<le> 31 then
       (let mask = push_bit lsb (drop_bit lsb 0xFFFFFFFF) :: u32;
            mask = drop_bit (31 - msb) (push_bit (31 - msb) mask);
            org = org AND NOT mask;
            v' = push_bit lsb v;
            org = org OR (v' AND mask)
        in writem addr width org s1)
       else MCrash)"

definition write_reg :: "u32 \<Rightarrow> nat \<Rightarrow> u32 \<Rightarrow> memtool \<Rightarrow> memtool mt" where
  "write_reg addr width v s = writem addr width v (logm (EWrite v addr) s)"

section \<open>Listing\<close>

text \<open>A star cuts the pattern; the names that start with what is left match.\<close>

definition cut_star :: "string \<Rightarrow> string" where
  "cut_star p = (case strchr_cut (CHR ''*'') p of None \<Rightarrow> p | Some (a, _) \<Rightarrow> a)"

fun field_loop :: "bool \<Rightarrow> module_t \<Rightarrow> reg_t \<Rightarrow> string option \<Rightarrow> u32 \<Rightarrow> field_t list \<Rightarrow> memtool \<Rightarrow> memtool mt" where
  "field_loop g_comp mx reg pat v [] s = MOk s"
| "field_loop g_comp mx reg pat v (f # fs) s =
     (if (case pat of None \<Rightarrow> True | Some p \<Rightarrow> p = [] \<or> has_prefix (f_name f) p)
      then (if g_comp
            then field_loop g_comp mx reg pat v fs (logm (EComp [m_name mx, r_name reg, f_name f]) s)
            else mt_bind (get_value v (f_lsb f) (f_msb f)) (\<lambda>w.
                   field_loop g_comp mx reg pat v fs
                     (logm (EFieldVal (m_name mx) (r_name reg) (f_name f) (f_lsb f) (f_msb f) w) s)))
      else field_loop g_comp mx reg pat v fs s)"

definition parse_field :: "bool \<Rightarrow> module_t \<Rightarrow> reg_t \<Rightarrow> string option \<Rightarrow> u32 \<Rightarrow> memtool \<Rightarrow> memtool mt" where
  "parse_field g_comp mx reg field v s = field_loop g_comp mx reg (map_option cut_star field) v (r_fields reg) s"

text \<open>One register of the loop of \<open>parse_reg\<close>.\<close>

definition parse_reg_one :: "bool \<Rightarrow> module_t \<Rightarrow> string \<Rightarrow> string option \<Rightarrow> reg_t \<Rightarrow> memtool \<Rightarrow> memtool mt" where
  "parse_reg_one g_comp mx reg field sreg s =
     (if g_comp then
        (if field \<noteq> None then
           (if r_name sreg = reg then parse_field g_comp mx sreg field 0 s else MOk s)
         else MOk (if has_prefix (r_name sreg) reg then logm (EComp [m_name mx, r_name sreg]) s else s))
      else if reg = [] \<or> has_prefix (r_name sreg) reg \<or> hd reg = CHR ''-'' then
        (let a = m_base_address mx + r_offset sreg
         in mt_bind (readm a (r_width sreg) s) (\<lambda>(v, s1).
              (let s2 = logm (ERegVal (m_name mx) (r_name sreg) a v) s1
               in if reg \<noteq> [] \<and> hd reg = CHR ''-'' then MOk s2
                  else mt_bind (readm a (r_width sreg) s2) (\<lambda>(v', s3).
                         parse_field g_comp mx sreg field v' s3))))
      else MOk s)"

fun parse_regs :: "bool \<Rightarrow> module_t \<Rightarrow> string \<Rightarrow> string option \<Rightarrow> reg_t list \<Rightarrow> memtool \<Rightarrow> memtool mt" where
  "parse_regs g_comp mx reg field [] s = MOk s"
| "parse_regs g_comp mx reg field (sreg # rs) s =
     mt_bind (parse_reg_one g_comp mx reg field sreg s) (parse_regs g_comp mx reg field rs)"

definition parse_reg :: "bool \<Rightarrow> module_t \<Rightarrow> string option \<Rightarrow> string option \<Rightarrow> memtool \<Rightarrow> memtool mt" where
  "parse_reg g_comp mx reg field s =
     mt_bind (mt_opt reg) (\<lambda>r. parse_regs g_comp mx (cut_star r) field (m_regs mx) s)"

section \<open>The module\<close>

text \<open>
  What \<open>parse_module\<close> asks the system: the kernel release as \<open>sscanf\<close> finds it (\<open>None\<close> when
  \<open>uname\<close> or the scan fails), \<^verbatim>\<open>/proc/cpuinfo\<close> and \<^verbatim>\<open>/sys/devices/soc0/soc_id\<close> (\<open>None\<close> when the file
  cannot be opened, and for the latter when it holds no word), and the register tables.
\<close>

datatype soc = MX6Q | MX6DL | MX6SL | MX6SX | MX6UL | MX7D | MX6ULL

record sys_env =
  sy_release :: "(int \<times> int \<times> int) option"
  sy_cpuinfo :: "string option"
  sy_soc_id :: "string option"
  sy_tables :: "soc \<Rightarrow> module_t list"

definition KERN_VER :: "int \<Rightarrow> int \<Rightarrow> int \<Rightarrow> int" where
  "KERN_VER a b c = a * 2 ^ 16 + b * 2 ^ 8 + c"

definition soc_of_revision :: "u32 \<Rightarrow> soc mt" where
  "soc_of_revision r =
     (let k = signed_drop_bit 12 r
      in if k = 0x63 then MOk MX6Q else if k = 0x61 then MOk MX6DL else if k = 0x60 then MOk MX6SL else MDie)"

definition soc_of_name :: "string \<Rightarrow> soc mt" where
  "soc_of_name n =
     (if n = ''i.MX6Q'' then MOk MX6Q else if n = ''i.MX6DL'' then MOk MX6DL
      else if n = ''i.MX6SL'' then MOk MX6SL else if n = ''i.MX6SX'' then MOk MX6SX
      else if n = ''i.MX6UL'' then MOk MX6UL else if n = ''i.MX7D'' then MOk MX7D
      else if n = ''i.MX6ULL'' then MOk MX6ULL else MDie)"

definition soc_name :: "soc \<Rightarrow> string" where
  "soc_name c = (case c of MX6Q \<Rightarrow> ''mx6q'' | MX6DL \<Rightarrow> ''mx6dl'' | MX6SL \<Rightarrow> ''mx6sl'' | MX6SX \<Rightarrow> ''mx6sx''
     | MX6UL \<Rightarrow> ''mx6ul'' | MX7D \<Rightarrow> ''mx7d'' | MX6ULL \<Rightarrow> ''mx6ull'')"

text \<open>The 4096-byte buffer holds at most 4095 bytes; a colon in its last place puts \<open>rev + 2\<close> behind it.\<close>

definition cpuinfo_soc :: "string option \<Rightarrow> soc mt" where
  "cpuinfo_soc cpuinfo =
     (case cpuinfo of None \<Rightarrow> MDie
      | Some text \<Rightarrow>
          (let buf = take 4095 text
           in case strstr buf ''Revision'' of None \<Rightarrow> MDie
              | Some rv \<Rightarrow>
                  (case strstr rv '':'' of None \<Rightarrow> MDie
                   | Some rv' \<Rightarrow> (if length buf = 4095 \<and> length rv' = 1 then MCrash
                                  else soc_of_revision (strtoul16 (drop 2 rv'))))))"

text \<open>\<open>soc_name[255]\<close> overflows when the word read into it is longer.\<close>

definition select_soc :: "sys_env \<Rightarrow> bool \<Rightarrow> memtool \<Rightarrow> (soc \<times> memtool) mt" where
  "select_soc env g_comp s =
     (case sy_release env of None \<Rightarrow> MDie
      | Some (a, b, c) \<Rightarrow>
          (if KERN_VER a b c < KERN_VER 3 10 0 then
             mt_bind (cpuinfo_soc (sy_cpuinfo env)) (\<lambda>k. MOk (k, logm (ESoc (soc_name k)) s))
           else
             (case sy_soc_id env of None \<Rightarrow> MDie
              | Some n \<Rightarrow>
                  (if length n \<ge> 255 then MCrash
                   else mt_bind (soc_of_name n) (\<lambda>k. MOk (k, if g_comp then s else logm (ESoc n) s))))))"

text \<open>The field loop of a write goes on after a match; the register and module loops return.\<close>

fun write_fields :: "module_t \<Rightarrow> reg_t \<Rightarrow> string \<Rightarrow> u32 \<Rightarrow> field_t list \<Rightarrow> memtool \<Rightarrow> memtool mt" where
  "write_fields mx r field v [] s = MOk s"
| "write_fields mx r field v (f # fs) s =
     (if f_name f = field then
        mt_bind (if f_is_writable f
                 then write_reg_mask (m_base_address mx + r_offset r) (r_width r) v (f_lsb f) (f_msb f) s
                 else MOk (logm (ENotWritable [m_name mx, r_name r, f_name f]) s))
          (write_fields mx r field v fs)
      else write_fields mx r field v fs s)"

fun write_regs :: "module_t \<Rightarrow> string \<Rightarrow> string option \<Rightarrow> u32 \<Rightarrow> reg_t list \<Rightarrow> memtool \<Rightarrow> memtool mt" where
  "write_regs mx reg field v [] s = MOk (logm (ENoRegister reg) s)"
| "write_regs mx reg field v (r # rs) s =
     (if r_name r = reg then
        (if field = None \<or> field = Some [] then
           (if r_is_writable r then write_reg (m_base_address mx + r_offset r) (r_width r) v s
            else MOk (logm (ENotWritable [m_name mx, r_name r]) s))
         else write_fields mx r (the field) v (r_fields r) s)
      else write_regs mx reg field v rs s)"

text \<open>
  \<open>while (mx)\<close>: the pointer is never null, so behind the last module the loop compares the null
  name of the terminating entry.
\<close>

fun write_modules :: "string option \<Rightarrow> string option \<Rightarrow> string option \<Rightarrow> u32 \<Rightarrow> module_t list \<Rightarrow> memtool \<Rightarrow> memtool mt" where
  "write_modules module reg field v [] s = MCrash"
| "write_modules module reg field v (mx # ms) s =
     mt_bind (mt_opt module) (\<lambda>m.
       if m_name mx = m then
         (if m_regs mx = [] then MOk (logm (ENoRegister (case reg of None \<Rightarrow> [] | Some r \<Rightarrow> r)) s)
          else mt_bind (mt_opt reg) (\<lambda>r. write_regs mx r field v (m_regs mx) s))
       else write_modules module reg field v ms s)"

fun find_module :: "bool \<Rightarrow> string option \<Rightarrow> string option \<Rightarrow> string option \<Rightarrow> module_t list \<Rightarrow> memtool \<Rightarrow> memtool mt" where
  "find_module g_comp module reg field [] s = MOk s"
| "find_module g_comp module reg field (mx # ms) s =
     mt_bind (mt_opt module) (\<lambda>m.
       if m_name mx = m then
         parse_reg g_comp mx reg field (if g_comp then s else logm (EModule (m_name mx) (m_base_address mx)) s)
       else find_module g_comp module reg field ms s)"

definition parse_module :: "sys_env \<Rightarrow> bool \<Rightarrow> bool \<Rightarrow> u32 \<Rightarrow> string option \<Rightarrow> string option \<Rightarrow> string option \<Rightarrow> bool \<Rightarrow> memtool \<Rightarrow> memtool mt" where
  "parse_module env g_comp g_module_match g_value module reg field iswrite s =
     mt_bind (select_soc env g_comp s) (\<lambda>(k, s1).
       (let ms = sy_tables env k
        in if iswrite \<and> \<not> g_comp then write_modules module reg field g_value ms s1
           else if g_comp \<and> \<not> g_module_match then
             MOk (fold (\<lambda>mx s. if module = None \<or> has_prefix (m_name mx) (the module)
                               then logm (EComp [m_name mx]) s else s) ms s1)
           else if module = None \<or> module = Some [] \<or> CHR ''*'' \<in> set (the module) then
             (let s2 = fold (\<lambda>mx s. if module = None \<or> module = Some [] \<or> has_prefix (m_name mx) (cut_star (the module))
                                    then logm (EModule (m_name mx) (m_base_address mx)) s else s) ms s1
              in MOk s2)
           else find_module g_comp module reg field ms s1))"

section \<open>The command line\<close>

record mt_args =
  g_size :: nat
  g_paddr :: u32
  g_is_write :: bool
  g_value :: u32
  g_count :: u32
  g_is_reg :: bool
  g_module :: "string option"
  g_reg :: "string option"
  g_field :: "string option"
  g_comp :: bool
  g_module_match :: bool

definition mt_args0 :: mt_args where
  "mt_args0 = \<lparr>g_size = 4, g_paddr = 0, g_is_write = False, g_value = 0, g_count = 1, g_is_reg = False,
     g_module = None, g_reg = None, g_field = None, g_comp = False, g_module_match = False\<rparr>"

text \<open>\<open>argv\<close> from \<open>cur_arg\<close> on; comparing the null pointer behind it is a crash.\<close>

definition arg_hd :: "string list \<Rightarrow> string mt" where
  "arg_hd as = (case as of [] \<Rightarrow> MCrash | a # _ \<Rightarrow> MOk a)"

definition parse_size :: "string list \<Rightarrow> mt_args \<Rightarrow> (string list \<times> mt_args) mt" where
  "parse_size as g =
     mt_bind (arg_hd as) (\<lambda>a.
       if a = ''-8'' then MOk (tl as, g\<lparr>g_size := 1\<rparr>)
       else if a = ''-16'' then MOk (tl as, g\<lparr>g_size := 2\<rparr>)
       else if a = ''-32'' then MOk (tl as, g\<lparr>g_size := 4\<rparr>)
       else MOk (as, g))"

definition parse_comp :: "string list \<Rightarrow> mt_args \<Rightarrow> (string list \<times> mt_args) mt" where
  "parse_comp as g =
     mt_bind (arg_hd as) (\<lambda>a. if a = ''-comp'' then MOk (tl as, g\<lparr>g_comp := True\<rparr>) else MOk (as, g))"

fun skip_own_name :: "string list \<Rightarrow> mt_args \<Rightarrow> string list \<times> mt_args" where
  "skip_own_name [] g = ([], g)"
| "skip_own_name (a # as) g =
     (if strstr a ''memtool'' \<noteq> None then skip_own_name as (g\<lparr>g_comp := True\<rparr>)
      else if a = [] then skip_own_name as g
      else (a # as, g))"

text \<open>\<open>M.R.F=V\<close>, from the module name before the first dot on.\<close>

definition parse_reg_arg :: "string \<Rightarrow> mt_args \<Rightarrow> mt_args" where
  "parse_reg_arg a g =
     (let g = g\<lparr>g_is_reg := True, g_module := Some a\<rparr>
      in case strchr_cut (CHR ''.'') a of
           None \<Rightarrow> g
         | Some (m, str) \<Rightarrow>
             (let g = g\<lparr>g_module := Some m, g_reg := Some str, g_module_match := True\<rparr>
              in case strchr_cut (CHR ''.'') str of
                   None \<Rightarrow>
                     (let g = g\<lparr>g_field := None\<rparr>
                      in case strchr_cut (CHR ''='') str of
                           None \<Rightarrow> g
                         | Some (r, v) \<Rightarrow> g\<lparr>g_reg := Some r, g_is_write := True, g_value := strtoul16 v\<rparr>)
                 | Some (r, f) \<Rightarrow>
                     (let g = g\<lparr>g_reg := Some r, g_field := Some f\<rparr>
                      in case strchr_cut (CHR ''='') f of
                           None \<Rightarrow> g
                         | Some (f', v) \<Rightarrow> g\<lparr>g_field := Some f', g_is_write := True, g_value := strtoul16 v\<rparr>)))"

text \<open>\<open>ADDR=V\<close>, \<open>ADDR = V\<close>, \<open>ADDR =V\<close>, \<open>ADDR= V\<close> and \<open>ADDR COUNT\<close>.\<close>

definition parse_rest :: "string list \<Rightarrow> mt_args \<Rightarrow> int \<times> mt_args" where
  "parse_rest as g =
     (case as of
        [] \<Rightarrow> (-1, g)
      | b # bs \<Rightarrow>
          (if take 1 b = ''='' then
             (let g = g\<lparr>g_is_write := True\<rparr>
              in if length b > 1 then (0, g\<lparr>g_value := strtoul16 (tl b)\<rparr>)
                 else case bs of [] \<Rightarrow> (-1, g) | c # _ \<Rightarrow> (0, g\<lparr>g_value := strtoul16 c\<rparr>))
           else if g_is_write g then (0, g\<lparr>g_value := strtoul16 b\<rparr>)
           else (0, g\<lparr>g_count := strtoul16 b\<rparr>)))"

definition parse_addr_arg :: "string \<Rightarrow> string list \<Rightarrow> mt_args \<Rightarrow> int \<times> mt_args" where
  "parse_addr_arg a as g =
     (let g = (if g_is_reg g then g else g\<lparr>g_paddr := strtoul16 a\<rparr>)
      in if \<not> g_is_reg g \<and> g_paddr g = 0 then (-1, g)
         else case strchr_cut (CHR ''='') a of
                None \<Rightarrow> parse_rest as g
              | Some (_, v) \<Rightarrow>
                  (let g = g\<lparr>g_is_write := True\<rparr>
                   in if v \<noteq> [] then (0, g\<lparr>g_value := strtoul16 v\<rparr>) else parse_rest as g))"

definition parse_cmdline :: "string list \<Rightarrow> mt_args \<Rightarrow> (int \<times> mt_args) mt" where
  "parse_cmdline argv g =
     (if length argv < 2 then MOk (-1, g)
      else mt_bind (parse_size (tl argv) g) (\<lambda>(as, g).
           mt_bind (parse_comp as g) (\<lambda>(as, g).
             (case skip_own_name as g of
                ([], g) \<Rightarrow> MOk (if g_comp g then 0 else -1, g)
              | (a # as, g) \<Rightarrow>
                  (if g_comp g \<or> strchr_cut (CHR ''.'') a \<noteq> None then MOk (0, parse_reg_arg a g)
                   else MOk (parse_addr_arg a as g))))))"

section \<open>Plain memory access\<close>

text \<open>
  A mapping of \<open>len\<close> bytes of \<^verbatim>\<open>/dev/mem\<close> from the physical address \<open>base\<close> on, or none
  (\<open>MAP_FAILED\<close>, which \<open>main\<close> does not notice). An access outside of it crashes.
\<close>

type_synonym mapping_t = "(u32 \<times> nat) option"

definition map_acc :: "mapping_t \<Rightarrow> nat \<Rightarrow> nat \<Rightarrow> u32 mt" where
  "map_acc mp off width =
     (case mp of None \<Rightarrow> MCrash
      | Some (base, len) \<Rightarrow> (if off + width \<le> len then MOk (base + of_nat off) else MCrash))"

text \<open>The loop of \<open>read_mem\<close> from \<open>i\<close> on, \<open>n\<close> elements to go; \<open>i\<close> is an \<open>int\<close>.\<close>

fun read_loop :: "mapping_t \<Rightarrow> nat \<Rightarrow> nat \<Rightarrow> nat \<Rightarrow> nat \<Rightarrow> u32 \<Rightarrow> memtool \<Rightarrow> (u32 \<times> memtool) mt" where
  "read_loop mp off sz i 0 pa s = MOk (pa, s)"
| "read_loop mp off sz i (Suc n) pa s =
     (if i \<ge> 2 ^ 31 then MCrash
      else mt_bind (map_acc mp (off + i * sz) sz) (\<lambda>a.
        (let s1 = (if i mod (16 div sz) = 0 then logm (ELine pa) s else s);
             s2 = logm (EMemVal (le_value (mem_read (mt_mem s1) a sz))) s1
         in read_loop mp off sz (Suc i) n (pa + of_nat sz) s2)))"

definition read_mem :: "mapping_t \<Rightarrow> nat \<Rightarrow> u32 \<Rightarrow> nat \<Rightarrow> u32 \<Rightarrow> memtool \<Rightarrow> (u32 \<times> memtool) mt" where
  "read_mem mp off count sz pa s =
     (if sz = 1 \<or> sz = 2 \<or> sz = 4 then read_loop mp off sz 0 (unat count) pa s
      else MOk (pa, s))"

definition write_mem :: "mapping_t \<Rightarrow> nat \<Rightarrow> u32 \<Rightarrow> nat \<Rightarrow> memtool \<Rightarrow> memtool mt" where
  "write_mem mp off v sz s =
     (if sz = 1 \<or> sz = 2 \<or> sz = 4 then
        mt_bind (map_acc mp off sz) (\<lambda>a. MOk (s\<lparr>mt_mem := mem_write (mt_mem s) a (take sz (le32 v))\<rparr>))
      else MOk s)"

text \<open>\<open>mmap\<close> refuses a length of 0; otherwise the schedule says whether it succeeds.\<close>

definition mmap_mem :: "u32 \<Rightarrow> u32 \<Rightarrow> memtool \<Rightarrow> mapping_t \<times> memtool" where
  "mmap_mem base len s =
     (if len = 0 then (None, s)
      else ((case mt_mmap s of [] \<Rightarrow> Some (base, unat len) | b # _ \<Rightarrow> (if b then Some (base, unat len) else None)),
            s\<lparr>mt_mmap := tl (mt_mmap s)\<rparr>))"

text \<open>The size of the mapping that \<open>main\<close> asks for, in 32-bit arithmetic.\<close>

definition aligned_size :: "u32 \<Rightarrow> u32 \<Rightarrow> nat \<Rightarrow> u32" where
  "aligned_size paddr count sz =
     (paddr - (paddr AND NOT (0xfff)) + count * of_nat sz + 4096 - 1) AND NOT (0xfff)"

text \<open>\<open>main\<close> behind the dispatch to \<open>parse_module\<close>.\<close>

definition main_mem :: "mt_args \<Rightarrow> memtool \<Rightarrow> (int \<times> memtool) mt" where
  "main_mem g s =
     (let paddr = g_paddr g AND NOT (of_nat (g_size g - 1));
          base = paddr AND NOT (0xfff);
          len = aligned_size paddr (g_count g) (g_size g);
          s1 = logm (if g_is_write g then EWriting (g_size g * 8) (g_value g) paddr
                     else EReading (g_count g) paddr) s;
          fd = (case mt_open s1 of [] \<Rightarrow> 3 | fd # _ \<Rightarrow> fd);
          s2 = s1\<lparr>mt_open := tl (mt_open s1)\<rparr>
      in if fd < 0 then MOk (1, s2)
         else
           (let (mp, s3) = mmap_mem base len s2;
                off = unat (paddr - base)
            in if g_is_write g
               then mt_bind (write_mem mp off (g_value g) (g_size g) s3) (\<lambda>s. MOk (0, s))
               else mt_bind (read_mem mp off (g_count g) (g_size g) paddr s3) (\<lambda>(_, s). MOk (0, s))))"

definition main :: "sys_env \<Rightarrow> string list \<Rightarrow> memtool \<Rightarrow> (int \<times> memtool) mt" where
  "main env argv s =
     mt_bind (parse_cmdline argv mt_args0) (\<lambda>(rc, g).
       if rc \<noteq> 0 then MOk (1, logm EUsage s)
       else if g_is_reg g \<or> g_comp g then
         mt_bind (parse_module env (g_comp g) (g_module_match g) (g_value g) (g_module g) (g_reg g) (g_field g)
                    (g_is_write g) s) (\<lambda>s. MOk (0, s))
       else main_mem g s)"

section \<open>Memory and the window\<close>

lemma length_mem_read [simp]: "length (mem_read m a n) = n"
  by (induction n arbitrary: a) auto

lemma mem_read_nth: "k < n \<Longrightarrow> mem_read m a n ! k = m (a + of_nat k)"
proof (induction n arbitrary: a k)
  case (Suc n)
  then show ?case by (cases k) (auto simp: add.assoc)
qed simp

lemma mem_read_write:
  assumes "length bs \<le> 2 ^ 32"
  shows "mem_read (mem_write m a bs) a (length bs) = bs"
proof (rule nth_equalityI)
  fix k
  assume "k < length (mem_read (mem_write m a bs) a (length bs))"
  then have k: "k < length bs" by simp
  then have "unat (of_nat k :: u32) = k" using assms by (simp add: unat_of_nat take_bit_nat_eq_self)
  then show "mem_read (mem_write m a bs) a (length bs) ! k = bs ! k"
    using k by (simp add: mem_read_nth mem_write_def)
qed simp

definition acc_width :: "nat \<Rightarrow> bool" where "acc_width w \<longleftrightarrow> w = 1 \<or> w = 2 \<or> w = 4"

lemma le_value_bytes:
  "le_value [a] = ucast a" "le_value [a, b] = ucast a OR push_bit 8 (ucast b)"
  "le_value [a, b, c, d] = ucast a OR push_bit 8 (ucast b) OR push_bit 16 (ucast c) OR push_bit 24 (ucast d)"
  unfolding le_value_def by (simp_all add: numeral_eq_Suc)

lemma take_le32:
  "take 1 (le32 v) = [ucast v]" "take 2 (le32 v) = [ucast v, ucast (drop_bit 8 v)]"
  unfolding le32_def by (simp_all add: take_Cons')

lemma le_value_take:
  assumes "acc_width w"
  shows "le_value (take w (le32 v)) = take_bit (8 * w) v"
proof -
  consider "w = 1" | "w = 2" | "w = 4" using assms by (auto simp: acc_width_def)
  then show ?thesis
  proof cases
    case 1
    then show ?thesis by (auto simp: take_le32 le_value_bytes bit_simps intro!: bit_word_eqI simp del: One_nat_def)
  next
    case 2
    then show ?thesis by (auto simp: take_le32 le_value_bytes bit_simps intro!: bit_word_eqI)
  next
    case 3
    have "take_bit 32 v = v" by (rule bit_word_eqI) (simp add: bit_simps)
    then show ?thesis using 3 of_le32_le32 [of v "[]"] by (simp add: le_value_def)
  qed
qed

lemma bit_u8_less: "bit (x :: u8) n \<Longrightarrow> n < 8"
  using bit_imp_le_length [of x n] by simp

lemma bit_le_value: "acc_width (length bs) \<Longrightarrow> bit (le_value bs) n \<Longrightarrow> n < 8 * length bs"
  unfolding acc_width_def
  by (cases bs rule: of_le32.cases) (auto simp: le_value_bytes bit_simps simp del: One_nat_def dest: bit_u8_less)

lemma page_split: "page_of a + (a AND 0xfff) = a"
proof -
  have "page_of a AND (a AND 0xfff) = 0" unfolding page_of_def by (rule bit_word_eqI) (simp add: bit_simps)
  then have "page_of a + (a AND 0xfff) = page_of a OR (a AND 0xfff)" by (simp add: disjunctive_add_eq_or)
  also have "\<dots> = a" unfolding page_of_def by (rule bit_word_eqI) (auto simp: bit_simps)
  finally show ?thesis .
qed

text \<open>
  The window is what the globals say, no call to come fails, and the page is not page 0 while
  nothing is mapped (then \<open>map_address\<close> takes the page for mapped).
\<close>

definition accessible :: "memtool \<Rightarrow> u32 \<Rightarrow> bool" where
  "accessible s a \<longleftrightarrow> list_all (\<lambda>b. b) (mt_mmap s) \<and> list_all (\<lambda>fd. fd \<noteq> 0) (mt_open s) \<and>
     (mt_vaddr s = Mapped (mt_paddr s) \<or> mt_vaddr s = NoMap \<and> mt_paddr s = 0 \<and> page_of a \<noteq> 0)"

definition in_page :: "u32 \<Rightarrow> nat \<Rightarrow> bool" where
  "in_page a w \<longleftrightarrow> unat (a AND 0xfff) + w \<le> MAP_SIZE"

lemma open_mem_file_ok:
  assumes "accessible s a"
  obtains s' where "open_mem_file s = MOk s'" and "mt_mem s' = mt_mem s" and "mt_log s' = mt_log s"
    and "accessible s' a"
proof -
  define s' where "s' = (if mt_fmem s = 0
    then s\<lparr>mt_fmem := (case mt_open s of [] \<Rightarrow> 3 | fd # _ \<Rightarrow> fd), mt_open := tl (mt_open s)\<rparr> else s)"
  have "mt_fmem s' \<noteq> 0" "accessible s' a"
    using assms unfolding s'_def by (cases "mt_open s"; simp add: accessible_def)+
  then show thesis using that [of s'] unfolding open_mem_file_def Let_def s'_def by simp
qed

lemma map_address_ok:
  assumes "accessible s a"
  shows "mt_vaddr (map_address a s) = Mapped (page_of a)" "mt_mem (map_address a s) = mt_mem s"
    "mt_log (map_address a s) = mt_log s" "accessible (map_address a s) b"
  using assms by (cases "mt_mmap s"; auto simp: map_address_def accessible_def Let_def)+

lemma readm_ok:
  assumes "accessible s a" and "in_page a w" and "acc_width w"
  obtains s' where "readm a w s = MOk (le_value (mem_read (mt_mem s) a w), s')"
    and "mt_mem s' = mt_mem s" and "mt_log s' = mt_log s" and "\<And>b. accessible s' b"
proof -
  obtain s1 where s1: "open_mem_file s = MOk s1" "mt_mem s1 = mt_mem s" "mt_log s1 = mt_log s" "accessible s1 a"
    using open_mem_file_ok [OF assms(1)] .
  note m = map_address_ok [OF s1(4)]
  show thesis
    by (rule that [of "map_address a s1"])
      (use assms(2,3) s1 m in \<open>auto simp: readm_def win_addr_def in_page_def acc_width_def page_split\<close>)
qed

lemma writem_ok:
  assumes "accessible s a" and "in_page a w" and "acc_width w"
  obtains s' where "writem a w v s = MOk s'" and "mt_mem s' = mem_write (mt_mem s) a (take w (le32 v))"
    and "mt_log s' = mt_log s" and "\<And>b. accessible s' b"
proof -
  obtain s1 where s1: "open_mem_file s = MOk s1" "mt_mem s1 = mt_mem s" "mt_log s1 = mt_log s" "accessible s1 a"
    using open_mem_file_ok [OF assms(1)] .
  note m = map_address_ok [OF s1(4)]
  have "accessible (map_address a s1\<lparr>mt_mem := x\<rparr>) b" for x b using m(4) [of b] by (simp add: accessible_def)
  then show thesis
    using that [of "map_address a s1\<lparr>mt_mem := mem_write (mt_mem s) a (take w (le32 v))\<rparr>"] assms(2,3) s1 m
    by (auto simp: writem_def win_addr_def in_page_def acc_width_def page_split)
qed

lemma accessible_logm [simp]: "accessible (logm e s) a = accessible s a"
  by (simp add: accessible_def logm_def)

lemma mt_mem_logm [simp]: "mt_mem (logm e s) = mt_mem s"
  by (simp add: logm_def)

section \<open>Properties of the register accesses\<close>

lemma all_ones: "(0xFFFFFFFF :: u32) = - 1"
  by simp

lemma bit_mask_range:
  assumes "lsb \<le> msb" and "msb \<le> 31" and "n < 32"
  shows "bit (drop_bit (31 - msb) (push_bit (31 - msb) (push_bit lsb (drop_bit lsb (0xFFFFFFFF :: u32))))) n
    \<longleftrightarrow> lsb \<le> n \<and> n \<le> msb"
  using assms unfolding all_ones by (auto simp: bit_simps)

lemma get_value_bits:
  assumes "lsb \<le> msb" and "msb \<le> 31" and "\<And>n. lsb \<le> n \<Longrightarrow> n \<le> msb \<Longrightarrow> bit u n = bit v (n - lsb)"
  shows "get_value u lsb msb = MOk (take_bit (Suc (msb - lsb)) v)"
proof -
  have m: "bit (drop_bit (31 - (msb - lsb)) (0xFFFFFFFF :: u32)) n \<longleftrightarrow> n \<le> msb - lsb" if "n < 32" for n
    using assms that unfolding all_ones by (auto simp: bit_simps)
  have "signed_drop_bit lsb u AND drop_bit (31 - (msb - lsb)) 0xFFFFFFFF = take_bit (Suc (msb - lsb)) v"
  proof (rule bit_word_eqI)
    fix n
    assume "n < LENGTH(32)"
    then have n: "n < 32" by simp
    show "bit (signed_drop_bit lsb u AND drop_bit (31 - (msb - lsb)) 0xFFFFFFFF) n
      = bit (take_bit (Suc (msb - lsb)) v) n"
      using m [OF n] assms(1,2) assms(3) [of "n + lsb"] n
      by (auto simp: bit_simps min_def add.commute less_Suc_eq_le)
  qed
  then show ?thesis using assms by (simp add: get_value_def)
qed

text \<open>
  C33: Writing a bit field of a register through the window (a field inside the register, the
  register inside its page, no failing call) returns; afterwards exactly the bits \<open>lsb..msb\<close> of
  the register hold the value, its other bits and all other bytes of memory are unchanged, and
  \<open>get_value\<close> of the register reads the low bits of the value back.
\<close>
theorem write_reg_mask_field:
  assumes "accessible s a" and "in_page a w" and "acc_width w" and "lsb \<le> msb" and "msb < 8 * w"
  shows "\<exists>s'. write_reg_mask a w v lsb msb s = MOk s' \<and>
    (\<forall>n. bit (le_value (mem_read (mt_mem s') a w)) n =
       (if lsb \<le> n \<and> n \<le> msb then bit v (n - lsb) else bit (le_value (mem_read (mt_mem s) a w)) n)) \<and>
    (\<forall>x. w \<le> unat (x - a) \<longrightarrow> mt_mem s' x = mt_mem s x) \<and>
    get_value (le_value (mem_read (mt_mem s') a w)) lsb msb = MOk (take_bit (Suc (msb - lsb)) v)"
proof -
  have w: "w \<le> 4" and m31: "msb \<le> 31" using assms(3,5) by (auto simp: acc_width_def)
  define old where "old = le_value (mem_read (mt_mem s) a w)"
  define mask where "mask = drop_bit (31 - msb) (push_bit (31 - msb) (push_bit lsb (drop_bit lsb (0xFFFFFFFF :: u32))))"
  define new where "new = old AND NOT mask OR (push_bit lsb v AND mask)"
  obtain s1 where s1: "readm a w (logm (EWriteMask v lsb msb a) s) = MOk (old, s1)" "mt_mem s1 = mt_mem s"
    "accessible s1 a"
    using readm_ok [of "logm (EWriteMask v lsb msb a) s" a w] assms(1-3) unfolding old_def by auto
  obtain s2 where s2: "writem a w new s1 = MOk s2" "mt_mem s2 = mem_write (mt_mem s) a (take w (le32 new))"
    using writem_ok [OF s1(3) assms(2,3), of new] unfolding s1(2) by blast
  have len: "length (take w (le32 new)) = w" using w by simp
  have rd: "le_value (mem_read (mt_mem s2) a w) = take_bit (8 * w) new"
    using mem_read_write [of "take w (le32 new)" "mt_mem s" a] le_value_take [OF assms(3), of new] w
    unfolding s2(2) len by simp
  have oldb: "bit old n \<Longrightarrow> n < 8 * w" for n
    using bit_le_value [of "mem_read (mt_mem s) a w" n] assms(3) by (simp add: old_def)
  have bits: "bit (take_bit (8 * w) new) n = (if lsb \<le> n \<and> n \<le> msb then bit v (n - lsb) else bit old n)" for n
  proof (cases "n < 32")
    case True
    then show ?thesis using bit_mask_range [OF assms(4) m31 True] assms(5) m31 oldb [of n]
      unfolding new_def mask_def [symmetric] by (auto simp: bit_simps)
  next
    case False
    then show ?thesis using m31 oldb [of n] w by (auto simp: bit_simps dest: bit_imp_le_length)
  qed
  have run: "write_reg_mask a w v lsb msb s = MOk s2"
    using s1(1) s2(1) assms(4) m31 by (simp add: write_reg_mask_def Let_def new_def mask_def)
  have rest: "w \<le> unat (x - a) \<longrightarrow> mt_mem s2 x = mt_mem s x" for x using len by (simp add: s2(2) mem_write_def)
  have "get_value (take_bit (8 * w) new) lsb msb = MOk (take_bit (Suc (msb - lsb)) v)"
    by (rule get_value_bits) (use assms(4) m31 bits in auto)
  then show ?thesis using run rd bits rest by (simp add: old_def)
qed

definition mt_demo :: memtool where
  "mt_demo = \<lparr>mt_mem = (\<lambda>x. ucast x), mt_fmem = 0, mt_open = [3], mt_vaddr = NoMap, mt_paddr = 0,
     mt_mmap = [True], mt_log = []\<rparr>"

theorem write_reg_mask_field_witness:
  "accessible mt_demo 0x20C4014 \<and> in_page 0x20C4014 4 \<and>
   (\<exists>s'. write_reg_mask 0x20C4014 4 5 8 10 mt_demo = MOk s' \<and>
     get_value (le_value (mem_read (mt_mem s') 0x20C4014 4)) 8 10 = MOk 5)"
proof -
  have a: "accessible mt_demo 0x20C4014" by (simp add: accessible_def mt_demo_def page_of_def)
  have p: "in_page 0x20C4014 4" by (simp add: in_page_def MAP_SIZE_def)
  have v: "take_bit (Suc (10 - 8)) (5 :: u32) = 5" by code_simp
  show ?thesis
    using write_reg_mask_field [OF a p, of 8 10 5] a p unfolding v by (auto simp: acc_width_def)
qed

section \<open>Properties of the command line\<close>

lemma write_modules_found:
  assumes "m \<notin> m_name ` set ms1" and "m_name mx = m" and "m_regs mx \<noteq> []"
  shows "write_modules (Some m) (Some r) f v (ms1 @ mx # ms2) s = write_regs mx r f v (m_regs mx) s"
  using assms by (induction ms1) auto

lemma write_regs_found:
  assumes "r \<notin> r_name ` set rs1" and "r_name rg = r" and "f \<noteq> []"
  shows "write_regs mx r (Some f) v (rs1 @ rg # rs2) s = write_fields mx rg f v (r_fields rg) s"
  using assms by (induction rs1) auto

lemma write_fields_none: "f \<notin> f_name ` set fs \<Longrightarrow> write_fields mx rg f v fs s = MOk s"
  by (induction fs) auto

lemma mt_bind_MOk [simp]: "mt_bind x MOk = x"
  by (cases x) auto

lemma write_fields_found:
  assumes "f \<notin> f_name ` set fs1" and "f \<notin> f_name ` set fs2" and "f_name fd = f" and "f_is_writable fd"
  shows "write_fields mx rg f v (fs1 @ fd # fs2) s =
    write_reg_mask (m_base_address mx + r_offset rg) (r_width rg) v (f_lsb fd) (f_msb fd) s"
proof -
  have "write_fields mx rg f v fs2 = MOk" using write_fields_none [OF assms(2)] by blast
  then show ?thesis using assms(1,3,4) by (induction fs1) auto
qed

lemma write_modules_unknown: "m \<notin> m_name ` set ms \<Longrightarrow> write_modules (Some m) r f v ms s = MCrash"
  by (induction ms) auto

text \<open>An argument with a dot in it is none of the options.\<close>

lemma parse_cmdline_dot:
  assumes "strstr (m @ CHR ''.'' # t) ''memtool'' = None"
  shows "parse_cmdline [p, m @ CHR ''.'' # t] g = MOk (0, parse_reg_arg (m @ CHR ''.'' # t) g)"
proof -
  have dot: "strchr_cut (CHR ''.'') (m @ CHR ''.'' # t) \<noteq> None" by (simp add: strchr_cut_None_iff)
  have "x \<noteq> ''-8'' \<and> x \<noteq> ''-16'' \<and> x \<noteq> ''-32'' \<and> x \<noteq> ''-comp'' \<and> x \<noteq> []" if "CHR ''.'' \<in> set x" for x :: string
    using that by auto
  from this [of "m @ CHR ''.'' # t"]
  have ne: "m @ CHR ''.'' # t \<noteq> ''-8''" "m @ CHR ''.'' # t \<noteq> ''-16''" "m @ CHR ''.'' # t \<noteq> ''-32''"
    "m @ CHR ''.'' # t \<noteq> ''-comp''" by simp_all
  then show ?thesis using assms dot by (simp add: parse_cmdline_def parse_size_def parse_comp_def arg_hd_def)
qed

lemma parse_reg_arg_field:
  assumes "CHR ''.'' \<notin> set m" and "CHR ''.'' \<notin> set r" and "CHR ''='' \<notin> set f"
  shows "parse_reg_arg (m @ CHR ''.'' # r @ CHR ''.'' # f @ CHR ''='' # v) g =
    g\<lparr>g_is_reg := True, g_module := Some m, g_reg := Some r, g_field := Some f, g_module_match := True,
      g_is_write := True, g_value := strtoul16 v\<rparr>"
  using assms by (simp add: parse_reg_arg_def strchr_cut_append)

text \<open>
  The command line \<open>M.R.F=V\<close> writes exactly the field it names: when the chip's table has
  the module, the module has the register and the register has the writable field (and no other
  field of that name), \<open>main\<close> does what \<open>write_reg_mask\<close> does on that register's address and
  width and that field's bits, with the hexadecimal number \<open>V\<close>, and nothing else.
\<close>
lemma main_write_field:
  assumes "select_soc env False s = MOk (k, s1)"
    and "sy_tables env k = ms1 @ mx # ms2" and "m \<notin> m_name ` set ms1" and "m_name mx = m"
    and "m_regs mx = rs1 @ rg # rs2" and "r \<notin> r_name ` set rs1" and "r_name rg = r"
    and "r_fields rg = fs1 @ fd # fs2" and "f \<notin> f_name ` set fs1" and "f \<notin> f_name ` set fs2"
    and "f_name fd = f" and "f_is_writable fd" and "f \<noteq> []"
    and "CHR ''.'' \<notin> set m" and "CHR ''.'' \<notin> set r" and "CHR ''='' \<notin> set f"
    and "strstr (m @ CHR ''.'' # r @ CHR ''.'' # f @ CHR ''='' # v) ''memtool'' = None"
  shows "main env [p, m @ CHR ''.'' # r @ CHR ''.'' # f @ CHR ''='' # v] s =
    mt_bind (write_reg_mask (m_base_address mx + r_offset rg) (r_width rg) (strtoul16 v) (f_lsb fd) (f_msb fd) s1)
      (\<lambda>s. MOk (0, s))"
proof -
  have w: "write_modules (Some m) (Some r) (Some f) x (sy_tables env k) s1 =
    write_reg_mask (m_base_address mx + r_offset rg) (r_width rg) x (f_lsb fd) (f_msb fd) s1" for x
    using write_modules_found [OF assms(3,4), of r "Some f" x ms2 s1]
      write_regs_found [OF assms(6,7,13), of mx x rs2 s1]
      write_fields_found [OF assms(9,10,11,12), of mx rg x s1]
    by (simp add: assms(2,5,8))
  show ?thesis
    using parse_cmdline_dot [OF assms(17), of p mt_args0] parse_reg_arg_field [OF assms(14-16), of v mt_args0] assms(1)
    by (simp add: main_def mt_args0_def parse_module_def w)
qed

definition fld_demo :: field_t where
  "fld_demo = \<lparr>f_name = ''EN'', f_description = [], f_lsb = 1, f_msb = 2, f_is_readable = True, f_is_writable = True\<rparr>"

definition reg_demo :: reg_t where
  "reg_demo = \<lparr>r_name = ''UCR1'', r_description = [], r_width = 4, r_offset = 0x80, r_is_readable = True,
     r_is_writable = True, r_fields = [fld_demo]\<rparr>"

definition mod_demo :: module_t where
  "mod_demo = \<lparr>m_name = ''UART1'', m_base_address = 0x2020000, m_regs = [reg_demo]\<rparr>"

definition env_demo :: sys_env where
  "env_demo = \<lparr>sy_release = Some (3, 14, 28), sy_cpuinfo = None, sy_soc_id = Some ''i.MX6Q'', sy_tables = (\<lambda>_. [mod_demo])\<rparr>"

lemma select_soc_demo: "select_soc env_demo False mt_demo = MOk (MX6Q, logm (ESoc ''i.MX6Q'') mt_demo)"
  by (simp add: select_soc_def env_demo_def KERN_VER_def soc_of_name_def)

text \<open>
  A write to a module that the chip's table does not have ends in a crash: the loop never
  sees a null pointer and compares the name of the table's terminating entry, so the message for
  this case is never printed.
\<close>
lemma parse_module_unknown_write_crashes:
  assumes "select_soc env False s = MOk (k, s1)" and "m \<notin> m_name ` set (sy_tables env k)"
  shows "parse_module env False mm v (Some m) reg field True s = MCrash"
  using assms by (simp add: parse_module_def write_modules_unknown)

section \<open>Properties of plain reads\<close>

fun mem_vals :: "mt_event list \<Rightarrow> u32 list" where
  "mem_vals [] = []"
| "mem_vals (EMemVal v # es) = v # mem_vals es"
| "mem_vals (_ # es) = mem_vals es"

lemma mem_vals_append [simp]: "mem_vals (xs @ ys) = mem_vals xs @ mem_vals ys"
  by (induction xs rule: mem_vals.induct) auto

lemma page_offset: "a - page_of a = a AND 0xfff"
  using page_split [of a] by (metis add_diff_cancel_left')

lemma page_offset_less: "unat ((a :: u32) AND 0xfff) < 4096"
proof -
  have "a AND 0xfff \<le> 0xfff" by (rule word_and_le1)
  then show ?thesis by (simp add: word_le_nat_alt)
qed

text \<open>Rounding up to a page.\<close>

lemma round_up_ge:
  assumes "unat (x :: u32) + 4096 \<le> 2 ^ 32"
  shows "unat x \<le> unat ((x + 4096 - 1) AND NOT (0xfff))"
proof -
  define y where "y = x + 0xfff"
  have y: "unat y = unat x + 4095" using assms unfolding y_def by (subst unat_add_lem [THEN iffD1]) auto
  have "page_of y = y - (y AND 0xfff)" using page_split [of y] by (simp add: eq_diff_eq)
  then have "unat (page_of y) = unat y - unat (y AND 0xfff)" by (simp add: unat_sub word_and_le2)
  then have "unat x \<le> unat (page_of y)" using y page_offset_less [of y] by linarith
  moreover have "x + 4096 - 1 = y" by (simp add: y_def)
  ultimately show ?thesis by (simp add: page_of_def)
qed

lemma unat_mult_small: "unat (c :: u32) * k < 2 ^ 32 \<Longrightarrow> k < 2 ^ 32 \<Longrightarrow> unat (c * of_nat k) = unat c * k"
  by (simp add: unat_word_ariths unat_of_nat take_bit_nat_eq_self)

lemma aligned_size_ge:
  assumes "unat paddr + unat count * sz + 4096 \<le> 2 ^ 32" and "acc_width sz"
  shows "unat (paddr AND 0xfff) + unat count * sz \<le> unat (aligned_size paddr count sz)"
proof -
  have le: "unat (paddr AND 0xfff) \<le> unat paddr" using word_and_le2 [of paddr "0xfff"] by (simp add: word_le_nat_alt)
  have c: "unat (count * of_nat sz) = unat count * sz"
    by (rule unat_mult_small) (use assms in \<open>auto simp: acc_width_def\<close>)
  define x where "x = (paddr AND 0xfff) + count * of_nat sz"
  have x: "unat x = unat (paddr AND 0xfff) + unat count * sz"
    using le assms(1) unfolding x_def by (subst unat_add_lem [THEN iffD1]) (auto simp: c)
  have "aligned_size paddr count sz = (x + 4096 - 1) AND NOT (0xfff)"
    unfolding aligned_size_def x_def page_of_def [symmetric] page_offset by simp
  then show ?thesis using round_up_ge [of x] x le assms(1) by simp
qed

lemma read_loop_ok:
  assumes "off + (i + n) * sz \<le> len" and "i + n \<le> 2 ^ 31"
  shows "\<exists>pa' s'. read_loop (Some (base, len)) off sz i n pa s = MOk (pa', s') \<and> mt_mem s' = mt_mem s \<and>
    mem_vals (mt_log s') = mem_vals (mt_log s) @
      map (\<lambda>j. le_value (mem_read (mt_mem s) (base + of_nat (off + j * sz)) sz)) [i..<i + n]"
  using assms
proof (induction n arbitrary: i pa s)
  case 0
  then show ?case by simp
next
  case (Suc n)
  define s2 where "s2 = logm (EMemVal (le_value (mem_read (mt_mem s) (base + of_nat (off + i * sz)) sz)))
    (if i mod (16 div sz) = 0 then logm (ELine pa) s else s)"
  have m: "mt_mem s2 = mt_mem s" by (simp add: s2_def)
  have v: "mem_vals (mt_log s2) = mem_vals (mt_log s) @ [le_value (mem_read (mt_mem s) (base + of_nat (off + i * sz)) sz)]"
    by (simp add: s2_def logm_def)
  have acc: "off + i * sz + sz \<le> len" using Suc.prems(1) by (simp add: algebra_simps)
  have step: "read_loop (Some (base, len)) off sz i (Suc n) pa s =
      read_loop (Some (base, len)) off sz (Suc i) n (pa + of_nat sz) s2"
    using Suc.prems acc by (simp add: map_acc_def s2_def Let_def)
  have upt: "[i..<i + Suc n] = i # [Suc i..<Suc i + n]" by (simp add: upt_conv_Cons del: upt_Suc)
  show ?case
    using Suc.IH [of "Suc i" "pa + of_nat sz" s2] Suc.prems unfolding step m v upt
    by (simp del: upt_Suc)
qed

lemma parse_size_width:
  "parse_size as g = MOk (as', g') \<Longrightarrow> acc_width (g_size g) \<Longrightarrow> acc_width (g_size g')"
  by (cases as) (auto simp: parse_size_def arg_hd_def acc_width_def split: if_splits)

lemma g_size_other [simp]:
  "g_size (snd (skip_own_name as g)) = g_size g" "g_size (parse_reg_arg a g) = g_size g"
  "g_size (snd (parse_addr_arg a as g)) = g_size g"
  subgoal by (induction as g rule: skip_own_name.induct) auto
  subgoal by (auto simp: parse_reg_arg_def Let_def split: option.splits)
  subgoal by (auto simp: parse_addr_arg_def parse_rest_def Let_def split: option.splits list.splits)
  done

lemma parse_comp_size: "parse_comp as g = MOk (as', g') \<Longrightarrow> g_size g' = g_size g"
  by (cases as) (auto simp: parse_comp_def arg_hd_def split: if_splits)

lemma mt_bind_eq_MOk: "mt_bind r f = MOk y \<longleftrightarrow> (\<exists>x. r = MOk x \<and> f x = MOk y)"
  by (cases r) simp_all

text \<open>The access size is 1, 2 or 4 whatever the command line.\<close>

lemma parse_cmdline_width:
  assumes "parse_cmdline argv g = MOk (rc, g')" and "acc_width (g_size g)"
  shows "acc_width (g_size g')"
proof (cases "length argv < 2")
  case True
  then show ?thesis using assms by (simp add: parse_cmdline_def)
next
  case False
  with assms(1) obtain as1 g1 as2 g2 where p: "parse_size (tl argv) g = MOk (as1, g1)" "parse_comp as1 g1 = MOk (as2, g2)"
    and r: "(case skip_own_name as2 g2 of ([], g) \<Rightarrow> MOk (if g_comp g then 0 else -1, g)
              | (a # as, g) \<Rightarrow>
                  (if g_comp g \<or> strchr_cut (CHR ''.'') a \<noteq> None then MOk (0, parse_reg_arg a g)
                   else MOk (parse_addr_arg a as g))) = MOk (rc, g')"
    by (auto simp: parse_cmdline_def mt_bind_eq_MOk)
  obtain as3 g3 where sk: "skip_own_name as2 g2 = (as3, g3)" by fastforce
  have "g_size g3 = g_size g1" using g_size_other(1) [of as2 g2] parse_comp_size [OF p(2)] by (simp add: sk)
  moreover have "g_size g' = g_size g3"
  proof (cases as3)
    case Nil
    then show ?thesis using r by (simp add: sk)
  next
    case (Cons a as)
    then have "g' = parse_reg_arg a g3 \<or> g' = snd (parse_addr_arg a as g3)"
      using r by (auto simp: sk split: if_splits)
    then show ?thesis by auto
  qed
  ultimately show ?thesis using parse_size_width [OF p(1) assms(2)] by simp
qed

text \<open>
  C35: A plain read (\<open>memtool ADDR COUNT\<close>) whose range, rounded up to pages, does not pass the end
  of the 32-bit address space stays inside the mapping that \<open>main\<close> asked for: \<open>main\<close> returns 0,
  prints the \<open>COUNT\<close> values of consecutive elements of the chosen size from the aligned address
  on, in order, and leaves the memory unchanged.
\<close>
theorem main_read_range:
  assumes "parse_cmdline argv mt_args0 = MOk (0, g)"
    and "\<not> g_is_reg g" and "\<not> g_comp g" and "\<not> g_is_write g"
    and "unat (g_paddr g AND NOT (of_nat (g_size g - 1))) + unat (g_count g) * g_size g + 4096 \<le> 2 ^ 32"
    and "0 < g_count g" and "unat (g_count g) \<le> 2 ^ 31"
    and "mt_open s = []" and "mt_mmap s = []"
  shows "\<exists>s'. main env argv s = MOk (0, s') \<and> mt_mem s' = mt_mem s \<and>
    mem_vals (mt_log s') = mem_vals (mt_log s) @
      map (\<lambda>i. le_value (mem_read (mt_mem s)
             ((g_paddr g AND NOT (of_nat (g_size g - 1))) + of_nat (i * g_size g)) (g_size g)))
        [0..<unat (g_count g)]"
proof -
  define pa where "pa = (g_paddr g AND NOT (of_nat (g_size g - 1)))"
  define len where "len = aligned_size pa (g_count g) (g_size g)"
  define s1 where "s1 = logm (EReading (g_count g) pa) s"
  have w: "acc_width (g_size g)" using parse_cmdline_width [OF assms(1)] by (simp add: mt_args0_def acc_width_def)
  have ge: "unat (pa AND 0xfff) + unat (g_count g) * g_size g \<le> unat len"
    using aligned_size_ge [OF _ w, of pa "g_count g"] assms(5) by (simp add: pa_def len_def)
  have "0 < unat (g_count g) * g_size g" using assms(6) w by (auto simp: acc_width_def word_less_nat_alt)
  then have "0 < unat len" using ge by linarith
  then have l0: "len \<noteq> 0" by auto
  have addr: "page_of pa + of_nat (unat (pa AND 0xfff) + j * g_size g) = pa + of_nat (j * g_size g)" for j
    using page_split [of pa] by (simp add: add.assoc [symmetric])
  obtain pa' s' where rl: "read_loop (Some (page_of pa, unat len)) (unat (pa AND 0xfff)) (g_size g) 0 (unat (g_count g)) pa s1 =
      MOk (pa', s')" "mt_mem s' = mt_mem s1"
    and lg: "mem_vals (mt_log s') = mem_vals (mt_log s1) @
      map (\<lambda>j. le_value (mem_read (mt_mem s1) (page_of pa + of_nat (unat (pa AND 0xfff) + j * g_size g)) (g_size g)))
        [0..<unat (g_count g)]"
    using read_loop_ok [of "unat (pa AND 0xfff)" 0 "unat (g_count g)" "g_size g" "unat len" "page_of pa" pa s1]
      ge assms(7) by auto
  have s1: "mt_open s1 = []" "mt_mmap s1 = []" "mt_mem s1 = mt_mem s" "mem_vals (mt_log s1) = mem_vals (mt_log s)"
    using assms(8,9) by (simp_all add: s1_def logm_def)
  have mm: "mmap_mem (page_of pa) len (s1\<lparr>mt_open := tl (mt_open s1)\<rparr>) = (Some (page_of pa, unat len), s1)"
    using s1(1,2) l0 by (simp add: mmap_mem_def)
  have rm: "read_mem (Some (page_of pa, unat len)) (unat (pa AND 0xfff)) (g_count g) (g_size g) pa s1 = MOk (pa', s')"
    using rl(1) w unfolding read_mem_def acc_width_def by simp
  have "main_mem g s = MOk (0, s')"
    unfolding main_mem_def Let_def pa_def [symmetric] len_def [symmetric] page_of_def [symmetric] page_offset
    using assms(4) s1(1) mm rm by (simp add: s1_def [symmetric])
  then have "main env argv s = MOk (0, s')" using assms(1-3) by (simp add: main_def)
  then show ?thesis using rl(2) lg s1 unfolding addr pa_def [symmetric] by auto
qed

theorem main_read_range_witness:
  "\<exists>s'. main env_demo [''memtool'', ''-16'', ''FF2'', ''2''] (mt_demo\<lparr>mt_open := [], mt_mmap := []\<rparr>) = MOk (0, s') \<and>
     mem_vals (mt_log s') = [0xF3F2, 0xF5F4]"
proof -
  have n: "strtoul16 ''FF2'' = 0xFF2" "strtoul16 ''2'' = 2"
    by (simp_all add: strtoul16_def hex_val_def isspace_def)
  have p: "parse_cmdline [''memtool'', ''-16'', ''FF2'', ''2''] mt_args0 =
    MOk (0, mt_args0\<lparr>g_size := 2, g_paddr := 0xFF2, g_count := 2\<rparr>)"
    by (simp add: parse_cmdline_def parse_size_def parse_comp_def arg_hd_def parse_addr_arg_def parse_rest_def
        has_prefix_def n mt_args0_def)
  have v: "map (\<lambda>i. le_value (mem_read (\<lambda>x. ucast x) ((0xFF2 AND NOT (of_nat (2 - 1))) + of_nat (i * 2)) 2)) [0..<unat (2 :: u32)]
    = [0xF3F2, 0xF5F4 :: u32]" by code_simp
  show ?thesis
    using main_read_range [OF p, of "mt_demo\<lparr>mt_open := [], mt_mmap := []\<rparr>" env_demo] v
    by (simp add: mt_args0_def mt_demo_def) blast
qed

end
