(* ===== verification/Vpu_Fb.thy ===== *)
theory Vpu_Fb
  imports Prelude "HOL-Library.Multiset"
begin

unbundle bit_operations_syntax

text \<open>
  Frame buffers of the VPU test (\<^verbatim>\<open>src/test/mxc_vpu_test/fb.c\<close>): linear buffers (\<open>framebuf_alloc\<close>),
  tiled buffers whose four plane addresses are packed into three words (\<open>tiled_framebuf_base\<close>,
  \<open>tiled_framebuf_alloc\<close>) and \<open>framebuf_free\<close>. The memory functions of the VPU library are an
  argument (\<open>vpu_io\<close>, over a state \<open>'io\<close> of the library); what the code relies on is \<open>io_laws\<close>.
  Sizes are C \<open>int\<close>s whose overflow is \<open>Undef\<close>; addresses are 32-bit words.
\<close>

section \<open>Data\<close>

record vpu_mem_desc =
  md_size :: int
  md_phy_addr :: u32
  md_virt_uaddr :: u32

definition desc0 :: vpu_mem_desc where
  "desc0 = \<lparr>md_size = 0, md_phy_addr = 0, md_virt_uaddr = 0\<rparr>"

record frame_buf =
  addrY :: u32
  addrCb :: u32
  addrCr :: u32
  strideY :: int
  strideC :: int
  mvColBuf :: u32
  desc :: vpu_mem_desc

record 'io vpu_io =
  IOGetPhyMem :: "vpu_mem_desc \<Rightarrow> 'io \<Rightarrow> int \<times> vpu_mem_desc \<times> 'io"
  IOGetVirtMem :: "vpu_mem_desc \<Rightarrow> 'io \<Rightarrow> int \<times> vpu_mem_desc \<times> 'io"
  IOFreePhyMem :: "vpu_mem_desc \<Rightarrow> 'io \<Rightarrow> 'io"
  IOFreeVirtMem :: "vpu_mem_desc \<Rightarrow> 'io \<Rightarrow> vpu_mem_desc \<times> 'io"
  TILED_FRAME_MB_RASTER_MAP :: int

definition MODE420 :: int where "MODE420 = 0"
definition MODE422 :: int where "MODE422 = 1"
definition MODE224 :: int where "MODE224 = 2"
definition MODE444 :: int where "MODE444 = 3"
definition MODE400 :: int where "MODE400 = 4"

lemmas mode_defs = MODE420_def MODE422_def MODE224_def MODE444_def MODE400_def

definition SZ_4K :: int where "SZ_4K = 4 * 1024"

section \<open>Sizes\<close>

definition chk :: "int \<Rightarrow> int run" where
  "chk i = (if int32 i then Done i else Undef)"

definition div_x :: "int \<Rightarrow> int" where
  "div_x format = (if format = MODE420 \<or> format = MODE422 then 2 else 1)"

definition div_y :: "int \<Rightarrow> int" where
  "div_y format = (if format = MODE420 \<or> format = MODE224 then 2 else 1)"

text \<open>\<open>strideY / divX * height / divY\<close>\<close>

definition chroma_plane :: "int \<Rightarrow> int \<Rightarrow> int \<Rightarrow> int \<Rightarrow> int run" where
  "chroma_plane stride h dx dy = run_bind (chk (stride sdiv dx * h)) (\<lambda>p. Done (p sdiv dy))"

text \<open>\<open>(x + align - 1) & ~(align - 1)\<close>\<close>

definition align_4k :: "int \<Rightarrow> int run" where
  "align_4k x = run_bind (chk (x + SZ_4K)) (\<lambda>y. Done ((y - 1) AND NOT (SZ_4K - 1)))"

section \<open>Linear buffers\<close>

definition linear_size :: "int \<Rightarrow> int \<Rightarrow> int \<Rightarrow> int \<Rightarrow> (int \<times> int \<times> int) run" where
  "linear_size format stride h mvCol =
     run_bind (chk (stride * h)) (\<lambda>luma.
     run_bind (chroma_plane stride h (div_x format) (div_y format)) (\<lambda>chroma.
     run_bind (chk (chroma * 2)) (\<lambda>c2.
     run_bind (chk (luma + c2)) (\<lambda>sz.
     run_bind (if mvCol \<noteq> 0 then chk (sz + chroma) else Done sz) (\<lambda>sz'.
       Done (luma, chroma, sz'))))))"

text \<open>The result: whether the pointer is returned (not NULL), the buffer, the library's state.\<close>

definition framebuf_alloc ::
    "'io vpu_io \<Rightarrow> frame_buf option \<Rightarrow> int \<Rightarrow> int \<Rightarrow> int \<Rightarrow> int \<Rightarrow> int \<Rightarrow> 'io \<Rightarrow> (bool \<times> frame_buf option \<times> 'io) run" where
  "framebuf_alloc lib fbp stdMode format stride h mvCol io =
     (case fbp of None \<Rightarrow> Done (False, None, io)
      | Some fb \<Rightarrow>
          run_bind (linear_size format stride h mvCol) (\<lambda>(luma, chroma, sz).
            (case IOGetPhyMem lib (desc0\<lparr>md_size := sz\<rparr>) io of (err, d, io1) \<Rightarrow>
               if err \<noteq> 0 then Done (False, Some (fb\<lparr>desc := desc0\<rparr>), io1)
               else
                 (let y = md_phy_addr d;
                      cb = y + word_of_int luma;
                      cr = cb + word_of_int chroma;
                      fb1 = fb\<lparr>addrY := y, addrCb := cb, addrCr := cr, strideY := stride,
                               strideC := stride sdiv div_x format,
                               mvColBuf := (if mvCol \<noteq> 0 then cr + word_of_int chroma else mvColBuf fb),
                               desc := d\<rparr>
                  in case IOGetVirtMem lib d io1 of (r, d', io2) \<Rightarrow>
                       if r = -1 then Done (False, Some (fb1\<lparr>desc := desc0\<rparr>), IOFreePhyMem lib d' io2)
                       else Done (True, Some (fb1\<lparr>desc := d'\<rparr>), io2)))))"

section \<open>Tiled buffers\<close>

record tiled_sizes =
  luma_top_size :: int
  chroma_top_size :: int
  luma_bot_size :: int
  chroma_bot_size :: int

definition tiled_plane_sizes :: "bool \<Rightarrow> int \<Rightarrow> int \<Rightarrow> int \<Rightarrow> int \<Rightarrow> tiled_sizes run" where
  "tiled_plane_sizes frame_map stride h dx dy =
     run_bind (chk (stride * h)) (\<lambda>luma.
     run_bind (chroma_plane stride h dx dy) (\<lambda>chroma.
       if frame_map then
         run_bind (align_4k luma) (\<lambda>lt.
         run_bind (chk (chroma * 2)) (\<lambda>c2.
         run_bind (align_4k c2) (\<lambda>ct.
           Done \<lparr>luma_top_size = lt, chroma_top_size = ct, luma_bot_size = 0, chroma_bot_size = 0\<rparr>)))
       else
         run_bind (align_4k (luma sdiv 2)) (\<lambda>lt.
         run_bind (align_4k chroma) (\<lambda>ct.
           Done \<lparr>luma_top_size = lt, chroma_top_size = ct, luma_bot_size = lt, chroma_bot_size = ct\<rparr>))))"

record tiled_bases =
  lum_top_base :: u32
  chr_top_base :: u32
  lum_bot_base :: u32
  chr_bot_base :: u32

definition tiled_plane_bases :: "bool \<Rightarrow> u32 \<Rightarrow> tiled_sizes \<Rightarrow> tiled_bases" where
  "tiled_plane_bases frame_map base t =
     (let lt = (base + 4096 - 1) AND NOT (4096 - 1);
          ct = lt + word_of_int (luma_top_size t);
          lb = (if frame_map then 0 else ct + word_of_int (chroma_top_size t));
          cb = (if frame_map then 0 else lb + word_of_int (luma_bot_size t))
      in \<lparr>lum_top_base = lt, chr_top_base = ct, lum_bot_base = lb, chr_bot_base = cb\<rparr>)"

text \<open>Three words hold the four 20-bit page numbers.\<close>

definition tiled_pack :: "tiled_bases \<Rightarrow> u32 \<times> u32 \<times> u32" where
  "tiled_pack b =
     (let lt = drop_bit 12 (lum_top_base b); lb = drop_bit 12 (lum_bot_base b);
          ct = drop_bit 12 (chr_top_base b); cb = drop_bit 12 (chr_bot_base b)
      in (push_bit 12 lt + drop_bit 8 ct, push_bit 24 ct + push_bit 4 lb + drop_bit 16 cb, push_bit 16 cb))"

text \<open>\<open>tiled_framebuf_base\<close> stores the three words in \<open>bufY\<close>, \<open>bufCb\<close> and \<open>bufCr\<close> of the library's frame buffer.\<close>

definition tiled_framebuf_base :: "'io vpu_io \<Rightarrow> u32 \<Rightarrow> int \<Rightarrow> int \<Rightarrow> int \<Rightarrow> (int \<times> u32 \<times> u32 \<times> u32) run" where
  "tiled_framebuf_base lib frame_base stride h mapType =
     (let fm = (mapType = TILED_FRAME_MB_RASTER_MAP lib)
      in run_bind (tiled_plane_sizes fm stride h 2 2) (\<lambda>t.
           Done (0, tiled_pack (tiled_plane_bases fm frame_base t))))"

definition tiled_total :: "tiled_sizes \<Rightarrow> int \<Rightarrow> int \<Rightarrow> int \<Rightarrow> int \<Rightarrow> int \<Rightarrow> int run" where
  "tiled_total t stride h dx dy mvCol =
     run_bind (chk (luma_top_size t + chroma_top_size t)) (\<lambda>a.
     run_bind (chk (a + luma_bot_size t)) (\<lambda>b.
     run_bind (chk (b + chroma_bot_size t)) (\<lambda>c.
     run_bind (chk (c + (SZ_4K - 1))) (\<lambda>d.
       if mvCol \<noteq> 0 then run_bind (chroma_plane stride h dx dy) (\<lambda>p. chk (d + p)) else Done d))))"

definition tiled_framebuf_alloc ::
    "'io vpu_io \<Rightarrow> frame_buf option \<Rightarrow> int \<Rightarrow> int \<Rightarrow> int \<Rightarrow> int \<Rightarrow> int \<Rightarrow> int \<Rightarrow> 'io \<Rightarrow> (bool \<times> frame_buf option \<times> 'io) run" where
  "tiled_framebuf_alloc lib fbp stdMode format stride h mvCol mapType io =
     (case fbp of None \<Rightarrow> Done (False, None, io)
      | Some fb \<Rightarrow>
          (let fm = (mapType = TILED_FRAME_MB_RASTER_MAP lib); dx = div_x format; dy = div_y format
           in run_bind (tiled_plane_sizes fm stride h dx dy) (\<lambda>t.
              run_bind (tiled_total t stride h dx dy mvCol) (\<lambda>sz.
                (case IOGetPhyMem lib (desc0\<lparr>md_size := sz\<rparr>) io of (err, d, io1) \<Rightarrow>
                   if err \<noteq> 0 then Done (False, Some (fb\<lparr>desc := desc0\<rparr>), io1)
                   else case IOGetVirtMem lib d io1 of (r, d', io2) \<Rightarrow>
                     if r = -1 then Done (False, Some (fb\<lparr>desc := desc0\<rparr>), IOFreePhyMem lib d' io2)
                     else
                       (let b = tiled_plane_bases fm (md_phy_addr d') t;
                            (y, cb, cr) = tiled_pack b
                        in Done (True,
                             Some (fb\<lparr>addrY := y, addrCb := cb, addrCr := cr, strideY := stride,
                               strideC := stride sdiv dx,
                               mvColBuf := (if mvCol = 0 then mvColBuf fb
                                  else if fm then chr_top_base b + word_of_int (chroma_top_size t)
                                  else chr_bot_base b + word_of_int (chroma_bot_size t)),
                               desc := d'\<rparr>), io2)))))))"

section \<open>Release\<close>

definition framebuf_free :: "'io vpu_io \<Rightarrow> frame_buf option \<Rightarrow> 'io \<Rightarrow> frame_buf option \<times> 'io" where
  "framebuf_free lib fbp io =
     (case fbp of None \<Rightarrow> (None, io)
      | Some fb \<Rightarrow>
          (let (d, io1) = (if md_virt_uaddr (desc fb) \<noteq> 0 then IOFreeVirtMem lib (desc fb) io else (desc fb, io));
               io2 = (if md_phy_addr d \<noteq> 0 then IOFreePhyMem lib d io1 else io1)
           in (Some (fb\<lparr>desc := desc0\<rparr>), io2)))"

section \<open>What the code relies on\<close>

text \<open>
  \<open>phys\<close> and \<open>virt\<close> are the physical blocks and the mappings the program holds. A successful
  \<open>IOGetPhyMem\<close> adds one block and keeps the requested size, a successful \<open>IOGetVirtMem\<close> adds one
  mapping; failing calls change nothing; the free functions give back what the descriptor names.
\<close>

definition io_laws :: "'io vpu_io \<Rightarrow> ('io \<Rightarrow> u32 multiset) \<Rightarrow> ('io \<Rightarrow> u32 multiset) \<Rightarrow> bool" where
  "io_laws lib phys virt \<longleftrightarrow>
     (\<forall>d io e d' io'. IOGetPhyMem lib d io = (e, d', io') \<longrightarrow>
        virt io' = virt io \<and>
        (if e = 0 then phys io' = add_mset (md_phy_addr d') (phys io) \<and> md_phy_addr d' \<noteq> 0 \<and>
                       md_size d' = md_size d \<and> md_virt_uaddr d' = md_virt_uaddr d
         else phys io' = phys io)) \<and>
     (\<forall>d io r d' io'. IOGetVirtMem lib d io = (r, d', io') \<longrightarrow>
        phys io' = phys io \<and> md_phy_addr d' = md_phy_addr d \<and> md_size d' = md_size d \<and>
        (if r = -1 then virt io' = virt io
         else virt io' = add_mset (md_virt_uaddr d') (virt io) \<and> md_virt_uaddr d' \<noteq> 0)) \<and>
     (\<forall>d io. phys (IOFreePhyMem lib d io) = phys io - {#md_phy_addr d#} \<and> virt (IOFreePhyMem lib d io) = virt io) \<and>
     (\<forall>d io d' io'. IOFreeVirtMem lib d io = (d', io') \<longrightarrow>
        virt io' = virt io - {#md_virt_uaddr d#} \<and> phys io' = phys io \<and> md_phy_addr d' = md_phy_addr d)"

lemma io_laws_getphy:
  assumes "io_laws lib phys virt" and "IOGetPhyMem lib d io = (e, d', io')"
  shows "virt io' = virt io" "e \<noteq> 0 \<Longrightarrow> phys io' = phys io"
    "e = 0 \<Longrightarrow> phys io' = add_mset (md_phy_addr d') (phys io) \<and> md_phy_addr d' \<noteq> 0 \<and> md_size d' = md_size d"
  using assms unfolding io_laws_def by (metis (no_types))+

lemma io_laws_getvirt:
  assumes "io_laws lib phys virt" and "IOGetVirtMem lib d io = (r, d', io')"
  shows "phys io' = phys io" "md_phy_addr d' = md_phy_addr d" "md_size d' = md_size d"
    "r = -1 \<Longrightarrow> virt io' = virt io"
    "r \<noteq> -1 \<Longrightarrow> virt io' = add_mset (md_virt_uaddr d') (virt io) \<and> md_virt_uaddr d' \<noteq> 0"
  using assms unfolding io_laws_def by (metis (no_types))+

lemma io_laws_free:
  assumes "io_laws lib phys virt"
  shows "phys (IOFreePhyMem lib d io) = phys io - {#md_phy_addr d#}" "virt (IOFreePhyMem lib d io) = virt io"
    "virt (snd (IOFreeVirtMem lib d io)) = virt io - {#md_virt_uaddr d#}"
    "phys (snd (IOFreeVirtMem lib d io)) = phys io"
    "md_phy_addr (fst (IOFreeVirtMem lib d io)) = md_phy_addr d"
  using assms unfolding io_laws_def by (metis surjective_pairing)+

section \<open>Allocation and release balance\<close>

text \<open>What an allocation leaves: all it took is named by the descriptor.\<close>

definition fb_owns :: "('io \<Rightarrow> u32 multiset) \<Rightarrow> ('io \<Rightarrow> u32 multiset) \<Rightarrow> 'io \<Rightarrow> bool \<Rightarrow> frame_buf \<Rightarrow> 'io \<Rightarrow> bool" where
  "fb_owns phys virt io ok fb io' \<longleftrightarrow>
     (if ok then md_phy_addr (desc fb) \<noteq> 0 \<and> md_virt_uaddr (desc fb) \<noteq> 0 \<and>
                 phys io' = add_mset (md_phy_addr (desc fb)) (phys io) \<and>
                 virt io' = add_mset (md_virt_uaddr (desc fb)) (virt io)
      else desc fb = desc0 \<and> phys io' = phys io \<and> virt io' = virt io)"

lemma framebuf_free_owned:
  assumes "io_laws lib phys virt" and "fb_owns phys virt io ok fb io'"
  shows "phys (snd (framebuf_free lib (Some fb) io')) = phys io" "virt (snd (framebuf_free lib (Some fb) io')) = virt io"
  using assms(2) by (auto simp: framebuf_free_def fb_owns_def desc0_def io_laws_free [OF assms(1)] case_prod_beta
      split: if_splits)

text \<open>The two allocation calls of both functions.\<close>

lemma alloc_calls_owns:
  assumes L: "io_laws lib phys virt" and p: "IOGetPhyMem lib d0 io = (e, d, io1)" "e = 0"
    and v: "IOGetVirtMem lib d io1 = (r, d', io2)"
  shows "r = -1 \<Longrightarrow> desc fb = desc0 \<Longrightarrow> fb_owns phys virt io False fb (IOFreePhyMem lib d' io2)"
    "r \<noteq> -1 \<Longrightarrow> desc fb = d' \<Longrightarrow> fb_owns phys virt io True fb io2"
  using io_laws_getphy [OF L p(1)] p(2) io_laws_getvirt [OF L v] io_laws_free [OF L]
  by (auto simp: fb_owns_def)

lemma framebuf_alloc_owns:
  assumes "io_laws lib phys virt" and "framebuf_alloc lib (Some fb) m f stride h mv io = Done (ok, Some fb', io')"
  shows "fb_owns phys virt io ok fb' io'"
proof -
  obtain luma chroma sz where ls: "linear_size f stride h mv = Done (luma, chroma, sz)"
    using assms(2) by (auto simp: framebuf_alloc_def run_bind_eq_Done)
  obtain e d io1 where p: "IOGetPhyMem lib (desc0\<lparr>md_size := sz\<rparr>) io = (e, d, io1)" by (rule prod_cases3)
  obtain r d' io2 where v: "IOGetVirtMem lib d io1 = (r, d', io2)" by (rule prod_cases3)
  show ?thesis
  proof (cases "e = 0")
    case True
    then show ?thesis
      using assms(2) alloc_calls_owns [OF assms(1) p True v]
      by (auto simp: framebuf_alloc_def ls p v Let_def split: if_splits)
  next
    case False
    then show ?thesis
      using assms(2) io_laws_getphy [OF assms(1) p] by (auto simp: framebuf_alloc_def ls p fb_owns_def)
  qed
qed

text \<open>A successful or failing tiled allocation, taken apart.\<close>

lemma tiled_alloc_cases:
  assumes "tiled_framebuf_alloc lib (Some fb) m f stride h mv mt io = Done (ok, Some fb', io')"
  obtains t sz e d io1 r d' io2 where
    "tiled_plane_sizes (mt = TILED_FRAME_MB_RASTER_MAP lib) stride h (div_x f) (div_y f) = Done t"
    "tiled_total t stride h (div_x f) (div_y f) mv = Done sz"
    "IOGetPhyMem lib (desc0\<lparr>md_size := sz\<rparr>) io = (e, d, io1)" "IOGetVirtMem lib d io1 = (r, d', io2)"
proof -
  obtain t sz where t: "tiled_plane_sizes (mt = TILED_FRAME_MB_RASTER_MAP lib) stride h (div_x f) (div_y f) = Done t"
    "tiled_total t stride h (div_x f) (div_y f) mv = Done sz"
    using assms by (auto simp: tiled_framebuf_alloc_def run_bind_eq_Done Let_def)
  obtain e d io1 where p: "IOGetPhyMem lib (desc0\<lparr>md_size := sz\<rparr>) io = (e, d, io1)" by (rule prod_cases3)
  obtain r d' io2 where v: "IOGetVirtMem lib d io1 = (r, d', io2)" by (rule prod_cases3)
  show thesis by (rule that [OF t p v])
qed

lemma tiled_framebuf_alloc_owns:
  assumes "io_laws lib phys virt"
    and "tiled_framebuf_alloc lib (Some fb) m f stride h mv mt io = Done (ok, Some fb', io')"
  shows "fb_owns phys virt io ok fb' io'"
proof -
  obtain t sz e d io1 r d' io2 where
    t: "tiled_plane_sizes (mt = TILED_FRAME_MB_RASTER_MAP lib) stride h (div_x f) (div_y f) = Done t"
    "tiled_total t stride h (div_x f) (div_y f) mv = Done sz"
    and p: "IOGetPhyMem lib (desc0\<lparr>md_size := sz\<rparr>) io = (e, d, io1)" and v: "IOGetVirtMem lib d io1 = (r, d', io2)"
    using tiled_alloc_cases [OF assms(2)] .
  obtain y cb cr where k: "tiled_pack (tiled_plane_bases (mt = TILED_FRAME_MB_RASTER_MAP lib) (md_phy_addr d') t) = (y, cb, cr)"
    by (rule prod_cases3)
  show ?thesis
  proof (cases "e = 0")
    case True
    then show ?thesis
      using assms(2) alloc_calls_owns [OF assms(1) p True v]
      unfolding tiled_framebuf_alloc_def by (auto simp: t p v k Let_def split: if_splits)
  next
    case False
    then show ?thesis
      using assms(2) io_laws_getphy [OF assms(1) p] by (auto simp: tiled_framebuf_alloc_def t p fb_owns_def)
  qed
qed

text \<open>
  C38: Allocation and release balance for linear and tiled buffers: an allocation that fails leaves
  the program's blocks and mappings as they were, and \<open>framebuf_free\<close> of whatever an allocation
  left, successful or not, gives back exactly what the allocation took.
\<close>
theorem framebuf_alloc_free:
  assumes "io_laws lib phys virt"
    and "framebuf_alloc lib (Some fb) m f stride h mv io = Done (ok, Some fb', io') \<or>
      tiled_framebuf_alloc lib (Some fb) m f stride h mv mt io = Done (ok, Some fb', io')"
  shows "(\<not> ok \<longrightarrow> phys io' = phys io \<and> virt io' = virt io) \<and>
    phys (snd (framebuf_free lib (Some fb') io')) = phys io \<and>
    virt (snd (framebuf_free lib (Some fb') io')) = virt io"
proof -
  have o: "fb_owns phys virt io ok fb' io'"
    using assms(2) framebuf_alloc_owns [OF assms(1), of fb m f stride h mv io ok fb' io']
      tiled_framebuf_alloc_owns [OF assms(1), of fb m f stride h mv mt io ok fb' io'] by argo
  then show ?thesis using framebuf_free_owned [OF assms(1) o] by (auto simp: fb_owns_def)
qed

text \<open>A library with one block and one mapping to give out.\<close>

definition io_demo :: "(u32 multiset \<times> u32 multiset) vpu_io" where
  "io_demo = \<lparr>IOGetPhyMem = (\<lambda>d (p, v). (0, d\<lparr>md_phy_addr := 0x10000800\<rparr>, (add_mset 0x10000800 p, v))),
     IOGetVirtMem = (\<lambda>d (p, v). (0, d\<lparr>md_virt_uaddr := 0x76000000\<rparr>, (p, add_mset 0x76000000 v))),
     IOFreePhyMem = (\<lambda>d (p, v). (p - {#md_phy_addr d#}, v)),
     IOFreeVirtMem = (\<lambda>d (p, v). (d, (p, v - {#md_virt_uaddr d#}))),
     TILED_FRAME_MB_RASTER_MAP = 1\<rparr>"

lemma io_demo_laws: "io_laws io_demo fst snd"
  by (auto simp: io_laws_def io_demo_def)

definition fb_demo :: frame_buf where
  "fb_demo = \<lparr>addrY = 0, addrCb = 0, addrCr = 0, strideY = 0, strideC = 0, mvColBuf = 0, desc = desc0\<rparr>"

definition fb_demo_lin :: frame_buf where
  "fb_demo_lin = \<lparr>addrY = 0x10000800, addrCb = 0x10000C00, addrCr = 0x10000D00, strideY = 64, strideC = 32,
     mvColBuf = 0, desc = \<lparr>md_size = 1536, md_phy_addr = 0x10000800, md_virt_uaddr = 0x76000000\<rparr>\<rparr>"

lemma fb_demo_alloc:
  "framebuf_alloc io_demo (Some fb_demo) 0 0 64 16 0 ({#}, {#}) =
     Done (True, Some fb_demo_lin, ({#0x10000800#}, {#0x76000000#}))"
  by (simp add: framebuf_alloc_def linear_size_def chk_def int32_def chroma_plane_def div_x_def div_y_def mode_defs
      sdiv_nonneg io_demo_def fb_demo_def fb_demo_lin_def desc0_def Let_def)

theorem framebuf_alloc_free_witness:
  "io_laws io_demo fst snd \<and>
   fst (snd (framebuf_free io_demo (Some fb_demo_lin) ({#0x10000800#}, {#0x76000000#}))) = {#} \<and>
   snd (snd (framebuf_free io_demo (Some fb_demo_lin) ({#0x10000800#}, {#0x76000000#}))) = {#}"
  using framebuf_alloc_free [OF io_demo_laws disjI1 [OF fb_demo_alloc]] io_demo_laws by simp

section \<open>Layout of the tiled planes\<close>

text \<open>The reading of the three words that the comment in the source gives.\<close>

definition tiled_unpack :: "u32 \<times> u32 \<times> u32 \<Rightarrow> tiled_bases" where
  "tiled_unpack w =
     (case w of (y, cb, cr) \<Rightarrow>
        \<lparr>lum_top_base = push_bit 12 (drop_bit 12 y),
         chr_top_base = push_bit 12 (push_bit 8 (y AND 0xfff) OR drop_bit 24 cb),
         lum_bot_base = push_bit 12 (drop_bit 4 cb AND 0xfffff),
         chr_bot_base = push_bit 12 (push_bit 16 (cb AND 0xf) OR drop_bit 16 cr)\<rparr>)"

definition page_aligned :: "u32 \<Rightarrow> bool" where
  "page_aligned a \<longleftrightarrow> take_bit 12 a = 0"

lemma page_aligned_bits: "page_aligned a \<Longrightarrow> n < 12 \<Longrightarrow> \<not> bit a n"
  unfolding page_aligned_def by (metis bit_take_bit_iff bit_0_eq bot_fun_def bot_bool_def)

lemma word_masks: "(0xfff :: u32) = mask 12" "(0xfffff :: u32) = mask 20" "(0xf :: u32) = mask 4"
  by (simp_all add: mask_eq_exp_minus_1)

lemma bit_u32_ge: "32 \<le> n \<Longrightarrow> \<not> bit (x :: u32) n"
  using bit_imp_le_length [of x n] by auto

lemma push_12_eqI:
  assumes "page_aligned a" and "\<And>n. n < 20 \<Longrightarrow> bit x n = bit a (12 + n)"
  shows "push_bit 12 x = a"
proof (rule bit_word_eqI)
  fix n
  assume n: "n < LENGTH(32)"
  show "bit (push_bit 12 x) n = bit a n"
    using page_aligned_bits [OF assms(1), of n] assms(2) [of "n - 12"] n
    by (cases "n < 12") (auto simp: bit_simps)
qed

lemma pack_word_1:
  fixes a c :: u32
  assumes "page_aligned a"
  shows "push_bit 12 (drop_bit 12 a) + drop_bit 8 (drop_bit 12 c) = a OR drop_bit 20 c"
proof -
  have "push_bit 12 (drop_bit 12 a) = a"
    by (rule push_12_eqI [OF assms]) (simp add: bit_simps)
  moreover have "a AND drop_bit 20 c = 0"
  proof (rule bit_word_eqI)
    fix n
    show "bit (a AND drop_bit 20 c) n = bit (0 :: u32) n"
      using page_aligned_bits [OF assms, of n] bit_u32_ge [of "20 + n" c]
      by (cases "n < 12") (auto simp: bit_simps)
  qed
  ultimately show ?thesis by (simp add: disjunctive_add_eq_or)
qed

lemma pack_word_2:
  fixes c l d :: u32
  shows "push_bit 24 (drop_bit 12 c) + push_bit 4 (drop_bit 12 l) + drop_bit 16 (drop_bit 12 d)
    = push_bit 24 (drop_bit 12 c) OR push_bit 4 (drop_bit 12 l) OR drop_bit 28 d"
proof -
  have len: "bit x n \<Longrightarrow> n < 32" for x :: u32 and n using bit_imp_le_length [of x n] by simp
  have a: "push_bit 24 (drop_bit 12 c) AND push_bit 4 (drop_bit 12 l) = 0"
    by (rule bit_word_eqI) (auto simp: bit_simps dest!: len)
  have b: "(push_bit 24 (drop_bit 12 c) OR push_bit 4 (drop_bit 12 l)) AND drop_bit 28 d = 0"
    by (rule bit_word_eqI) (auto simp: bit_simps dest!: len)
  show ?thesis using a b by (simp add: disjunctive_add_eq_or or.assoc)
qed

lemma tiled_unpack_pack:
  assumes "page_aligned (lum_top_base b)" and "page_aligned (chr_top_base b)"
    and "page_aligned (lum_bot_base b)" and "page_aligned (chr_bot_base b)"
  shows "tiled_unpack (tiled_pack b) = b"
proof -
  note al = page_aligned_bits [OF assms(1)]
  define y where "y = lum_top_base b OR drop_bit 20 (chr_top_base b)"
  define cb where "cb = push_bit 24 (drop_bit 12 (chr_top_base b)) OR push_bit 4 (drop_bit 12 (lum_bot_base b))
    OR drop_bit 28 (chr_bot_base b)"
  have p: "tiled_pack b = (y, cb, push_bit 16 (drop_bit 12 (chr_bot_base b)))"
    unfolding tiled_pack_def Let_def pack_word_1 [OF assms(1)] pack_word_2 y_def cb_def by simp
  have 1: "push_bit 12 (drop_bit 12 y) = lum_top_base b"
    unfolding y_def by (rule push_12_eqI [OF assms(1)]) (auto simp: bit_simps bit_u32_ge)
  have 2: "push_bit 12 (push_bit 8 (y AND mask 12) OR drop_bit 24 cb) = chr_top_base b"
    unfolding y_def cb_def by (rule push_12_eqI [OF assms(2)]) (auto simp: bit_simps bit_u32_ge al)
  have 3: "push_bit 12 (drop_bit 4 cb AND mask 20) = lum_bot_base b"
    unfolding cb_def by (rule push_12_eqI [OF assms(3)]) (auto simp: bit_simps bit_u32_ge)
  have 4: "push_bit 12 (push_bit 16 (cb AND mask 4) OR drop_bit 16 (push_bit 16 (drop_bit 12 (chr_bot_base b)))) = chr_bot_base b"
    unfolding cb_def by (rule push_12_eqI [OF assms(4)]) (auto simp: bit_simps bit_u32_ge)
  show ?thesis unfolding tiled_unpack_def p prod.case word_masks 1 2 3 4 by simp
qed

lemma chk_Done [simp]: "chk i = Done j \<longleftrightarrow> j = i \<and> int32 i"
  by (auto simp: chk_def)

lemma and_not_4095: "(x :: int) AND NOT 4095 = x - x mod 4096"
proof -
  have "x AND NOT (mask 12) = push_bit 12 (drop_bit 12 x)"
    by (rule bit_eqI) (auto simp: bit_simps)
  also have "\<dots> = x div 4096 * 4096" by (simp add: push_bit_eq_mult drop_bit_eq_div)
  finally show ?thesis by (simp add: mask_eq_exp_minus_1 minus_mod_eq_div_mult)
qed

lemma align_4k_bounds:
  assumes "align_4k x = Done y" and "0 \<le> x"
  shows "x \<le> y" "y \<le> x + 4095" "4096 dvd y"
proof -
  have y: "y = (x + 4095) - (x + 4095) mod 4096"
    using assms(1) and_not_4095 [of "x + 4095"] by (auto simp: align_4k_def SZ_4K_def run_bind_eq_Done add.commute)
  have "0 \<le> (x + 4095) mod 4096" "(x + 4095) mod 4096 < 4096" by simp_all
  then show "x \<le> y" "y \<le> x + 4095" unfolding y by linarith+
  show "4096 dvd y" unfolding y by (rule dvd_minus_mod)
qed

lemma uint_u32_less: "uint (w :: u32) < 2 ^ 32"
  using unsigned_less [of w, where ?'a = int] by simp

lemma uint_add_int:
  assumes "0 \<le> k" and "uint a + k < 2 ^ 32"
  shows "uint ((a :: u32) + word_of_int k) = uint a + k"
proof -
  have "uint (a + word_of_int k) = (uint a + k) mod 2 ^ 32"
    by (simp add: uint_word_ariths uint_word_of_int mod_simps)
  then show ?thesis using assms by (simp add: mod_pos_pos_trivial)
qed

lemma page_aligned_uint: "page_aligned a \<longleftrightarrow> 4096 dvd uint a"
proof -
  have "take_bit 12 a = 0 \<longleftrightarrow> uint (take_bit 12 a) = 0" by (metis uint_0_iff)
  also have "\<dots> \<longleftrightarrow> uint a mod 4096 = 0" unfolding unsigned_take_bit_eq by (simp add: take_bit_eq_mod)
  finally show ?thesis by (simp add: page_aligned_def dvd_eq_mod_eq_0)
qed

lemma round_up_base:
  assumes "uint (a :: u32) + 4095 < 2 ^ 32"
  shows "uint a \<le> uint ((a + 4096 - 1) AND NOT (4096 - 1))"
    "uint ((a + 4096 - 1) AND NOT (4096 - 1)) \<le> uint a + 4095"
    "page_aligned ((a + 4096 - 1) AND NOT (4096 - 1))"
proof -
  define y where "y = a + word_of_int 4095"
  have e: "(a + 4096 - 1) AND NOT (4096 - 1) = y AND NOT (mask 12)"
    by (simp add: y_def mask_eq_exp_minus_1 add.commute)
  have uy: "uint y = uint a + 4095" unfolding y_def by (rule uint_add_int) (use assms in auto)
  have "y AND NOT (mask 12) = push_bit 12 (drop_bit 12 y)" by (rule bit_word_eqI) (auto simp: bit_simps)
  moreover have "uint (push_bit 12 (drop_bit 12 y)) = uint y div 4096 * 4096"
  proof -
    have b: "0 \<le> uint y div 4096 * 4096 \<and> uint y div 4096 * 4096 < 4294967296 \<and> uint y mod 4294967296 = uint y"
      using uint_u32_less [of y] uint_ge_0 [of y] minus_mod_eq_div_mult [of "uint y" 4096]
        pos_mod_sign [of 4096 "uint y"] by (intro conjI; simp; linarith?)
    then show ?thesis unfolding unsigned_push_bit_eq unsigned_drop_bit_eq
      by (simp add: push_bit_eq_mult drop_bit_eq_div take_bit_eq_mod mod_pos_pos_trivial)
  qed
  ultimately have u: "uint ((a + 4096 - 1) AND NOT (4096 - 1)) = uint y div 4096 * 4096" unfolding e by simp
  have "uint y div 4096 * 4096 = uint y - uint y mod 4096" by (simp add: minus_mod_eq_div_mult)
  moreover have "0 \<le> uint y mod 4096" "uint y mod 4096 < 4096" by simp_all
  ultimately show "uint a \<le> uint ((a + 4096 - 1) AND NOT (4096 - 1))"
    "uint ((a + 4096 - 1) AND NOT (4096 - 1)) \<le> uint a + 4095"
    unfolding u using uy by linarith+
  show "page_aligned ((a + 4096 - 1) AND NOT (4096 - 1))" unfolding page_aligned_uint u by simp
qed

text \<open>The plane sizes cover the planes and are whole pages.\<close>

definition chroma_bytes :: "int \<Rightarrow> int \<Rightarrow> int \<Rightarrow> int" where
  "chroma_bytes format stride h = (stride sdiv div_x format * h) sdiv div_y format"

lemma chroma_bytes_nonneg: "0 \<le> stride \<Longrightarrow> 0 \<le> h \<Longrightarrow> 0 \<le> chroma_bytes f stride h"
  by (simp add: chroma_bytes_def div_x_def div_y_def sdiv_nonneg pos_imp_zdiv_nonneg_iff)

definition covers :: "int \<Rightarrow> int \<Rightarrow> bool" where
  "covers s n \<longleftrightarrow> n \<le> s \<and> 4096 dvd s"

lemma chroma_plane_Done: "chroma_plane stride h (div_x f) (div_y f) = Done c \<Longrightarrow> c = chroma_bytes f stride h"
  by (auto simp: chroma_plane_def chroma_bytes_def run_bind_eq_Done)

lemma tiled_plane_sizes_cover:
  assumes "tiled_plane_sizes fm stride h (div_x f) (div_y f) = Done t" and "0 \<le> stride" and "0 \<le> h"
  shows "covers (luma_top_size t) (if fm then stride * h else stride * h div 2)"
    "covers (chroma_top_size t) (if fm then 2 * chroma_bytes f stride h else chroma_bytes f stride h)"
    "luma_bot_size t = (if fm then 0 else luma_top_size t)"
    "chroma_bot_size t = (if fm then 0 else chroma_top_size t)"
proof -
  have c0: "0 \<le> chroma_bytes f stride h" by (rule chroma_bytes_nonneg [OF assms(2,3)])
  have l0: "0 \<le> stride * h" using assms(2,3) by simp
  have h2: "stride * h sdiv 2 = stride * h div 2" by (rule sdiv_nonneg [OF l0]) simp
  have l20: "0 \<le> stride * h div 2" using l0 by simp
  show "covers (luma_top_size t) (if fm then stride * h else stride * h div 2)"
    "covers (chroma_top_size t) (if fm then 2 * chroma_bytes f stride h else chroma_bytes f stride h)"
    "luma_bot_size t = (if fm then 0 else luma_top_size t)"
    "chroma_bot_size t = (if fm then 0 else chroma_top_size t)"
    using assms(1) c0 l0 l20
    by (auto simp: tiled_plane_sizes_def run_bind_eq_Done h2 covers_def mult.commute [of _ 2]
        dest!: chroma_plane_Done dest: align_4k_bounds split: if_splits)
qed

lemma tiled_total_Done:
  assumes "tiled_total t stride h (div_x f) (div_y f) mv = Done sz"
  shows "sz = luma_top_size t + chroma_top_size t + luma_bot_size t + chroma_bot_size t + 4095 +
    (if mv \<noteq> 0 then chroma_bytes f stride h else 0)"
  using assms by (auto simp: tiled_total_def run_bind_eq_Done SZ_4K_def dest!: chroma_plane_Done split: if_splits)

text \<open>The plane addresses as integers: consecutive from the aligned base, nothing wraps.\<close>

lemma tiled_plane_bases_uint:
  assumes "0 \<le> luma_top_size t" and "0 \<le> chroma_top_size t"
    and "4096 dvd luma_top_size t" and "4096 dvd chroma_top_size t"
    and "luma_bot_size t = (if fm then 0 else luma_top_size t)"
    and "chroma_bot_size t = (if fm then 0 else chroma_top_size t)"
    and "uint a + luma_top_size t + chroma_top_size t + luma_bot_size t + chroma_bot_size t + 4095 < 2 ^ 32"
  shows "uint a \<le> uint (lum_top_base (tiled_plane_bases fm a t))"
    "uint (lum_top_base (tiled_plane_bases fm a t)) \<le> uint a + 4095"
    "uint (chr_top_base (tiled_plane_bases fm a t)) = uint (lum_top_base (tiled_plane_bases fm a t)) + luma_top_size t"
    "\<not> fm \<Longrightarrow> uint (lum_bot_base (tiled_plane_bases fm a t)) = uint (chr_top_base (tiled_plane_bases fm a t)) + chroma_top_size t"
    "\<not> fm \<Longrightarrow> uint (chr_bot_base (tiled_plane_bases fm a t)) = uint (lum_bot_base (tiled_plane_bases fm a t)) + luma_top_size t"
    "tiled_unpack (tiled_pack (tiled_plane_bases fm a t)) = tiled_plane_bases fm a t"
proof -
  let ?b = "tiled_plane_bases fm a t"
  have bots: "0 \<le> luma_bot_size t" "0 \<le> chroma_bot_size t" using assms(1,2,5,6) by simp_all
  have lt: "lum_top_base ?b = (a + 4096 - 1) AND NOT (4096 - 1)" by (simp add: tiled_plane_bases_def Let_def)
  have "uint a + 4095 < 2 ^ 32" using assms(1,2,7) bots by linarith
  note r = round_up_base [OF this, folded lt]
  show 1: "uint a \<le> uint (lum_top_base ?b)" and 2: "uint (lum_top_base ?b) \<le> uint a + 4095" by (rule r(1), rule r(2))
  have ct: "chr_top_base ?b = lum_top_base ?b + word_of_int (luma_top_size t)"
    and lb: "\<not> fm \<Longrightarrow> lum_bot_base ?b = chr_top_base ?b + word_of_int (chroma_top_size t)"
    and cb: "\<not> fm \<Longrightarrow> chr_bot_base ?b = lum_bot_base ?b + word_of_int (luma_top_size t)"
    and z: "fm \<Longrightarrow> lum_bot_base ?b = 0 \<and> chr_bot_base ?b = 0"
    using assms(5) by (simp_all add: tiled_plane_bases_def Let_def)
  show 3: "uint (chr_top_base ?b) = uint (lum_top_base ?b) + luma_top_size t"
    unfolding ct by (rule uint_add_int [OF assms(1)]) (use 2 assms(2,7) bots in linarith)
  show 4: "uint (lum_bot_base ?b) = uint (chr_top_base ?b) + chroma_top_size t" if "\<not> fm"
    unfolding lb [OF that] by (rule uint_add_int [OF assms(2)]) (use 2 3 assms(7) bots in linarith)
  show 5: "uint (chr_bot_base ?b) = uint (lum_bot_base ?b) + luma_top_size t" if "\<not> fm"
    unfolding cb [OF that]
    by (rule uint_add_int [OF assms(1)]) (use 2 3 4 [OF that] assms(5,7) bots that in simp)
  have "page_aligned (chr_top_base ?b)" using r(3) assms(3) unfolding page_aligned_uint 3 by simp
  moreover from this have "page_aligned (lum_bot_base ?b)" "page_aligned (chr_bot_base ?b)"
    using 4 5 z assms(3,4) unfolding page_aligned_uint by (cases fm; simp)+
  ultimately show "tiled_unpack (tiled_pack ?b) = ?b" using r(3) by (intro tiled_unpack_pack)
qed

text \<open>
  C37: A successful tiled allocation lays its planes out correctly. Reading the three address words
  back the way the hardware does gives page-aligned plane addresses; from the allocated block's
  start on, luma, chroma (and for the field map the second field's luma and chroma) and the motion
  vectors follow each other without overlap, each as large as the picture needs, and the last ends
  inside the block. (The picture dimensions are not negative and the block does not pass the end
  of the address space.)
\<close>
theorem tiled_alloc_layout:
  assumes "io_laws lib phys virt"
    and "tiled_framebuf_alloc lib (Some fb) m f stride h mv mt io = Done (True, Some fb', io')"
    and "0 \<le> stride" and "0 \<le> h"
    and "uint (md_phy_addr (desc fb')) + md_size (desc fb') < 2 ^ 32"
  shows "let b = tiled_unpack (addrY fb', addrCb fb', addrCr fb');
             start = uint (md_phy_addr (desc fb')); stop = start + md_size (desc fb');
             chroma = chroma_bytes f stride h;
             planes_end = (if mv \<noteq> 0 then uint (mvColBuf fb') else stop)
         in start \<le> uint (lum_top_base b) \<and>
            (if mt = TILED_FRAME_MB_RASTER_MAP lib
             then uint (lum_top_base b) + stride * h \<le> uint (chr_top_base b) \<and>
                  uint (chr_top_base b) + 2 * chroma \<le> planes_end
             else uint (lum_top_base b) + stride * h div 2 \<le> uint (chr_top_base b) \<and>
                  uint (chr_top_base b) + chroma \<le> uint (lum_bot_base b) \<and>
                  uint (lum_bot_base b) + stride * h div 2 \<le> uint (chr_bot_base b) \<and>
                  uint (chr_bot_base b) + chroma \<le> planes_end) \<and>
            (mv \<noteq> 0 \<longrightarrow> planes_end + chroma \<le> stop)"
proof -
  define fm where "fm = (mt = TILED_FRAME_MB_RASTER_MAP lib)"
  obtain t sz e d io1 r d' io2 where
    t: "tiled_plane_sizes fm stride h (div_x f) (div_y f) = Done t" "tiled_total t stride h (div_x f) (div_y f) mv = Done sz"
    and p: "IOGetPhyMem lib (desc0\<lparr>md_size := sz\<rparr>) io = (e, d, io1)" and v: "IOGetVirtMem lib d io1 = (r, d', io2)"
    using tiled_alloc_cases [OF assms(2)] unfolding fm_def .
  define b where "b = tiled_plane_bases fm (md_phy_addr d') t"
  obtain y cb cr where k: "tiled_pack b = (y, cb, cr)" by (rule prod_cases3)
  have fb': "e = 0" "desc fb' = d'" "(addrY fb', addrCb fb', addrCr fb') = tiled_pack b"
    "mv \<noteq> 0 \<Longrightarrow> mvColBuf fb' = (if fm then chr_top_base b + word_of_int (chroma_top_size t)
        else chr_bot_base b + word_of_int (chroma_bot_size t))"
    using assms(2) unfolding tiled_framebuf_alloc_def fm_def [symmetric]
    by (auto simp: t p v k b_def [symmetric] Let_def split: if_splits)
  have sz: "md_size d' = sz" using io_laws_getphy [OF assms(1) p] fb'(1) io_laws_getvirt [OF assms(1) v] by simp
  define c where "c = chroma_bytes f stride h"
  have c0: "0 \<le> c" unfolding c_def by (rule chroma_bytes_nonneg [OF assms(3,4)])
  have l0: "0 \<le> stride * h" using assms(3,4) by simp
  note sizes = tiled_plane_sizes_cover [OF t(1) assms(3,4), folded c_def]
  note total = tiled_total_Done [OF t(2), folded c_def]
  have pos: "0 \<le> luma_top_size t" "0 \<le> chroma_top_size t"
    and dv: "4096 dvd luma_top_size t" "4096 dvd chroma_top_size t"
    using sizes(1,2) l0 c0 by (auto simp: covers_def split: if_splits)
  have room: "uint (md_phy_addr d') + sz < 2 ^ 32" using assms(5) by (simp add: fb'(2) sz)
  have "uint (md_phy_addr d') + luma_top_size t + chroma_top_size t + luma_bot_size t + chroma_bot_size t + 4095 < 2 ^ 32"
    using room c0 unfolding total by (simp split: if_splits)
  note bs = tiled_plane_bases_uint [OF pos dv sizes(3,4) this, folded b_def]
  have u: "tiled_unpack (addrY fb', addrCb fb', addrCr fb') = b" unfolding fb'(3) by (rule bs(6))
  have mvc: "uint (mvColBuf fb') = (if fm then uint (chr_top_base b) + chroma_top_size t
      else uint (chr_bot_base b) + chroma_bot_size t)" if "mv \<noteq> 0"
    using bs room that c0 sizes(3,4) pos unfolding fb'(4) [OF that] total
    by (cases fm) (simp_all add: uint_add_int)
  show ?thesis
    unfolding Let_def u fb'(2) sz fm_def [symmetric] c_def [symmetric]
    using bs(1-5) mvc sizes c0 unfolding total covers_def by (cases fm; cases "mv = 0"; simp)
qed

definition fb_demo_tiled :: frame_buf where
  "fb_demo_tiled = \<lparr>addrY = 0x10001100, addrCb = 0x02000000, addrCr = 0, strideY = 64, strideC = 32,
     mvColBuf = 0x10003000, desc = \<lparr>md_size = 13311, md_phy_addr = 0x10000800, md_virt_uaddr = 0x76000000\<rparr>\<rparr>"

lemma fb_demo_tiled_alloc:
  "tiled_framebuf_alloc io_demo (Some fb_demo) 0 0 64 64 1 1 ({#}, {#}) =
     Done (True, Some fb_demo_tiled, ({#0x10000800#}, {#0x76000000#}))"
  by (simp add: tiled_framebuf_alloc_def tiled_plane_sizes_def tiled_total_def align_4k_def chk_def int32_def SZ_4K_def
      chroma_plane_def div_x_def div_y_def mode_defs sdiv_nonneg io_demo_def fb_demo_def fb_demo_tiled_def desc0_def
      tiled_plane_bases_def tiled_pack_def Let_def)

theorem tiled_alloc_layout_witness:
  "uint (lum_top_base (tiled_unpack (0x10001100, 0x02000000, 0))) + 4096
     \<le> uint (chr_top_base (tiled_unpack (0x10001100, 0x02000000, 0))) \<and>
   uint (chr_top_base (tiled_unpack (0x10001100, 0x02000000, 0))) + 2048 \<le> 0x10003000"
  using tiled_alloc_layout [OF io_demo_laws fb_demo_tiled_alloc]
  by (simp add: fb_demo_tiled_def io_demo_def Let_def chroma_bytes_def div_x_def div_y_def mode_defs sdiv_nonneg)

end
