(* ===== verification/Vpu_Args.thy ===== *)
theory Vpu_Args
  imports C_Strings Soc_Check Vpu_Cmd
begin

text \<open>
  The command line of the VPU test (\<^verbatim>\<open>src/test/mxc_vpu_test/utils.c\<close> and \<^verbatim>\<open>main.c\<close>): the
  tokeniser \<open>get_arg\<close> that cuts an option string up in place, the parser of configuration files
  (\<open>skip_unwanted\<close>, \<open>parse_options\<close>, \<open>parse_config_file\<close>), the option parsers
  (\<open>parse_main_args\<close>, \<open>parse_args\<close>, on the options \<open>getopt\<close> delivers), and \<open>check_params\<close>.
  Character arrays are strings with their terminating zero; positions are indices into them.
\<close>

section \<open>The tokeniser\<close>

abbreviation NUL :: char where "NUL \<equiv> CHR 0x00"

definition is_white :: "char \<Rightarrow> bool" where
  "is_white c \<longleftrightarrow> c = CHR '' '' \<or> c = CHR 0x09 \<or> c = CHR 0x0A"

text \<open>\<open>while (P(*ptr)) ptr++\<close>; leaving the array is undefined.\<close>

function scan :: "(char \<Rightarrow> bool) \<Rightarrow> string \<Rightarrow> nat \<Rightarrow> nat run" where
  "scan P b i = (if i < length b then (if P (b ! i) then scan P b (Suc i) else Done i) else Undef)"
  by pat_completeness auto
termination by (relation "measure (\<lambda>(P, b, i). length b - i)") auto

declare scan.simps [simp del]

definition quote_body :: "char \<Rightarrow> bool" where
  "quote_body c \<longleftrightarrow> c \<noteq> CHR 0x22 \<and> c \<noteq> NUL \<and> c \<noteq> CHR 0x0A"

definition plain_body :: "char \<Rightarrow> bool" where
  "plain_body c \<longleftrightarrow> c \<noteq> NUL \<and> \<not> is_white c"

text \<open>A terminator that is not the end of the string is overwritten with zero.\<close>

definition cut_at :: "string \<Rightarrow> nat \<Rightarrow> string \<times> nat" where
  "cut_at b i = (if b ! i \<noteq> NUL then (b[i := NUL], Suc i) else (b, i))"

definition skip :: "string \<Rightarrow> nat \<Rightarrow> (string \<times> nat) run" where
  "skip b p =
     run_bind (of_option (c_nth b (int p))) (\<lambda>c.
     run_bind
       (if c = NUL \<or> is_white c then Done (b, p)
        else if c = CHR 0x22 then run_bind (scan quote_body b (Suc p)) (\<lambda>i. Done (cut_at b i))
        else run_bind (scan plain_body b p) (\<lambda>i. Done (cut_at b i))) (\<lambda>(b', i).
     run_bind (scan is_white b' i) (\<lambda>j. Done (b', j))))"

definition MAX_ARGS :: nat where "MAX_ARGS = 32"

text \<open>The loop of \<open>get_arg\<close>; \<open>argv\<close> has room for \<open>MAX_ARGS\<close> pointers, and one more is written behind them.\<close>

function get_arg_loop :: "nat \<Rightarrow> string \<Rightarrow> nat \<Rightarrow> nat list \<Rightarrow> (nat list \<times> string) run" where
  "get_arg_loop n b p argv =
     (if n = 0 then Undef
      else
        run_bind (of_option (c_nth b (int p))) (\<lambda>c.
          if c = NUL then Done (argv, b)
          else run_bind (skip b p) (\<lambda>(b', p').
                 get_arg_loop (n - 1) b' p' (argv @ [p + (if c = CHR 0x22 then 1 else 0)]))))"
  by pat_completeness auto
termination by (relation "measure (\<lambda>(n, b, p, argv). n)") auto

declare get_arg_loop.simps [simp del]

definition is_blank :: "char \<Rightarrow> bool" where
  "is_blank c \<longleftrightarrow> c = CHR '' '' \<or> c = CHR 0x09"

definition get_arg :: "string \<Rightarrow> (nat list \<times> string) run" where
  "get_arg buf = run_bind (scan is_blank buf 0) (\<lambda>p. get_arg_loop MAX_ARGS buf p [])"

text \<open>What \<open>argv[i]\<close> points to afterwards.\<close>

definition arg_strings :: "nat list \<times> string \<Rightarrow> string list" where
  "arg_strings r = (case r of (argv, b) \<Rightarrow> map (\<lambda>p. c_string (drop p b)) argv)"

section \<open>The tokeniser against a reference\<close>

lemma length_rest_le: "length (dropWhile P (drop 1 (dropWhile Q xs))) \<le> length xs - 1"
proof -
  have "length (dropWhile P (drop 1 (dropWhile Q xs))) \<le> length (drop 1 (dropWhile Q xs))" by (rule length_dropWhile_le)
  also have "\<dots> \<le> length xs - 1" using length_dropWhile_le [of Q xs] by simp
  finally show ?thesis .
qed

text \<open>The tokens of a string, without pointers and writes.\<close>

function tokens :: "string \<Rightarrow> string list" where
  "tokens [] = []"
| "tokens (c # s) =
     (if c = CHR 0x22 then takeWhile quote_body s # tokens (dropWhile is_white (drop 1 (dropWhile quote_body s)))
      else takeWhile plain_body (c # s) # tokens (dropWhile is_white (drop 1 (dropWhile plain_body (c # s)))))"
  by pat_completeness auto
termination
proof (relation "measure length")
  fix c :: char and s :: string
  show "(dropWhile is_white (drop 1 (dropWhile quote_body s)), c # s) \<in> measure length"
    using length_rest_le [of is_white quote_body s] by simp
  show "(dropWhile is_white (drop 1 (dropWhile plain_body (c # s))), c # s) \<in> measure length"
    using length_rest_le [of is_white plain_body "c # s"] by (simp del: dropWhile.simps)
qed simp

declare tokens.simps(2) [simp del]

lemma scan_stops:
  "\<exists>x \<in> set xs. \<not> P x \<Longrightarrow> scan P (pre @ xs) (length pre) = Done (length pre + length (takeWhile P xs))"
proof (induction xs arbitrary: pre)
  case (Cons x xs)
  show ?case
  proof (cases "P x")
    case True
    then have "scan P ((pre @ [x]) @ xs) (length (pre @ [x])) = Done (length (pre @ [x]) + length (takeWhile P xs))"
      using Cons by (intro Cons.IH) auto
    then show ?thesis using True by (subst scan.simps) (simp add: nth_append)
  next
    case False
    then show ?thesis by (subst scan.simps) (simp add: nth_append)
  qed
qed simp

lemma takeWhile_stop: "\<not> P z \<Longrightarrow> takeWhile P (s @ [z]) = takeWhile P s"
  by (induction s) auto

text \<open>A body up to its terminator, and the white space behind it.\<close>

lemma skip_body:
  assumes "\<not> B NUL" and "NUL \<notin> set s"
  defines "t \<equiv> takeWhile B s" and "u \<equiv> dropWhile B s"
  defines "w \<equiv> takeWhile is_white (drop 1 u)" and "s2 \<equiv> dropWhile is_white (drop 1 u)"
  defines "seg \<equiv> (if u = [] then [] else NUL # w)"
  shows "run_bind (scan B (pre @ s @ [NUL]) (length pre)) (\<lambda>i. Done (cut_at (pre @ s @ [NUL]) i)) =
      Done (pre @ t @ (if u = [] then [] else NUL # drop 1 u) @ [NUL], length pre + length t + (if u = [] then 0 else 1))"
    and "run_bind (scan is_white (pre @ t @ (if u = [] then [] else NUL # drop 1 u) @ [NUL])
             (length pre + length t + (if u = [] then 0 else 1))) (\<lambda>j. Done (b', j)) =
      Done (b', length (pre @ t @ seg))"
    and "pre @ t @ (if u = [] then [] else NUL # drop 1 u) @ [NUL] = pre @ (t @ seg) @ s2 @ [NUL]"
proof -
  have s: "s = t @ u" by (simp add: t_def u_def)
  have sc: "scan B (pre @ s @ [NUL]) (length pre) = Done (length pre + length t)"
    using scan_stops [of "s @ [NUL]" B pre] assms(1) by (simp add: takeWhile_stop t_def)
  have hdu: "(pre @ s @ [NUL]) ! (length pre + length t) \<noteq> NUL \<longleftrightarrow> u \<noteq> []"
    using assms(2) by (cases u) (auto simp: s nth_append)
  have upd: "(pre @ s @ [NUL])[length pre + length t := NUL] = pre @ t @ NUL # drop 1 u @ [NUL]" if "u \<noteq> []"
    using that by (cases u) (auto simp: s list_update_append)
  show "run_bind (scan B (pre @ s @ [NUL]) (length pre)) (\<lambda>i. Done (cut_at (pre @ s @ [NUL]) i)) =
      Done (pre @ t @ (if u = [] then [] else NUL # drop 1 u) @ [NUL], length pre + length t + (if u = [] then 0 else 1))"
    unfolding sc using hdu upd by (auto simp: cut_at_def s)
  have nw: "\<not> is_white NUL" by (simp add: is_white_def)
  have uw: "drop 1 u = w @ s2" by (simp add: w_def s2_def)
  show "run_bind (scan is_white (pre @ t @ (if u = [] then [] else NUL # drop 1 u) @ [NUL])
             (length pre + length t + (if u = [] then 0 else 1))) (\<lambda>j. Done (b', j)) = Done (b', length (pre @ t @ seg))"
    using scan_stops [of "[NUL]" is_white "pre @ t"] scan_stops [of "drop 1 u @ [NUL]" is_white "pre @ t @ [NUL]"] nw
    by (auto simp: seg_def w_def takeWhile_stop)
  show "pre @ t @ (if u = [] then [] else NUL # drop 1 u) @ [NUL] = pre @ (t @ seg) @ s2 @ [NUL]"
    by (cases "u = []") (simp add: seg_def s2_def, simp add: seg_def uw del: One_nat_def)
qed

text \<open>
  One token: \<open>skip\<close> leaves the token's characters followed by a zero (its own or the string's) and
  moves to the first character of the rest that is not white space.
\<close>

lemma set_rest_subset: "set (dropWhile is_white (drop 1 (dropWhile B (drop q s)))) \<subseteq> set s"
  by (meson set_dropWhileD in_set_dropD subsetI)

lemma skip_token:
  assumes "s = c # s'" and "NUL \<notin> set s" and "\<not> is_white c"
  obtains seg s2 where "skip (pre @ s @ [NUL]) (length pre) = Done (pre @ seg @ s2 @ [NUL], length (pre @ seg))"
    and "tokens s = takeWhile (\<lambda>x. x \<noteq> NUL) (drop (if c = CHR 0x22 then 1 else 0) (seg @ [NUL])) # tokens s2"
    and "s2 = [] \<or> NUL \<in> set (drop (if c = CHR 0x22 then 1 else 0) seg)"
    and "set s2 \<subseteq> set s" and "s2 = [] \<or> \<not> is_white (hd s2)" and "length s2 < length s"
    and "(if c = CHR 0x22 then 1 else 0) \<le> length seg"
proof -
  have c0: "c \<noteq> NUL" using assms by auto
  have rd: "c_nth (pre @ s @ [NUL]) (int (length pre)) = Some c" using assms(1) by (simp add: c_nth_def in_arr_def nth_append)
  define q where "q = (if c = CHR 0x22 then 1 else 0 :: nat)"
  define B where "B = (if c = CHR 0x22 then quote_body else plain_body)"
  define r where "r = drop q s"
  define pre' where "pre' = pre @ take q s"
  define t where "t = takeWhile B r"
  define u where "u = dropWhile B r"
  define s2 where "s2 = dropWhile is_white (drop 1 u)"
  define sg where "sg = take q s @ t @ (if u = [] then [] else NUL # takeWhile is_white (drop 1 u))"
  have nB: "\<not> B NUL" by (simp add: B_def quote_body_def plain_body_def)
  have r0: "NUL \<notin> set r" using assms(2) set_drop_subset [of q s] by (auto simp: r_def)
  note body = skip_body [where B = B and s = r and pre = pre', OF nB r0, folded t_def u_def, folded s2_def]
  have b: "pre @ s @ [NUL] = pre' @ r @ [NUL]" by (simp add: pre'_def r_def)
  have len: "length pre' = length pre + q" using assms(1) by (simp add: pre'_def q_def)
  have step: "skip (pre @ s @ [NUL]) (length pre) =
      run_bind (run_bind (scan B (pre' @ r @ [NUL]) (length pre')) (\<lambda>i. Done (cut_at (pre' @ r @ [NUL]) i)))
        (\<lambda>(b', i). run_bind (scan is_white b' i) (\<lambda>j. Done (b', j)))"
    unfolding b [symmetric] by (simp add: skip_def rd c0 assms(3) B_def len q_def)
  have sk: "skip (pre @ s @ [NUL]) (length pre) = Done (pre @ sg @ s2 @ [NUL], length (pre @ sg))"
    unfolding step body(1) run_bind.simps prod.case body(2) unfolding body(3) by (simp add: sg_def pre'_def)
  have tk: "tokens s = t # tokens s2"
    using assms(1) by (cases "c = CHR 0x22") (simp_all add: tokens.simps(2) t_def u_def s2_def r_def q_def B_def)
  have lq: "length (take q s) = q" using assms(1) by (simp add: q_def)
  have t0: "x \<noteq> NUL" if "x \<in> set t" for x using that r0 set_takeWhileD [of x B r] by (auto simp: t_def)
  have dr: "drop q (sg @ [NUL]) = t @ (if u = [] then [] else NUL # takeWhile is_white (drop 1 u)) @ [NUL]"
    using lq by (simp add: sg_def)
  have "takeWhile (\<lambda>x. x \<noteq> NUL) (drop q (sg @ [NUL])) = t"
    unfolding dr using t0 by (simp add: takeWhile_append2)
  moreover have "s2 = [] \<or> NUL \<in> set (drop q sg)"
    using lq by (auto simp: sg_def s2_def)
  moreover have "set s2 \<subseteq> set s" unfolding s2_def u_def r_def by (rule set_rest_subset)
  moreover have "s2 = [] \<or> \<not> is_white (hd s2)" using hd_dropWhile unfolding s2_def by blast
  moreover have "length s2 < length s"
  proof -
    have "length s2 \<le> length r - 1" unfolding s2_def u_def by (rule length_rest_le)
    then show ?thesis using assms(1) by (simp add: r_def)
  qed
  moreover have "q \<le> length sg" using lq by (simp add: sg_def)
  ultimately show thesis using that [OF sk] tk unfolding q_def by simp
qed

lemma get_arg_loop_end: "0 < n \<Longrightarrow> get_arg_loop n (pre @ [NUL]) (length pre) argv = Done (argv, pre @ [NUL])"
  by (subst get_arg_loop.simps) (simp add: c_nth_def in_arr_def nth_append)

text \<open>The loop from any position on: the tokens of the rest, and nothing before the position changes.\<close>

lemma token_string:
  assumes "b' = [NUL] \<or> NUL \<in> set (drop q seg)" and "q \<le> length seg"
  shows "c_string (drop q (seg @ b')) = takeWhile (\<lambda>x. x \<noteq> NUL) (drop q (seg @ [NUL]))"
  using assms by (auto simp: c_string_def takeWhile_append1)

lemma get_arg_loop_tokens:
  assumes "NUL \<notin> set s" and "s = [] \<or> \<not> is_white (hd s)"
  shows "if length (tokens s) < n
    then \<exists>ps b'. get_arg_loop n (pre @ s @ [NUL]) (length pre) argv = Done (argv @ ps, pre @ b') \<and>
         list_all (\<lambda>p. length pre \<le> p) ps \<and> map (\<lambda>p. c_string (drop (p - length pre) b')) ps = tokens s
    else get_arg_loop n (pre @ s @ [NUL]) (length pre) argv = Undef"
  using assms
proof (induction n arbitrary: s pre argv)
  case 0
  then show ?case by (simp add: get_arg_loop.simps)
next
  case (Suc n)
  show ?case
  proof (cases s)
    case Nil
    then show ?thesis by (subst get_arg_loop.simps) (simp add: c_nth_def in_arr_def nth_append)
  next
    case (Cons c s')
    define q where "q = (if c = CHR 0x22 then 1 else 0 :: nat)"
    have nw: "\<not> is_white c" using Suc.prems(2) Cons by simp
    obtain seg s2 where sk: "skip (pre @ s @ [NUL]) (length pre) = Done (pre @ seg @ s2 @ [NUL], length (pre @ seg))"
      and tk: "tokens s = takeWhile (\<lambda>x. x \<noteq> NUL) (drop q (seg @ [NUL])) # tokens s2"
      and z: "s2 = [] \<or> NUL \<in> set (drop q seg)"
      and s2: "set s2 \<subseteq> set s" "s2 = [] \<or> \<not> is_white (hd s2)" and "length s2 < length s" and ql: "q \<le> length seg"
      using skip_token [OF Cons Suc.prems(1) nw, of pre, folded q_def] .
    have c: "c_nth (pre @ s @ [NUL]) (int (length pre)) = Some c" "c \<noteq> NUL"
      using Cons Suc.prems(1) by (auto simp: c_nth_def in_arr_def nth_append)
    have step: "get_arg_loop (Suc n) (pre @ s @ [NUL]) (length pre) argv =
        get_arg_loop n ((pre @ seg) @ s2 @ [NUL]) (length (pre @ seg)) (argv @ [length pre + q])"
      by (subst get_arg_loop.simps) (simp add: c sk q_def)
    have n2: "NUL \<notin> set s2" using s2(1) Suc.prems(1) by blast
    note IH = Suc.IH [OF n2 s2(2), of "pre @ seg" "argv @ [length pre + q]"]
    show ?thesis
    proof (cases "length (tokens s2) < n")
      case False
      then show ?thesis using IH step tk by simp
    next
      case True
      then obtain ps b' where l: "get_arg_loop n ((pre @ seg) @ s2 @ [NUL]) (length (pre @ seg)) (argv @ [length pre + q]) =
          Done ((argv @ [length pre + q]) @ ps, (pre @ seg) @ b')"
        and ge: "list_all (\<lambda>p. length (pre @ seg) \<le> p) ps"
        and mp: "map (\<lambda>p. c_string (drop (p - length (pre @ seg)) b')) ps = tokens s2"
        using IH by auto
      have "s2 = [] \<Longrightarrow> b' = [NUL]" using l get_arg_loop_end [of n "pre @ seg" "argv @ [length pre + q]"] True by simp
      then have hd: "c_string (drop q (seg @ b')) = takeWhile (\<lambda>x. x \<noteq> NUL) (drop q (seg @ [NUL]))"
        using token_string [OF _ ql] z by blast
      have tl: "map (\<lambda>p. c_string (drop (p - length pre) (seg @ b'))) ps = tokens s2"
        using ge unfolding mp [symmetric] by (auto simp: list_all_iff)
      show ?thesis using True step l ge hd tl tk ql
        by (auto simp: list_all_iff intro!: exI [of _ "(length pre + q) # ps"] exI [of _ "seg @ b'"])
    qed
  qed
qed

text \<open>
  C31: The in-place tokeniser agrees with the reference: on any string (without zeros inside and not
  starting with a newline) \<open>get_arg\<close> stays inside the buffer and, for fewer than 32 tokens, ends with
  \<open>argv\<close> pointing at exactly the tokens of the string; with 32 tokens or more it writes behind
  \<open>argv\<close>.
\<close>
theorem get_arg_tokens:
  assumes "NUL \<notin> set s" and "dropWhile is_blank s = [] \<or> hd (dropWhile is_blank s) \<noteq> CHR 0x0A"
  shows "if length (tokens (dropWhile is_blank s)) < MAX_ARGS
    then \<exists>r. get_arg (s @ [NUL]) = Done r \<and> arg_strings r = tokens (dropWhile is_blank s)
    else get_arg (s @ [NUL]) = Undef"
proof -
  define pre where "pre = takeWhile is_blank s"
  define t where "t = dropWhile is_blank s"
  have s: "s = pre @ t" by (simp add: pre_def t_def)
  have t0: "NUL \<notin> set t" using assms(1) by (simp add: s)
  have w: "t = [] \<or> \<not> is_white (hd t)"
    using assms(2) hd_dropWhile [of is_blank s] by (auto simp: t_def is_white_def is_blank_def)
  have "\<not> is_blank NUL" by (simp add: is_blank_def)
  then have "scan is_blank (s @ [NUL]) 0 = Done (length pre)"
    using scan_stops [of "s @ [NUL]" is_blank "[]"] by (simp add: takeWhile_stop pre_def)
  then have g: "get_arg (s @ [NUL]) = get_arg_loop MAX_ARGS (pre @ t @ [NUL]) (length pre) []"
    by (simp add: get_arg_def s)
  have d: "arg_strings (ps, pre @ b') = map (\<lambda>p. c_string (drop (p - length pre) b')) ps"
    if "list_all (\<lambda>p. length pre \<le> p) ps" for ps b'
    using that by (auto simp: arg_strings_def list_all_iff)
  show ?thesis
    using get_arg_loop_tokens [OF t0 w, of MAX_ARGS pre "[]"] d unfolding g t_def [symmetric]
    by (auto split: if_splits)
qed

theorem get_arg_tokens_witness:
  "\<exists>r. get_arg (''./vpu -i x.264 -o a'' @ [NUL]) = Done r \<and> arg_strings r = [''./vpu'', ''-i'', ''x.264'', ''-o'', ''a'']"
proof -
  have t: "tokens ''./vpu -i x.264 -o a'' = [''./vpu'', ''-i'', ''x.264'', ''-o'', ''a'']"
    by (simp add: tokens.simps plain_body_def is_white_def)
  show ?thesis using get_arg_tokens [of "''./vpu -i x.264 -o a''"] t by (simp add: is_blank_def MAX_ARGS_def)
qed

end
