(* ===== verification/Vpu_Config.thy ===== *)
theory Vpu_Config
  imports Vpu_Args
begin

text \<open>
  Options of the VPU test: lines of a configuration file (\<open>skip_unwanted\<close>, \<open>parse_options\<close> of
  \<^verbatim>\<open>utils.c\<close>, \<open>parse_config_file\<close> of \<^verbatim>\<open>main.c\<close>), the options of a command string
  (\<open>parse_args\<close>) and of the program (\<open>parse_main_args\<close>), and the validation \<open>check_params\<close>.
  \<open>getopt\<close> is an argument: the list of the options it delivers with their arguments. The codec
  numbers of the VPU library (\<open>STD_MPEG4\<close> and the others) and the chip tests are parameters.
\<close>

section \<open>State\<close>

record vpu_lib =
  STD_MPEG4 :: int
  STD_H263 :: int
  STD_MPEG2 :: int
  STD_DIV3 :: int
  MIRDIR_NONE :: int
  MIRDIR_HOR_VER :: int
  cpu_is_mx6x :: bool
  cpu_is_mx27 :: bool

record input_argument =
  ia_mode :: int
  ia_line :: string
  ia_cmd :: cmd_line

record vpu_opts =
  input_arg :: "input_argument list"
  instance_no :: nat
  using_config_file :: bool

definition upd_arg :: "nat \<Rightarrow> (input_argument \<Rightarrow> input_argument) \<Rightarrow> vpu_opts \<Rightarrow> vpu_opts run" where
  "upd_arg i f o' = (if i < length (input_arg o')
     then Done (o'\<lparr>input_arg := (input_arg o')[i := f (input_arg o' ! i)]\<rparr>) else Undef)"

section \<open>Lines of a configuration file\<close>

fun unwanted_loop :: "string \<Rightarrow> string" where
  "unwanted_loop [] = []"
| "unwanted_loop (c # s) =
     (if is_white c then unwanted_loop s else if c = CHR ''#'' then [] else c # unwanted_loop s)"

text \<open>The result is built in an array of \<open>MAX_PATH\<close> characters.\<close>

definition skip_unwanted :: "string \<Rightarrow> string run" where
  "skip_unwanted line =
     (let r = unwanted_loop line in if length r < MAX_PATH then Done r else Undef)"

definition has_key :: "string \<Rightarrow> string \<Rightarrow> bool" where
  "has_key buf key \<longleftrightarrow> strstr buf key \<noteq> None"

text \<open>What stands behind the first equals sign, if anything does.\<close>

definition opt_value :: "string \<Rightarrow> string option" where
  "opt_value buf = (case strchr_cut (CHR ''='') buf of None \<Rightarrow> None
     | Some (_, v) \<Rightarrow> if v = [] then None else Some v)"

definition set_opt :: "string \<Rightarrow> (string \<Rightarrow> cmd_line \<Rightarrow> cmd_line) \<Rightarrow> cmd_line \<Rightarrow> cmd_line" where
  "set_opt buf f cmd = (case opt_value buf of None \<Rightarrow> cmd | Some v \<Rightarrow> f v cmd)"

definition parse_options :: "string \<Rightarrow> cmd_line \<Rightarrow> int \<Rightarrow> int \<times> cmd_line \<times> int" where
  "parse_options buf cmd mode =
     (if has_key buf ''end'' then (100, cmd, mode)
      else if has_key buf ''operation'' then
        (0, cmd, case opt_value buf of None \<Rightarrow> mode | Some v \<Rightarrow> strtol10 v)
      else (0, (let num = strtol10 in
        if has_key buf ''input'' then
          set_opt buf (\<lambda>v c. c\<lparr>cl_input := strncpy (cl_input c) v MAX_PATH, cl_src_scheme := PATH_FILE\<rparr>) cmd
        else if has_key buf ''output'' then
          set_opt buf (\<lambda>v c. c\<lparr>cl_output := strncpy (cl_output c) v MAX_PATH, cl_dst_scheme := PATH_FILE\<rparr>) cmd
        else if has_key buf ''port'' then set_opt buf (\<lambda>v c. c\<lparr>cl_port := word_of_int (num v)\<rparr>) cmd
        else if has_key buf ''format'' then set_opt buf (\<lambda>v c. c\<lparr>cl_format := num v\<rparr>) cmd
        else if has_key buf ''rotation'' then set_opt buf (\<lambda>v c. c\<lparr>cl_rot_en := 1, cl_rot_angle := num v\<rparr>) cmd
        else if has_key buf ''ext_rot'' then
          set_opt buf (\<lambda>v c. c\<lparr>cl_ext_rot_en := num v, cl_rot_en := (if num v = 1 then 0 else cl_rot_en c)\<rparr>) cmd
        else if has_key buf ''ip'' then
          set_opt buf (\<lambda>v c. c\<lparr>cl_output := strncpy (cl_output c) v 64, cl_dst_scheme := PATH_NET\<rparr>) cmd
        else if has_key buf ''count'' then set_opt buf (\<lambda>v c. c\<lparr>cl_count := num v\<rparr>) cmd
        else if has_key buf ''chromaInterleave'' then set_opt buf (\<lambda>v c. c\<lparr>cl_chromaInterleave := num v\<rparr>) cmd
        else if has_key buf ''mp4Class'' then set_opt buf (\<lambda>v c. c\<lparr>cl_mp4_h264Class := num v\<rparr>) cmd
        else if has_key buf ''deblock'' then set_opt buf (\<lambda>v c. c\<lparr>cl_deblock_en := num v\<rparr>) cmd
        else if has_key buf ''dering'' then set_opt buf (\<lambda>v c. c\<lparr>cl_dering_en := num v\<rparr>) cmd
        else if has_key buf ''mirror'' then set_opt buf (\<lambda>v c. c\<lparr>cl_mirror := num v\<rparr>) cmd
        else if has_key buf ''width'' then set_opt buf (\<lambda>v c. c\<lparr>cl_width := num v\<rparr>) cmd
        else if has_key buf ''height'' then set_opt buf (\<lambda>v c. c\<lparr>cl_height := num v\<rparr>) cmd
        else if has_key buf ''bitrate'' then set_opt buf (\<lambda>v c. c\<lparr>cl_bitrate := num v\<rparr>) cmd
        else if has_key buf ''prescan'' then set_opt buf (\<lambda>v c. c\<lparr>cl_bs_mode := num v, cl_prescan := num v\<rparr>) cmd
        else if has_key buf ''gop'' then set_opt buf (\<lambda>v c. c\<lparr>cl_gop := num v\<rparr>) cmd
        else if has_key buf ''quantParam'' then set_opt buf (\<lambda>v c. c\<lparr>cl_quantParam := num v\<rparr>) cmd
        else cmd), mode))"

text \<open>
  The loop over the lines that \<open>fgets\<close> delivers (at most 255 characters each). The guard compares
  with \<open>>\<close>: the array has \<open>MAX_NUM_INSTANCE\<close> elements.
\<close>

fun config_lines :: "string list \<Rightarrow> vpu_opts \<Rightarrow> vpu_opts run" where
  "config_lines [] o' = Done o'"
| "config_lines (line # ls) o' =
     (if instance_no o' > length (input_arg o') then Done o'
      else
        run_bind (skip_unwanted line) (\<lambda>buf.
          (let i = instance_no o'
           in if i < length (input_arg o') then
                (let ia = input_arg o' ! i;
                     (r, cmd, mode) = parse_options buf (ia_cmd ia) (ia_mode ia);
                     o1 = o'\<lparr>input_arg := (input_arg o')[i := ia\<lparr>ia_cmd := cmd, ia_mode := mode\<rparr>]\<rparr>
                 in config_lines ls (if r = 100 then o1\<lparr>instance_no := i + 1\<rparr> else o1))
              else Undef)))"

definition parse_config_file :: "string list option \<Rightarrow> vpu_opts \<Rightarrow> (int \<times> vpu_opts) run" where
  "parse_config_file file o' =
     (case file of None \<Rightarrow> Done (-1, o') | Some ls \<Rightarrow> run_bind (config_lines ls o') (\<lambda>o'. Done (0, o')))"

section \<open>The program's options\<close>

text \<open>\<open>strncpy(line, argv[0], 26); strncat(line, " ", 2); strncat(line, optarg, 200)\<close> on a line of 256 characters.\<close>

definition build_line :: "string \<Rightarrow> string \<Rightarrow> string \<Rightarrow> string" where
  "build_line line arg0 optarg =
     (let l = c_string (strncpy line arg0 26) @ '' '' @ take 200 optarg in l @ NUL # drop (length l + 1) line)"

definition main_opt_mode :: "char \<Rightarrow> int option" where
  "main_opt_mode c = (if c = CHR ''D'' then Some DECODE else if c = CHR ''E'' then Some ENCODE
     else if c = CHR ''L'' then Some LOOPBACK else if c = CHR ''T'' then Some TRANSCODE else None)"

text \<open>Config files are found by name; the loop ends with the options, a bad option or a full array.\<close>

fun main_opts :: "(string \<Rightarrow> string list option) \<Rightarrow> string \<Rightarrow> (char \<times> string) list \<Rightarrow> vpu_opts \<Rightarrow> (int \<times> vpu_opts) run" where
  "main_opts files arg0 [] o' = Done (0, o')"
| "main_opts files arg0 ((c, optarg) # opts) o' =
     (case main_opt_mode c of
        Some m \<Rightarrow>
          run_bind (upd_arg (instance_no o') (\<lambda>ia. ia\<lparr>ia_mode := m, ia_line := build_line (ia_line ia) arg0 optarg\<rparr>) o') (\<lambda>o1.
            (let o2 = o1\<lparr>instance_no := instance_no o1 + 1\<rparr>
             in if instance_no o2 < length (input_arg o2) then main_opts files arg0 opts o2 else Done (0, o2)))
      | None \<Rightarrow>
          (if c = CHR ''C'' then
             run_bind
               (if instance_no o' > 0 then Done o'
                else run_bind (parse_config_file (files optarg) o') (\<lambda>(r, o1).
                       Done (if r = 0 then o1\<lparr>using_config_file := True\<rparr> else o1))) (\<lambda>o2.
               if instance_no o2 < length (input_arg o2) then main_opts files arg0 opts o2 else Done (0, o2))
           else Done (-1, o')))"

definition parse_main_args :: "(string \<Rightarrow> string list option) \<Rightarrow> string \<Rightarrow> (char \<times> string) list \<Rightarrow> vpu_opts \<Rightarrow> (int \<times> vpu_opts) run" where
  "parse_main_args files arg0 opts o' = main_opts files arg0 opts o'"

section \<open>The options of one instance\<close>

text \<open>One option of \<open>parse_args\<close>; \<open>None\<close> is the default branch (status -1). Built without \<open>BUILD_FOR_ANDROID\<close>.\<close>

definition apply_opt :: "vpu_lib \<Rightarrow> int \<Rightarrow> char \<Rightarrow> string \<Rightarrow> cmd_line \<Rightarrow> cmd_line option" where
  "apply_opt lib mode opt optarg c =
     (let val = strtol10 optarg in
      if opt = CHR ''i'' then Some (c\<lparr>cl_input := strncpy (cl_input c) optarg MAX_PATH, cl_src_scheme := PATH_FILE\<rparr>)
      else if opt = CHR ''o'' then
        Some (if cl_dst_scheme c = PATH_NET then c
              else c\<lparr>cl_output := strncpy (cl_output c) optarg MAX_PATH, cl_dst_scheme := PATH_FILE\<rparr>)
      else if opt = CHR ''x'' then
        Some (if mode = ENCODE \<or> mode = LOOPBACK then c\<lparr>cl_video_node_capture := val\<rparr>
              else
                (let c1 = (if val = 1 then c\<lparr>cl_dst_scheme := PATH_IPU\<rparr>
                           else c\<lparr>cl_dst_scheme := PATH_V4L2, cl_video_node := val\<rparr>)
                 in if cpu_is_mx27 lib \<and> cl_dst_scheme c1 = PATH_IPU then c1\<lparr>cl_dst_scheme := PATH_V4L2\<rparr> else c1))
      else if opt = CHR ''n'' then
        Some (if mode = ENCODE then c\<lparr>cl_output := strncpy (cl_output c) optarg 64, cl_dst_scheme := PATH_NET\<rparr> else c)
      else if opt = CHR ''p'' then Some (c\<lparr>cl_port := word_of_int val\<rparr>)
      else if opt = CHR ''r'' then
        Some (c\<lparr>cl_rot_angle := val, cl_rot_en := (if val \<noteq> 0 then 1 else cl_rot_en c)\<rparr>)
      else if opt = CHR ''u'' then
        Some (c\<lparr>cl_ext_rot_en := val, cl_rot_en := (if val \<noteq> 0 then 0 else cl_rot_en c)\<rparr>)
      else if opt = CHR ''f'' then Some (c\<lparr>cl_format := val\<rparr>)
      else if opt = CHR ''c'' then Some (c\<lparr>cl_count := val\<rparr>)
      else if opt = CHR ''v'' then Some (c\<lparr>cl_vdi_motion := hd (optarg @ [NUL])\<rparr>)
      else if opt = CHR ''w'' then Some (c\<lparr>cl_width := val\<rparr>)
      else if opt = CHR ''h'' then Some (c\<lparr>cl_height := val\<rparr>)
      else if opt = CHR ''j'' then Some (c\<lparr>cl_loff := val\<rparr>)
      else if opt = CHR ''k'' then Some (c\<lparr>cl_toff := val\<rparr>)
      else if opt = CHR ''g'' then Some (c\<lparr>cl_gop := val\<rparr>)
      else if opt = CHR ''s'' then Some (if cpu_is_mx6x lib then c\<lparr>cl_bs_mode := val\<rparr> else c\<lparr>cl_prescan := val\<rparr>)
      else if opt = CHR ''b'' then Some (c\<lparr>cl_bitrate := val\<rparr>)
      else if opt = CHR ''d'' then Some (c\<lparr>cl_deblock_en := val\<rparr>)
      else if opt = CHR ''e'' then Some (c\<lparr>cl_dering_en := val\<rparr>)
      else if opt = CHR ''m'' then
        Some (c\<lparr>cl_mirror := val, cl_rot_en := (if val \<noteq> 0 then 1 else cl_rot_en c)\<rparr>)
      else if opt = CHR ''t'' then Some (c\<lparr>cl_chromaInterleave := val\<rparr>)
      else if opt = CHR ''l'' then Some (c\<lparr>cl_mp4_h264Class := val\<rparr>)
      else if opt = CHR ''a'' then Some (c\<lparr>cl_fps := val\<rparr>)
      else if opt = CHR ''y'' then Some (c\<lparr>cl_mapType := val\<rparr>)
      else if opt = CHR ''q'' then Some (c\<lparr>cl_quantParam := val\<rparr>)
      else None)"

fun apply_opts :: "vpu_lib \<Rightarrow> int \<Rightarrow> (char \<times> string) list \<Rightarrow> cmd_line \<Rightarrow> int \<times> cmd_line" where
  "apply_opts lib mode [] c = (0, c)"
| "apply_opts lib mode ((opt, optarg) # opts) c =
     (case apply_opt lib mode opt optarg c of None \<Rightarrow> (-1, c) | Some c' \<Rightarrow> apply_opts lib mode opts c')"

definition parse_args :: "vpu_lib \<Rightarrow> int \<Rightarrow> (char \<times> string) list \<Rightarrow> cmd_line \<Rightarrow> int \<times> cmd_line" where
  "parse_args lib mode opts c =
     (let c1 = c\<lparr>cl_chromaInterleave := 1\<rparr>;
          c2 = (if cpu_is_mx6x lib then c1\<lparr>cl_bs_mode := 1\<rparr> else c1)
      in apply_opts lib mode opts c2)"

section \<open>Validation\<close>

definition v4l2_size :: "cmd_line \<Rightarrow> cmd_line" where
  "v4l2_size c =
     (let w = (if cl_width c = 0 then 176 else cl_width c);
          h = (if cl_height c = 0 then 144 else cl_height c)
      in c\<lparr>cl_width := w - w smod 16, cl_height := h - h smod 8\<rparr>)"

definition default_output :: "vpu_lib \<Rightarrow> cmd_line \<Rightarrow> cmd_line" where
  "default_output lib c =
     c\<lparr>cl_dst_scheme := PATH_FILE,
       cl_output := strncpy (cl_output c)
         (if cl_format c = STD_MPEG4 lib then ''enc.mpeg4'' else if cl_format c = STD_H263 lib then ''enc.263''
          else ''enc.264'') 16\<rparr>"

definition check_rot :: "cmd_line \<Rightarrow> cmd_line" where
  "check_rot c = (if cl_rot_en c \<noteq> 0 \<and> cl_rot_angle c \<notin> {0, 90, 180, 270} then c\<lparr>cl_rot_en := 0, cl_rot_angle := 0\<rparr> else c)"

definition check_mirror :: "vpu_lib \<Rightarrow> cmd_line \<Rightarrow> cmd_line" where
  "check_mirror lib c =
     (if cl_mirror c < MIRDIR_NONE lib \<or> cl_mirror c > MIRDIR_HOR_VER lib then c\<lparr>cl_mirror := 0\<rparr> else c)"

definition check_deblock :: "vpu_lib \<Rightarrow> cmd_line \<Rightarrow> cmd_line" where
  "check_deblock lib c =
     (if cl_format c \<notin> {STD_MPEG4 lib, STD_H263 lib, STD_MPEG2 lib, STD_DIV3 lib} \<and> cl_deblock_en c \<noteq> 0
      then c\<lparr>cl_deblock_en := 0\<rparr> else c)"

text \<open>The switch at the beginning of \<open>check_params\<close> only prints.\<close>

definition check_params :: "vpu_lib \<Rightarrow> cmd_line \<Rightarrow> int \<Rightarrow> int \<times> cmd_line" where
  "check_params lib c op =
     (let c1 = (if cl_port c = 0 then c\<lparr>cl_port := DEFAULT_PORT\<rparr> else c);
          c2 = (if cl_src_scheme c1 \<noteq> PATH_FILE \<and> op = DECODE then c1\<lparr>cl_src_scheme := PATH_NET\<rparr> else c1)
      in if cl_src_scheme c2 = PATH_FILE \<and> op = ENCODE \<and> (cl_width c2 = 0 \<or> cl_height c2 = 0) then (-1, c2)
         else
           (let c3 = (if cl_src_scheme c2 = PATH_V4L2 \<and> op = ENCODE then v4l2_size c2 else c2);
                c4 = (if cl_dst_scheme c3 \<noteq> PATH_FILE \<and> op = ENCODE \<and> cl_dst_scheme c3 \<noteq> PATH_NET
                      then default_output lib c3 else c3)
            in (0, check_deblock lib (check_mirror lib (check_rot c4)))))"

section \<open>Properties\<close>

text \<open>What the codec code relies on.\<close>

definition params_ok :: "vpu_lib \<Rightarrow> int \<Rightarrow> cmd_line \<Rightarrow> bool" where
  "params_ok lib op c \<longleftrightarrow>
     cl_port c \<noteq> 0 \<and>
     (op = DECODE \<longrightarrow> cl_src_scheme c \<in> {PATH_FILE, PATH_NET}) \<and>
     (op = ENCODE \<longrightarrow> cl_dst_scheme c \<in> {PATH_FILE, PATH_NET}) \<and>
     (op = ENCODE \<and> cl_src_scheme c = PATH_FILE \<longrightarrow> cl_width c \<noteq> 0 \<and> cl_height c \<noteq> 0) \<and>
     (op = ENCODE \<and> cl_src_scheme c = PATH_V4L2 \<longrightarrow> 16 dvd cl_width c \<and> 8 dvd cl_height c) \<and>
     (cl_rot_en c \<noteq> 0 \<longrightarrow> cl_rot_angle c \<in> {0, 90, 180, 270}) \<and>
     MIRDIR_NONE lib \<le> cl_mirror c \<and> cl_mirror c \<le> MIRDIR_HOR_VER lib \<and>
     (cl_deblock_en c \<noteq> 0 \<longrightarrow> cl_format c \<in> {STD_MPEG4 lib, STD_H263 lib, STD_MPEG2 lib, STD_DIV3 lib})"

lemma smod_dvd: "0 < b \<Longrightarrow> (b :: int) dvd a - a smod b"
  using dvd_minus_mod [of b a] dvd_minus_mod [of b "- a"] dvd_minus_iff [of b "- a - - a mod b"]
  by (cases "a < 0") (auto simp: signed_modulo_int_def sgn_if add.commute)

lemma check_rot_keeps [simp]:
  "cl_port (check_rot c) = cl_port c" "cl_src_scheme (check_rot c) = cl_src_scheme c"
  "cl_dst_scheme (check_rot c) = cl_dst_scheme c" "cl_width (check_rot c) = cl_width c"
  "cl_height (check_rot c) = cl_height c" "cl_mirror (check_rot c) = cl_mirror c"
  "cl_deblock_en (check_rot c) = cl_deblock_en c" "cl_format (check_rot c) = cl_format c"
  by (simp_all add: check_rot_def)

lemma check_mirror_keeps [simp]:
  "cl_port (check_mirror l c) = cl_port c" "cl_src_scheme (check_mirror l c) = cl_src_scheme c"
  "cl_dst_scheme (check_mirror l c) = cl_dst_scheme c" "cl_width (check_mirror l c) = cl_width c"
  "cl_height (check_mirror l c) = cl_height c" "cl_rot_en (check_mirror l c) = cl_rot_en c"
  "cl_rot_angle (check_mirror l c) = cl_rot_angle c"
  "cl_deblock_en (check_mirror l c) = cl_deblock_en c" "cl_format (check_mirror l c) = cl_format c"
  by (simp_all add: check_mirror_def)

lemma check_deblock_keeps [simp]:
  "cl_port (check_deblock l c) = cl_port c" "cl_src_scheme (check_deblock l c) = cl_src_scheme c"
  "cl_dst_scheme (check_deblock l c) = cl_dst_scheme c" "cl_width (check_deblock l c) = cl_width c"
  "cl_height (check_deblock l c) = cl_height c" "cl_rot_en (check_deblock l c) = cl_rot_en c"
  "cl_rot_angle (check_deblock l c) = cl_rot_angle c" "cl_mirror (check_deblock l c) = cl_mirror c"
  "cl_format (check_deblock l c) = cl_format c"
  by (simp_all add: check_deblock_def)

text \<open>The last three checks establish the clauses about rotation, mirroring and deblocking.\<close>

lemma check_last_three:
  fixes c :: cmd_line
  assumes "MIRDIR_NONE lib \<le> 0" and "0 \<le> MIRDIR_HOR_VER lib"
  defines "d \<equiv> check_deblock lib (check_mirror lib (check_rot c))"
  shows "cl_rot_en d \<noteq> 0 \<longrightarrow> cl_rot_angle d \<in> {0, 90, 180, 270}"
    "MIRDIR_NONE lib \<le> cl_mirror d" "cl_mirror d \<le> MIRDIR_HOR_VER lib"
    "cl_deblock_en d \<noteq> 0 \<longrightarrow> cl_format d \<in> {STD_MPEG4 lib, STD_H263 lib, STD_MPEG2 lib, STD_DIV3 lib}"
  subgoal by (simp add: d_def check_rot_def)
  subgoal using assms(1) by (simp add: d_def check_mirror_def)
  subgoal using assms(2) by (simp add: d_def check_mirror_def)
  subgoal by (auto simp: d_def check_deblock_def)
  done

text \<open>The checks before them: port, input and output.\<close>

definition io_checked :: "vpu_lib \<Rightarrow> cmd_line \<Rightarrow> int \<Rightarrow> cmd_line" where
  "io_checked lib c op =
     (let c1 = (if cl_port c = 0 then c\<lparr>cl_port := DEFAULT_PORT\<rparr> else c);
          c2 = (if cl_src_scheme c1 \<noteq> PATH_FILE \<and> op = DECODE then c1\<lparr>cl_src_scheme := PATH_NET\<rparr> else c1);
          c3 = (if cl_src_scheme c2 = PATH_V4L2 \<and> op = ENCODE then v4l2_size c2 else c2)
      in if cl_dst_scheme c3 \<noteq> PATH_FILE \<and> op = ENCODE \<and> cl_dst_scheme c3 \<noteq> PATH_NET
         then default_output lib c3 else c3)"

definition size_missing :: "cmd_line \<Rightarrow> int \<Rightarrow> bool" where
  "size_missing c op \<longleftrightarrow> op = ENCODE \<and> cl_src_scheme c = PATH_FILE \<and> (cl_width c = 0 \<or> cl_height c = 0)"

lemma check_params_split:
  "fst (check_params lib c op) = (if size_missing c op then -1 else 0)"
  "\<not> size_missing c op \<Longrightarrow>
     check_params lib c op = (0, check_deblock lib (check_mirror lib (check_rot (io_checked lib c op))))"
  by (auto simp: check_params_def io_checked_def size_missing_def Let_def op_defs)

lemma v4l2_size_keeps [simp]:
  "cl_port (v4l2_size c) = cl_port c" "cl_src_scheme (v4l2_size c) = cl_src_scheme c"
  "cl_dst_scheme (v4l2_size c) = cl_dst_scheme c"
  by (simp_all add: v4l2_size_def Let_def)

lemma v4l2_size_dvd: "16 dvd cl_width (v4l2_size c)" "8 dvd cl_height (v4l2_size c)"
  by (simp_all add: v4l2_size_def Let_def smod_dvd)

lemma default_output_keeps [simp]:
  "cl_port (default_output l c) = cl_port c" "cl_src_scheme (default_output l c) = cl_src_scheme c"
  "cl_width (default_output l c) = cl_width c" "cl_height (default_output l c) = cl_height c"
  "cl_dst_scheme (default_output l c) = PATH_FILE"
  by (simp_all add: default_output_def)

lemma io_checked_ok:
  fixes lib :: vpu_lib
  assumes "\<not> size_missing c op"
  defines "d \<equiv> io_checked lib c op"
  shows "cl_port d \<noteq> 0" "op = DECODE \<longrightarrow> cl_src_scheme d \<in> {PATH_FILE, PATH_NET}"
    "op = ENCODE \<longrightarrow> cl_dst_scheme d \<in> {PATH_FILE, PATH_NET}"
    "op = ENCODE \<and> cl_src_scheme d = PATH_FILE \<longrightarrow> cl_width d \<noteq> 0 \<and> cl_height d \<noteq> 0"
    "op = ENCODE \<and> cl_src_scheme d = PATH_V4L2 \<longrightarrow> 16 dvd cl_width d \<and> 8 dvd cl_height d"
  subgoal by (simp add: d_def io_checked_def Let_def DEFAULT_PORT_def)
  subgoal by (simp add: d_def io_checked_def Let_def op_defs)
  subgoal by (simp add: d_def io_checked_def Let_def)
  subgoal using assms(1) by (auto simp: d_def io_checked_def Let_def size_missing_def op_defs path_defs)
  subgoal by (auto simp: d_def io_checked_def Let_def op_defs v4l2_size_dvd)
  done

lemma io_checked_id:
  assumes "params_ok lib op c" and "op = ENCODE \<and> cl_src_scheme c = PATH_V4L2 \<longrightarrow> cl_width c \<noteq> 0 \<and> cl_height c \<noteq> 0"
  shows "io_checked lib c op = c"
proof -
  have v: "v4l2_size c = c" if "16 dvd cl_width c" "8 dvd cl_height c" "cl_width c \<noteq> 0" "cl_height c \<noteq> 0"
  proof -
    have "cl_width c smod 16 = 0" "cl_height c smod 8 = 0"
      using that(1,2) by (auto simp: signed_modulo_int_def signed_divide_int_def sgn_if elim!: dvdE)
    then show ?thesis using that(3,4) by (simp add: v4l2_size_def)
  qed
  show ?thesis
    using assms v unfolding io_checked_def Let_def params_ok_def by (cases "op = ENCODE"; cases "op = DECODE") (auto simp: op_defs)
qed

text \<open>
  C15: \<open>check_params\<close> fails exactly for encoding a file without picture size, and otherwise leaves
  parameters the codec code can rely on; on such parameters it changes nothing, so checking twice is
  checking once. The one exception is encoding from a camera with a picture that was rounded down to
  nothing, for which a second check puts in the default size.
\<close>
theorem check_params_valid:
  assumes "MIRDIR_NONE lib \<le> 0" and "0 \<le> MIRDIR_HOR_VER lib"
  shows "fst (check_params lib c op) =
      (if op = ENCODE \<and> cl_src_scheme c = PATH_FILE \<and> (cl_width c = 0 \<or> cl_height c = 0) then -1 else 0) \<and>
    (fst (check_params lib c op) = 0 \<longrightarrow> params_ok lib op (snd (check_params lib c op))) \<and>
    (params_ok lib op c \<and>
       \<not> (op = ENCODE \<and> cl_src_scheme c = PATH_V4L2 \<and> (cl_width c = 0 \<or> cl_height c = 0)) \<longrightarrow>
       check_params lib c op = (0, c))"
proof (intro conjI impI)
  show "fst (check_params lib c op) =
      (if op = ENCODE \<and> cl_src_scheme c = PATH_FILE \<and> (cl_width c = 0 \<or> cl_height c = 0) then -1 else 0)"
    unfolding check_params_split size_missing_def by simp
  assume "fst (check_params lib c op) = 0"
  then have ns: "\<not> size_missing c op" unfolding check_params_split by (simp split: if_splits)
  show "params_ok lib op (snd (check_params lib c op))"
    unfolding check_params_split(2) [OF ns] params_ok_def snd_conv
    using io_checked_ok [OF ns, of lib] check_last_three [OF assms, of "io_checked lib c op"] by simp
next
  assume ok: "params_ok lib op c \<and> \<not> (op = ENCODE \<and> cl_src_scheme c = PATH_V4L2 \<and> (cl_width c = 0 \<or> cl_height c = 0))"
  then have ns: "\<not> size_missing c op" by (auto simp: size_missing_def params_ok_def)
  have "check_deblock lib (check_mirror lib (check_rot c)) = c"
  proof -
    have "check_rot c = c" "check_mirror lib c = c" "check_deblock lib c = c"
      using ok by (auto simp: params_ok_def check_rot_def check_mirror_def check_deblock_def)
    then show ?thesis by simp
  qed
  then show "check_params lib c op = (0, c)"
    using check_params_split(2) [OF ns, of lib] io_checked_id [of lib op c] ok by simp
qed

definition lib_demo :: vpu_lib where
  "lib_demo = \<lparr>STD_MPEG4 = 0, STD_H263 = 1, STD_MPEG2 = 4, STD_DIV3 = 5, MIRDIR_NONE = 0, MIRDIR_HOR_VER = 3,
     cpu_is_mx6x = True, cpu_is_mx27 = False\<rparr>"

theorem check_params_valid_witness:
  "params_ok lib_demo ENCODE (snd (check_params lib_demo (cmd_zero\<lparr>cl_width := 100, cl_mirror := 7\<rparr>) ENCODE)) \<and>
   fst (check_params lib_demo (cmd_zero\<lparr>cl_src_scheme := PATH_FILE\<rparr>) ENCODE) = -1 \<and>
   check_params lib_demo (cmd_zero\<lparr>cl_src_scheme := PATH_FILE, cl_port := 5000\<rparr>) DECODE =
     (0, cmd_zero\<lparr>cl_src_scheme := PATH_FILE, cl_port := 5000\<rparr>)"
  using check_params_valid [of lib_demo "cmd_zero\<lparr>cl_width := 100, cl_mirror := 7\<rparr>" ENCODE]
    check_params_valid [of lib_demo "cmd_zero\<lparr>cl_src_scheme := PATH_FILE\<rparr>" ENCODE]
    check_params_valid [of lib_demo "cmd_zero\<lparr>cl_src_scheme := PATH_FILE, cl_port := 5000\<rparr>" DECODE]
  by (simp add: params_ok_def lib_demo_def cmd_zero_def path_defs op_defs)

text \<open>The lines that end an instance.\<close>

definition end_line :: "string \<Rightarrow> bool" where
  "end_line line \<longleftrightarrow> has_key (unwanted_loop line) ''end''"

definition count_ends :: "string list \<Rightarrow> nat" where
  "count_ends ls = length (filter end_line ls)"

lemma unwanted_le: "length (unwanted_loop s) \<le> length s"
  by (induction s) auto

lemma parse_options_end: "fst (parse_options buf cmd mode) = 100 \<longleftrightarrow> has_key buf ''end''"
  by (simp add: parse_options_def)

text \<open>
  Reading a configuration file counts its end lines: it returns with one more instance per end
  line, in bounds, unless a line follows the one that ended the last instance; then it writes behind
  \<open>input_arg\<close>, because the guard lets \<open>instance = MAX_NUM_INSTANCE\<close> pass.
\<close>
lemma config_lines_instances:
  assumes "list_all (\<lambda>l. length l < MAX_PATH) ls" and "instance_no o' \<le> length (input_arg o')"
  shows "if ls \<noteq> [] \<and> length (input_arg o') \<le> instance_no o' + count_ends (butlast ls)
    then config_lines ls o' = Undef
    else \<exists>o1. config_lines ls o' = Done o1 \<and> instance_no o1 = instance_no o' + count_ends ls \<and>
      length (input_arg o1) = length (input_arg o')"
  using assms
proof (induction ls arbitrary: o')
  case Nil
  then show ?case by (simp add: count_ends_def)
next
  case (Cons line ls)
  have sk: "skip_unwanted line = Done (unwanted_loop line)"
    using Cons.prems(1) unwanted_le [of line] by (simp add: skip_unwanted_def)
  show ?case
  proof (cases "instance_no o' < length (input_arg o')")
    case False
    then have "config_lines (line # ls) o' = Undef" using Cons.prems(2) by (simp add: sk)
    then show ?thesis using False by simp
  next
    case True
    define ia where "ia = input_arg o' ! instance_no o'"
    obtain r cmd mode where po: "parse_options (unwanted_loop line) (ia_cmd ia) (ia_mode ia) = (r, cmd, mode)"
      by (rule prod_cases3)
    define o1 where "o1 = o'\<lparr>input_arg := (input_arg o')[instance_no o' := ia\<lparr>ia_cmd := cmd, ia_mode := mode\<rparr>]\<rparr>"
    define o2 where "o2 = (if r = 100 then o1\<lparr>instance_no := instance_no o' + 1\<rparr> else o1)"
    have r: "r = 100 \<longleftrightarrow> end_line line"
      using parse_options_end [of "unwanted_loop line" "ia_cmd ia" "ia_mode ia"] by (simp add: po end_line_def)
    have step: "config_lines (line # ls) o' = config_lines ls o2"
      using True by (simp add: sk Let_def ia_def [symmetric] po o1_def [symmetric] o2_def)
    have o2: "instance_no o2 = instance_no o' + (if end_line line then 1 else 0)"
      "length (input_arg o2) = length (input_arg o')" using r by (simp_all add: o2_def o1_def)
    have "instance_no o2 \<le> length (input_arg o2)" using o2 True by simp
    note IH = Cons.IH [OF _ this]
    show ?thesis using IH Cons.prems(1) True unfolding step o2 by (cases ls) (auto simp: count_ends_def o2)
  qed
qed

end
