(* ===== verification/Ring_Memory.thy ===== *)
theory Ring_Memory
  imports Prelude
begin

unbundle bit_operations_syntax

text \<open>
  A ring of bytes in memory, shared by the decoder's and the encoder's bitstream buffer of the VPU
  test: a reference for reading and writing across the wrap, the number of bytes between a read
  and a write offset, and the addresses of a ring in the 32-bit address space.
\<close>

section \<open>Ring memory\<close>

text \<open>Reading and writing a ring of bytes from an offset on, as a reference.\<close>

definition ring_bytes :: "'a list \<Rightarrow> nat \<Rightarrow> nat \<Rightarrow> 'a list" where
  "ring_bytes mem off k = map (\<lambda>i. mem ! ((off + i) mod length mem)) [0..<k]"

primrec ring_write :: "'a list \<Rightarrow> nat \<Rightarrow> 'a list \<Rightarrow> 'a list" where
  "ring_write mem off [] = mem"
| "ring_write mem off (b # bs) = ring_write (mem[off mod length mem := b]) (Suc off) bs"

definition ring_used :: "nat \<Rightarrow> nat \<Rightarrow> nat \<Rightarrow> nat" where
  "ring_used n r w = (w + n - r) mod n"

definition ring_room :: "nat \<Rightarrow> nat \<Rightarrow> nat \<Rightarrow> nat" where
  "ring_room n r w = n - 1 - ring_used n r w"

lemma length_ring_bytes [simp]: "length (ring_bytes mem off k) = k"
  by (simp add: ring_bytes_def)

lemma ring_bytes_0 [simp]: "ring_bytes mem off 0 = []"
  by (simp add: ring_bytes_def)

lemma length_ring_write [simp]: "length (ring_write mem off bs) = length mem"
  by (induction bs arbitrary: mem off) simp_all

lemma ring_write_append:
  "ring_write mem off (as @ bs) = ring_write (ring_write mem off as) (off + length as) bs"
  by (induction as arbitrary: mem off) simp_all

lemma ring_write_wrap: "ring_write mem (off + length mem) bs = ring_write mem off bs"
proof (induction bs arbitrary: mem off)
  case (Cons b bs)
  from Cons.IH [of "mem[off mod length mem := b]" "Suc off"] show ?case by simp
qed simp

lemma ring_write_cong_mod:
  "off mod length mem = off' mod length mem \<Longrightarrow> ring_write mem off bs = ring_write mem off' bs"
proof (induction bs arbitrary: mem off off')
  case (Cons b bs)
  then have "Suc off mod length mem = Suc off' mod length mem" by (metis mod_Suc_eq)
  with Cons.IH [of "Suc off" "mem[off mod length mem := b]" "Suc off'"] Cons.prems show ?case by simp
qed simp

lemma ring_write_linear:
  "off + length bs \<le> length mem \<Longrightarrow>
   ring_write mem off bs = take off mem @ bs @ drop (off + length bs) mem"
proof (induction bs arbitrary: mem off)
  case (Cons b bs)
  then have lt: "off < length mem" by simp
  from Cons lt have "ring_write mem off (b # bs) =
      take (Suc off) (mem[off := b]) @ bs @ drop (Suc off + length bs) (mem[off := b])" by simp
  with lt show ?case by (simp add: take_Suc_conv_app_nth drop_update_cancel)
qed simp

lemma c_store_ring:
  "nat off + length bs \<le> length mem \<Longrightarrow> 0 \<le> off \<Longrightarrow> c_store mem off bs = Some (ring_write mem (nat off) bs)"
  by (simp add: c_store_def ring_write_linear)

lemma ring_bytes_add: "ring_bytes mem off (j + k) = ring_bytes mem off j @ ring_bytes mem (off + j) k"
  by (rule nth_equalityI) (auto simp: ring_bytes_def nth_append add.assoc)

lemma ring_bytes_mod [simp]: "ring_bytes mem (off mod length mem) k = ring_bytes mem off k"
  by (simp add: ring_bytes_def mod_add_left_eq)

lemma ring_bytes_linear: "off + k \<le> length mem \<Longrightarrow> ring_bytes mem off k = take k (drop off mem)"
  by (rule nth_equalityI) (auto simp: ring_bytes_def)

lemma ring_bytes_split:
  assumes "off \<le> length mem" and "length mem \<le> off + k" and "k \<le> length mem"
  shows "ring_bytes mem off k = drop off mem @ take (k - (length mem - off)) mem"
proof -
  let ?n = "length mem"
  have "ring_bytes mem off k = ring_bytes mem off (?n - off) @ ring_bytes mem ?n (k - (?n - off))"
    using ring_bytes_add [of mem off "?n - off" "k - (?n - off)"] assms by simp
  also have "ring_bytes mem ?n (k - (?n - off)) = ring_bytes mem 0 (k - (?n - off))"
    using ring_bytes_mod [of mem ?n] by simp
  finally show ?thesis using assms by (simp add: ring_bytes_linear)
qed

lemma ring_bytes_upd:
  assumes "used < length mem"
  shows "ring_bytes (mem[(rd + used) mod length mem := b]) rd (Suc used) = ring_bytes mem rd used @ [b]"
proof (rule nth_equalityI)
  fix i assume "i < length (ring_bytes (mem[(rd + used) mod length mem := b]) rd (Suc used))"
  then have i: "i < Suc used" by simp
  have "(rd + used) mod length mem \<noteq> (rd + i) mod length mem" if "i < used"
  proof
    assume eq: "(rd + used) mod length mem = (rd + i) mod length mem"
    have "length mem dvd (rd + used) - (rd + i)" by (rule mod_eq_dvd_iff_nat [THEN iffD1, OF _ eq]) (use that in simp)
    with that assms show False by (simp add: nat_dvd_not_less)
  qed
  moreover have "(rd + used) mod length mem < length mem" using assms by (intro mod_less_divisor) auto
  ultimately show "ring_bytes (mem[(rd + used) mod length mem := b]) rd (Suc used) ! i = (ring_bytes mem rd used @ [b]) ! i"
    using i by (cases "i < used") (auto simp: ring_bytes_def nth_append less_Suc_eq)
qed simp

text \<open>What is written behind the used part extends it and leaves it alone.\<close>

lemma ring_bytes_write:
  "used + length bs \<le> length mem \<Longrightarrow>
   ring_bytes (ring_write mem (rd + used) bs) rd (used + length bs) = ring_bytes mem rd used @ bs"
proof (induction bs arbitrary: mem used)
  case (Cons b bs)
  then show ?case using Cons.IH [of "Suc used" "mem[(rd + used) mod length mem := b]"]
    by (simp add: ring_bytes_upd)
qed simp

lemma ring_used_less: "0 < n \<Longrightarrow> ring_used n r w < n"
  by (simp add: ring_used_def)

lemma ring_used_pos: "r < n \<Longrightarrow> w < n \<Longrightarrow> (r + ring_used n r w) mod n = w"
  by (simp add: ring_used_def mod_add_right_eq)

lemma ring_used_add:
  assumes "r < n" and "w < n" and "ring_used n r w + k < n"
  shows "ring_used n r ((w + k) mod n) = ring_used n r w + k"
proof -
  have "ring_used n r ((w + k) mod n) = ((w + k) mod n + (n - r)) mod n" using assms by (simp add: ring_used_def)
  also have "\<dots> = (w + k + (n - r)) mod n" by (rule mod_add_left_eq)
  also have "w + k + (n - r) = w + (n - r) + k" by simp
  also have "(w + (n - r) + k) mod n = ((w + (n - r)) mod n + k) mod n" by (rule mod_add_left_eq [symmetric])
  also have "(w + (n - r)) mod n = ring_used n r w" using assms by (simp add: ring_used_def)
  finally show ?thesis using assms by simp
qed

lemma ring_used_same: "r < n \<Longrightarrow> ring_used n r r = 0"
  by (simp add: ring_used_def)

lemma ring_used_consume:
  assumes "r < n" and "w < n" and "k \<le> ring_used n r w"
  shows "ring_used n ((r + k) mod n) w = ring_used n r w - k"
proof -
  let ?u = "ring_used n r w" and ?r = "(r + k) mod n"
  have n: "0 < n" using assms by simp
  have u: "?u < n" using n by (rule ring_used_less)
  have "(?r + (?u - k)) mod n = (r + k + (?u - k)) mod n" by (rule mod_add_left_eq)
  also have "r + k + (?u - k) = r + ?u" using assms by simp
  also have "(r + ?u) mod n = w" using assms by (simp add: ring_used_pos)
  finally have "w = (?r + (?u - k)) mod n" by simp
  moreover have "ring_used n ?r ((?r + (?u - k)) mod n) = ring_used n ?r ?r + (?u - k)"
    by (rule ring_used_add) (use n u assms ring_used_same [of ?r n] in auto)
  ultimately show ?thesis using n by (simp add: ring_used_same)
qed

section \<open>Addresses\<close>

text \<open>The ring lies in the address space, with room for the sum that the code compares.\<close>

definition bs_geom :: "u32 \<Rightarrow> u32 \<Rightarrow> nat \<Rightarrow> bool" where
  "bs_geom va va_end n \<longleftrightarrow> va_end = va + of_nat n \<and> 0 < n \<and> unat va + 2 * n \<le> 2 ^ 32"

lemma unat_bs_addr:
  assumes "unat (va :: u32) + off < 2 ^ 32"
  shows "unat (va + of_nat off) = unat va + off"
proof -
  have "unat (of_nat off :: u32) = off" using assms by (simp add: unat_of_nat take_bit_nat_eq_self)
  then show ?thesis using assms by (simp add: unat_word_ariths take_bit_nat_eq_self)
qed

lemma s32_of_nat: "k < 2 ^ 31 \<Longrightarrow> s32 (of_nat k) = int k"
  using s32_of_int [of "int k"] by (simp add: int32_def)

lemma bs_geom_less: "bs_geom va va_end n \<Longrightarrow> k < n \<Longrightarrow> k < 2 ^ 31"
  by (simp add: bs_geom_def)

lemma bs_geom_compare:
  assumes "bs_geom va va_end n" and "off < n" and "k < n"
  shows "va_end < va + of_nat off + of_nat k \<longleftrightarrow> n < off + k"
proof -
  have "unat va_end = unat va + n"
    using unat_bs_addr [of va n] assms by (simp add: bs_geom_def)
  moreover have "unat (va + of_nat off + of_nat k) = unat va + (off + k)"
    using unat_bs_addr [of va "off + k"] assms by (simp add: bs_geom_def add.assoc)
  ultimately show ?thesis by (simp add: word_less_nat_alt)
qed

lemma bs_geom_room:
  assumes "bs_geom va va_end n" and "off < n" and "0 < off"
  shows "s32 (va_end - (va + of_nat off)) = int (n - off)"
proof -
  have "va_end - (va + of_nat off) = of_nat (n - off)" using assms by (simp add: bs_geom_def of_nat_diff)
  moreover have "n - off < 2 ^ 31" using assms by (auto simp: bs_geom_def)
  ultimately show ?thesis using s32_of_nat [of "n - off"] by simp
qed

end
