(* ===== verification/Dec_Bitstream.thy ===== *)
theory Dec_Bitstream
  imports Vpu_Io Ring_Memory "HOL-Library.Sublist"
begin

unbundle bit_operations_syntax

text \<open>
  The bitstream ring buffer of the decoder, which \<open>dec_fill_bsbuffer\<close> of
  \<^verbatim>\<open>src/test/mxc_vpu_test/dec.c\<close> fills from the input. The VPU library, which keeps the read and write
  pointer of the ring behind a handle, is a parameter; \<open>dec_lib_laws\<close> states what its
  manual promises. The decoder hardware that consumes the ring is the environment of the step relation
  \<open>dec_step\<close>.
\<close>

section \<open>Filling the decoder's ring\<close>

text \<open>
  \<open>dl_get\<close> is \<open>vpu_DecGetBitstreamBuffer\<close>: whether it succeeded, the physical read and write address
  and the free space. \<open>dl_update\<close> is \<open>vpu_DecUpdateBitstreamBuffer\<close>, \<open>dl_stream_end\<close> the library's
  \<open>STREAM_END_SIZE\<close>. The state holds the handle, the ring as seen from \<open>bs_va_startaddr\<close> on, the command record and
  the world, and the two variables the caller passes by address.
\<close>

record 'h dec_lib =
  dl_get :: "'h \<Rightarrow> bool \<times> u32 \<times> u32 \<times> u32"
  dl_update :: "'h \<Rightarrow> u32 \<Rightarrow> bool \<times> 'h"
  dl_stream_end :: u32

record 'h dec_bs =
  bs_handle :: 'h
  bs_mem :: "u8 list"
  bs_cmd :: cmd_line
  bs_world :: vpu_world
  bs_eos :: int
  bs_fill_end :: int

definition STREAM_BUF_SIZE :: nat where "STREAM_BUF_SIZE = 0x200000"
definition STREAM_FILL_SIZE :: int where "STREAM_FILL_SIZE = 0x40000"
definition STREAM_READ_SIZE :: int where "STREAM_READ_SIZE = 512 * 8"

text \<open>\<open>vpu_read\<close> into the ring at a virtual address.\<close>

definition bs_read :: "u32 \<Rightarrow> 'h dec_bs \<Rightarrow> u32 \<Rightarrow> int \<Rightarrow> (int \<times> 'h dec_bs) run" where
  "bs_read bs_va_startaddr s addr n =
     run_bind (vpu_read (bs_world s) (bs_cmd s) n) (\<lambda>(nread, bs, cmd, w).
       case c_store (bs_mem s) (uint addr - uint bs_va_startaddr) bs of
         None \<Rightarrow> Undef
       | Some m \<Rightarrow> Done (nread, s\<lparr>bs_mem := m, bs_cmd := cmd, bs_world := w\<rparr>))"

text \<open>How much to read: \<open>defaultsize\<close> if it fits, whole blocks of 512 bytes if it is zero.\<close>

definition fill_size :: "u32 \<Rightarrow> int \<Rightarrow> int" where
  "fill_size space defaultsize =
     (if defaultsize > 0 then (if space < word_of_int defaultsize then 0 else defaultsize)
      else s32 (push_bit 9 (drop_bit 9 space)))"

text \<open>The code after a \<open>vpu_read\<close>: an error returns, the end of the input sets \<open>*eos\<close>.\<close>

definition check_read :: "int \<Rightarrow> 'h dec_bs \<Rightarrow> ('h dec_bs \<Rightarrow> (int \<times> 'h dec_bs) run) \<Rightarrow> (int \<times> 'h dec_bs) run" where
  "check_read nread s k =
     (if nread < 0 then (if nread = - EAGAIN then Done (0, s) else Done (-1, s))
      else if nread = 0 then k (s\<lparr>bs_eos := 1\<rparr>) else k s)"

text \<open>The label \<open>update\<close>.\<close>

definition dec_update :: "'h dec_lib \<Rightarrow> int \<Rightarrow> 'h dec_bs \<Rightarrow> (int \<times> 'h dec_bs) run" where
  "dec_update lib nread s =
     (if bs_eos s = 0 then
        (let (ok, h) = dl_update lib (bs_handle s) (word_of_int nread)
         in if ok then Done (nread, s\<lparr>bs_handle := h, bs_fill_end := 0\<rparr>) else Done (-1, s\<lparr>bs_handle := h\<rparr>))
      else if bs_fill_end s = 0 then
        (let (ok, h) = dl_update lib (bs_handle s) (dl_stream_end lib)
         in if ok then Done (nread, s\<lparr>bs_handle := h, bs_fill_end := 1\<rparr>) else Done (-1, s\<lparr>bs_handle := h\<rparr>))
      else Done (nread, s))"

definition dec_fill_bsbuffer ::
    "'h dec_lib \<Rightarrow> u32 \<Rightarrow> u32 \<Rightarrow> u32 \<Rightarrow> int \<Rightarrow> 'h dec_bs \<Rightarrow> (int \<times> 'h dec_bs) run" where
  "dec_fill_bsbuffer lib bs_va_startaddr bs_va_endaddr bs_pa_startaddr defaultsize s0 =
     (let s = s0\<lparr>bs_eos := 0\<rparr>; (ok, pa_read_ptr, pa_write_ptr, space) = dl_get lib (bs_handle s)
      in if \<not> ok then Done (-1, s)
         else if space \<le> 0 then Done (0, s)
         else
           (let size = fill_size space defaultsize
            in if size = 0 then Done (0, s)
               else
                 (let target_addr = bs_va_startaddr + (pa_write_ptr - bs_pa_startaddr)
                  in if target_addr + word_of_int size > bs_va_endaddr then
                       (let room = s32 (bs_va_endaddr - target_addr)
                        in run_bind (bs_read bs_va_startaddr s target_addr room) (\<lambda>(nread, s1).
                             if nread \<le> 0 then check_read nread s1 (dec_update lib nread)
                             else if nread \<noteq> room then dec_update lib nread s1
                             else run_bind (bs_read bs_va_startaddr s1 bs_va_startaddr (size - room)) (\<lambda>(nread2, s2).
                                    check_read nread2 s2
                                      (dec_update lib (s32 (word_of_int nread2 + word_of_int nread))))))
                     else
                       run_bind (bs_read bs_va_startaddr s target_addr size) (\<lambda>(nread, s1).
                         check_read nread s1 (dec_update lib nread)))))"

section \<open>What the library promises\<close>

text \<open>
  The ring of \<open>n\<close> bytes at physical address \<open>pa\<close>; \<open>rd\<close> and \<open>wr\<close> are the offsets the handle holds. One byte
  always stays free. An update by what fits moves the write pointer and nothing else, and the end
  marker moves no pointer.
\<close>

definition dec_lib_laws :: "'h dec_lib \<Rightarrow> u32 \<Rightarrow> nat \<Rightarrow> ('h \<Rightarrow> nat) \<Rightarrow> ('h \<Rightarrow> nat) \<Rightarrow> bool" where
  "dec_lib_laws lib pa n rd wr \<longleftrightarrow> (\<forall>h. rd h < n \<and> wr h < n \<and>
     dl_get lib h = (True, pa + of_nat (rd h), pa + of_nat (wr h), of_nat (ring_room n (rd h) (wr h))) \<and>
     (\<forall>k. 0 < k \<longrightarrow> k \<le> ring_room n (rd h) (wr h) \<longrightarrow>
        fst (dl_update lib h (of_nat k)) \<and> rd (snd (dl_update lib h (of_nat k))) = rd h \<and>
        wr (snd (dl_update lib h (of_nat k))) = (wr h + k) mod n) \<and>
     fst (dl_update lib h (dl_stream_end lib)) \<and>
     rd (snd (dl_update lib h (dl_stream_end lib))) = rd h \<and> wr (snd (dl_update lib h (dl_stream_end lib))) = wr h)"

lemma fill_size_bounds:
  assumes "r < 2 ^ 31" and "0 \<le> defaultsize" and "defaultsize < 2 ^ 31"
  shows "fill_size (of_nat r) defaultsize =
    int (if defaultsize = 0 then 512 * (r div 512) else if int r < defaultsize then 0 else nat defaultsize)"
proof (cases "defaultsize = 0")
  case True
  have "unat (push_bit 9 (drop_bit 9 (of_nat r :: u32))) = 512 * (r div 512)"
  proof -
    have le: "512 * (r div 512) \<le> r" by simp
    have r: "unat (of_nat r :: u32) = r" using assms by (simp add: unat_of_nat take_bit_nat_eq_self)
    have "unat (drop_bit 9 (of_nat r :: u32)) = drop_bit 9 (unat (of_nat r :: u32))" by (rule unat_drop_bit_eq)
    also have "\<dots> = r div 512" unfolding r by (simp add: drop_bit_eq_div)
    finally have "unat (drop_bit 9 (of_nat r :: u32)) = r div 512" .
    then show ?thesis using le assms
      by (simp add: push_bit_eq_mult unat_word_ariths take_bit_nat_eq_self mult.commute)
  qed
  then have "push_bit 9 (drop_bit 9 (of_nat r :: u32)) = of_nat (512 * (r div 512))"
    by (metis word_unat_eq_iff of_nat_unat ucast_id)
  then show ?thesis using True assms s32_of_nat [of "512 * (r div 512)"] by (simp add: fill_size_def del: of_nat_mult)
next
  case False
  then have "(of_nat r :: u32) < word_of_int defaultsize \<longleftrightarrow> int r < defaultsize"
    using assms by (simp add: word_less_def uint_word_of_int unsigned_of_nat take_bit_nat_eq_self take_bit_int_eq_self)
  then show ?thesis using False assms by (simp add: fill_size_def)
qed

section \<open>One fill from a file\<close>

lemma vpu_read_file:
  assumes "cl_src_scheme cmd \<noteq> PATH_NET"
  obtains (err) k w' where "vpu_read w cmd (int n) = Done (-1, take k (rf_data (vw_src w)), cmd, w')" "k \<le> n"
      "None \<in> set (rf_sched (vw_src w))"
  | (ok) w' where "vpu_read w cmd (int n) = Done (int (min n (length (rf_data (vw_src w)))),
        take (min n (length (rf_data (vw_src w)))) (rf_data (vw_src w)), cmd, w')"
      "rf_data (vw_src w') = drop (min n (length (rf_data (vw_src w)))) (rf_data (vw_src w))"
      "set (rf_sched (vw_src w')) \<subseteq> set (rf_sched (vw_src w))"
proof -
  obtain r buf f where rd: "freadn_loop (vw_src w) (int n) (int n) [] = (r, buf, f)"
    by (metis prod_cases3)
  have eq: "vpu_read w cmd (int n) = Done (r, buf, cmd, w\<lparr>vw_src := f\<rparr>)"
    using assms rd by (simp add: vpu_read_def freadn_def)
  note sub = freadn_loop_sched [OF rd]
  from freadn_loop_correct [OF rd] obtain k where "buf = take k (rf_data (vw_src w))" "rf_data f = drop k (rf_data (vw_src w))"
    and "r = -1 \<and> None \<in> set (rf_sched (vw_src w)) \<and> k \<le> min n (length (rf_data (vw_src w))) \<or>
      k = min n (length (rf_data (vw_src w))) \<and> r = int k" by auto
  then show thesis using eq sub err [of k] ok by auto
qed

lemma bs_read_file:
  assumes geom: "bs_geom va va_end (length (bs_mem s))" and off: "off < length (bs_mem s)" "off + n \<le> length (bs_mem s)"
    and src: "cl_src_scheme (bs_cmd s) \<noteq> PATH_NET"
    and data: "rf_data (vw_src (bs_world s)) = data"
  obtains (err) s' where "bs_read va s (va + of_nat off) (int n) = Done (-1, s')" "None \<in> set (rf_sched (vw_src (bs_world s)))"
  | (ok) w' where "bs_read va s (va + of_nat off) (int n) = Done (int (min n (length data)),
        s\<lparr>bs_mem := ring_write (bs_mem s) off (take (min n (length data)) data), bs_world := w'\<rparr>)"
      "rf_data (vw_src w') = drop (min n (length data)) data"
      "set (rf_sched (vw_src w')) \<subseteq> set (rf_sched (vw_src (bs_world s)))"
proof -
  have "unat (va + of_nat off) = unat va + off" using geom off by (intro unat_bs_addr) (simp add: bs_geom_def)
  then have addr: "uint (va + of_nat off) - uint va = int off" unfolding uint_nat by simp
  from src show thesis
  proof (cases rule: vpu_read_file [of "bs_cmd s" "bs_world s" n])
    case (err k w')
    have "c_store (bs_mem s) (int off) (take k data) = Some (ring_write (bs_mem s) off (take k data))"
      using c_store_ring [of "int off" "take k data"] off err by simp
    then have "bs_read va s (va + of_nat off) (int n) = Done (-1,
        s\<lparr>bs_mem := ring_write (bs_mem s) off (take k data), bs_world := w'\<rparr>)"
      using err(1) data by (simp add: bs_read_def addr)
    then show ?thesis using err(3) by (rule that(1))
  next
    case (ok w')
    have "c_store (bs_mem s) (int off) (take (min n (length data)) data) =
        Some (ring_write (bs_mem s) off (take (min n (length data)) data))"
      using c_store_ring [of "int off" "take (min n (length data)) data"] off by simp
    then have "bs_read va s (va + of_nat off) (int n) = Done (int (min n (length data)),
        s\<lparr>bs_mem := ring_write (bs_mem s) off (take (min n (length data)) data), bs_world := w'\<rparr>)"
      using ok(1) data by (simp add: bs_read_def addr)
    then show ?thesis using ok(2,3) data by (intro that(2)) simp_all
  qed
qed

abbreviation bs_data :: "'h dec_bs \<Rightarrow> u8 list" where "bs_data s \<equiv> rf_data (vw_src (bs_world s))"
abbreviation bs_sched :: "'h dec_bs \<Rightarrow> nat option list" where "bs_sched s \<equiv> rf_sched (vw_src (bs_world s))"

text \<open>
  What a fill of \<open>sz\<close> bytes does to the state when no \<open>read\<close> fails: the bytes go to the ring from the
  write pointer on. They are handed over, unless there are none or the input ended with the last byte in front of the wrap.
\<close>

definition fill_lost :: "nat \<Rightarrow> ('h \<Rightarrow> nat) \<Rightarrow> nat \<Rightarrow> 'h dec_bs \<Rightarrow> bool" where
  "fill_lost n wr sz s \<longleftrightarrow> n < wr (bs_handle s) + sz \<and> length (bs_data s) = n - wr (bs_handle s)"

definition filled :: "nat \<Rightarrow> ('h \<Rightarrow> nat) \<Rightarrow> ('h \<Rightarrow> nat) \<Rightarrow> nat \<Rightarrow> 'h dec_bs \<Rightarrow> 'h dec_bs \<Rightarrow> bool" where
  "filled n rd wr sz s s' \<longleftrightarrow>
     (let got = min sz (length (bs_data s)) in
      bs_mem s' = ring_write (bs_mem s) (wr (bs_handle s)) (take got (bs_data s)) \<and>
      bs_data s' = drop got (bs_data s) \<and> set (bs_sched s') \<subseteq> set (bs_sched s) \<and>
      bs_cmd s' = bs_cmd s \<and> rd (bs_handle s') = rd (bs_handle s) \<and>
      (if got = 0 \<or> fill_lost n wr sz s
       then wr (bs_handle s') = wr (bs_handle s) \<and> bs_eos s' = 1 \<and> bs_fill_end s' \<noteq> 0
       else wr (bs_handle s') = (wr (bs_handle s) + got) mod n \<and> bs_eos s' = 0 \<and> bs_fill_end s' = 0))"

lemma dec_update_data:
  assumes "dec_lib_laws lib pa n rd wr" and "bs_eos s = 0" and "0 < k" and "k \<le> ring_room n (rd (bs_handle s)) (wr (bs_handle s))"
  obtains h' where "dec_update lib (int k) s = Done (int k, s\<lparr>bs_handle := h', bs_fill_end := 0\<rparr>)"
    "rd h' = rd (bs_handle s)" "wr h' = (wr (bs_handle s) + k) mod n"
proof -
  let ?u = "dl_update lib (bs_handle s) (of_nat k)"
  have "fst ?u" "rd (snd ?u) = rd (bs_handle s)" "wr (snd ?u) = (wr (bs_handle s) + k) mod n"
    using assms by (auto simp: dec_lib_laws_def)
  with assms show thesis by (intro that [of "snd ?u"]) (auto simp: dec_update_def split: prod.splits)
qed

lemma dec_update_end:
  assumes "dec_lib_laws lib pa n rd wr" and "bs_eos s = 1"
  obtains h' e where "dec_update lib r s = Done (r, s\<lparr>bs_handle := h', bs_fill_end := e\<rparr>)"
    "rd h' = rd (bs_handle s)" "wr h' = wr (bs_handle s)" "e \<noteq> 0"
proof (cases "bs_fill_end s = 0")
  case True
  let ?u = "dl_update lib (bs_handle s) (dl_stream_end lib)"
  have "fst ?u" "rd (snd ?u) = rd (bs_handle s)" "wr (snd ?u) = wr (bs_handle s)"
    using assms by (auto simp: dec_lib_laws_def)
  with assms True show thesis
    by (intro that [where h' = "snd ?u" and e = 1]) (auto simp: dec_update_def split: prod.splits)
next
  case False
  with assms show thesis by (intro that [where h' = "bs_handle s" and e = "bs_fill_end s"]) (auto simp: dec_update_def)
qed

text \<open>The check of the last read, which brought \<open>t\<close> of the \<open>got\<close> bytes, and the update.\<close>

lemma read_update:
  assumes laws: "dec_lib_laws lib pa n rd wr" and eos: "bs_eos s = 0"
    and s1: "s1 = s\<lparr>bs_mem := ring_write (bs_mem s) (wr (bs_handle s)) (take got (bs_data s)), bs_world := w'\<rparr>"
      "rf_data (vw_src w') = drop got (bs_data s)" "set (rf_sched (vw_src w')) \<subseteq> set (bs_sched s)"
    and got: "got = min sz (length (bs_data s))" "got \<le> ring_room n (rd (bs_handle s)) (wr (bs_handle s))"
    and t: "t = 0 \<longleftrightarrow> got = 0 \<or> fill_lost n wr sz s"
  shows "\<exists>s'. check_read (int t) s1 (dec_update lib (int got)) = Done (int got, s') \<and> filled n rd wr sz s s'"
proof (cases "t = 0")
  case True
  obtain h' e where "dec_update lib (int got) (s1\<lparr>bs_eos := 1\<rparr>) = Done (int got, s1\<lparr>bs_eos := 1, bs_handle := h', bs_fill_end := e\<rparr>)"
    "rd h' = rd (bs_handle s1)" "wr h' = wr (bs_handle s1)" "e \<noteq> 0"
    by (rule dec_update_end [OF laws, where s = "s1\<lparr>bs_eos := 1\<rparr>" and r = "int got"]) simp_all
  with True s1 t show ?thesis unfolding filled_def Let_def got(1) [symmetric] by (auto simp: check_read_def)
next
  case False
  with laws eos s1 got t obtain h' where "dec_update lib (int got) s1 = Done (int got, s1\<lparr>bs_handle := h', bs_fill_end := 0\<rparr>)"
    "rd h' = rd (bs_handle s)" "wr h' = (wr (bs_handle s) + got) mod n"
    using dec_update_data [OF laws, of s1 got] by auto
  with False s1 t eos show ?thesis unfolding filled_def Let_def got(1) [symmetric] by (auto simp: check_read_def)
qed

text \<open>The branch that splits the request at the end of the ring: behind it, then in front.\<close>

lemma ring_write_two:
  assumes "w + length as = length mem"
  shows "ring_write (ring_write mem w as) 0 bs = ring_write mem w (as @ bs)"
  using assms ring_write_wrap [of "ring_write mem w as" 0 bs] by (simp add: ring_write_append)

lemma second_read_update:
  assumes laws: "dec_lib_laws lib pa n rd wr" and eos: "bs_eos s = 0" and n: "n = length (bs_mem s)"
    and geom: "bs_geom va va_end n" and src: "cl_src_scheme (bs_cmd s) \<noteq> PATH_NET"
    and sz: "sz \<le> ring_room n (rd (bs_handle s)) (wr (bs_handle s))" "sz < n"
    and w: "w = wr (bs_handle s)" and room: "room = n - w" "0 < room" "room < sz" "room \<le> length (bs_data s)" "w < n"
    and s1: "s1 = s\<lparr>bs_mem := ring_write (bs_mem s) w (take room (bs_data s)), bs_world := w1\<rparr>"
      "bs_data s1 = drop room (bs_data s)" "set (bs_sched s1) \<subseteq> set (bs_sched s)"
    and R: "R = run_bind (bs_read va s1 (va + of_nat 0) (int (sz - room))) (\<lambda>(nread2, s2).
              check_read nread2 s2 (dec_update lib (s32 (word_of_int nread2 + word_of_int (int room)))))"
  shows "(\<exists>s'. R = Done (-1, s') \<and> None \<in> set (bs_sched s)) \<or>
    (\<exists>s'. R = Done (int (min sz (length (bs_data s))), s') \<and> filled n rd wr sz s s')"
proof -
  let ?data = "bs_data s" and ?got = "min sz (length (bs_data s))"
  let ?g2 = "min (sz - room) (length (drop room ?data))"
  have "bs_geom va va_end (length (bs_mem s1))" "0 < length (bs_mem s1)" "0 + (sz - room) \<le> length (bs_mem s1)"
    "cl_src_scheme (bs_cmd s1) \<noteq> PATH_NET" using geom sz n src s1(1) by auto
  from this s1(2) show ?thesis
  proof (cases rule: bs_read_file)
    case (err s2)
    then show ?thesis using R s1(3) by (auto simp: check_read_def errno_defs)
  next
    case (ok w2)
    have got: "room + ?g2 = ?got" using room by auto
    have dat: "take room ?data @ take ?g2 (drop room ?data) = take ?got ?data"
      unfolding got [symmetric] by (rule take_add [symmetric])
    have mem: "ring_write (ring_write (bs_mem s) w (take room ?data)) 0 (take ?g2 (drop room ?data)) =
        ring_write (bs_mem s) w (take ?got ?data)"
      unfolding dat [symmetric] using n room by (intro ring_write_two) (simp add: min_def)
    have "s32 (word_of_int (int ?g2) + word_of_int (int room)) = s32 (of_nat ?got)"
      unfolding got [symmetric] by (simp add: add.commute)
    also have "\<dots> = int ?got" using bs_geom_less [OF geom, of ?got] sz by (intro s32_of_nat) simp
    finally have nread: "s32 (word_of_int (int ?g2) + word_of_int (int room)) = int ?got" .
    have R': "R = check_read (int ?g2) (s\<lparr>bs_mem := ring_write (bs_mem s) w (take ?got ?data), bs_world := w2\<rparr>)
        (dec_update lib (int ?got))"
      unfolding R ok(1) run_bind.simps prod.case nread by (simp add: s1(1) mem del: length_drop)
    have t: "?g2 = 0 \<longleftrightarrow> ?got = 0 \<or> fill_lost n wr sz s" using w room by (auto simp: fill_lost_def)
    have d2: "rf_data (vw_src w2) = drop ?got ?data"
      unfolding ok(2) got [symmetric] by (simp add: add.commute)
    have sub: "set (rf_sched (vw_src w2)) \<subseteq> set (bs_sched s)" using ok(3) s1(3) by (rule subset_trans)
    have le: "?got \<le> ring_room n (rd (bs_handle s)) (wr (bs_handle s))" using sz by simp
    from read_update [OF laws eos refl d2 sub refl le t] show ?thesis unfolding R' w by blast
  qed
qed

lemma split_read_update:
  assumes laws: "dec_lib_laws lib pa n rd wr" and eos: "bs_eos s = 0" and n: "n = length (bs_mem s)"
    and geom: "bs_geom va va_end n" and src: "cl_src_scheme (bs_cmd s) \<noteq> PATH_NET"
    and sz: "n < wr (bs_handle s) + sz" "sz \<le> ring_room n (rd (bs_handle s)) (wr (bs_handle s))"
    and w: "w = wr (bs_handle s)" and room: "room = n - w"
    and R: "R = run_bind (bs_read va s (va + of_nat w) (int room)) (\<lambda>(nread, s1).
       if nread \<le> 0 then check_read nread s1 (dec_update lib nread)
       else if nread \<noteq> int room then dec_update lib nread s1
       else run_bind (bs_read va s1 va (int sz - int room)) (\<lambda>(nread2, s2).
              check_read nread2 s2 (dec_update lib (s32 (word_of_int nread2 + word_of_int nread)))))"
  shows "(\<exists>s'. R = Done (-1, s') \<and> None \<in> set (bs_sched s)) \<or>
    (\<exists>s'. R = Done (int (min sz (length (bs_data s))), s') \<and> filled n rd wr sz s s')"
proof -
  let ?h = "bs_handle s" and ?data = "bs_data s"
  have w_less: "w < n" using laws w by (simp add: dec_lib_laws_def)
  have sz_less: "sz < n" using sz(2) w_less by (auto simp: ring_room_def)
  then have room_less: "0 < room" "room < sz" using sz(1) w room w_less by auto
  have "bs_geom va va_end (length (bs_mem s))" "w < length (bs_mem s)" "w + room \<le> length (bs_mem s)"
    using geom n w_less room by auto
  from this src refl show ?thesis
  proof (cases rule: bs_read_file)
    case (err s1)
    then show ?thesis using R by (simp add: check_read_def errno_defs)
  next
    case (ok w1)
    let ?k = "min room (length ?data)"
    let ?s1 = "s\<lparr>bs_mem := ring_write (bs_mem s) w (take ?k ?data), bs_world := w1\<rparr>"
    show ?thesis
    proof (cases "length ?data < room")
      case True
      then have k: "?k = min sz (length ?data)" "\<not> fill_lost n wr sz s" using room_less w room by (auto simp: fill_lost_def)
      have "R = check_read (int ?k) ?s1 (dec_update lib (int ?k))"
        using R ok(1) True room_less by (auto simp: check_read_def)
      moreover have "?k \<le> ring_room n (rd ?h) (wr ?h)" using k sz by simp
      ultimately show ?thesis using read_update [OF laws eos _ ok(2,3) k(1), of ?s1 ?k] k w by auto
    next
      case False
      then have k: "?k = room" by simp
      have "R = run_bind (bs_read va ?s1 (va + of_nat 0) (int (sz - room))) (\<lambda>(nread2, s2).
              check_read nread2 s2 (dec_update lib (s32 (word_of_int nread2 + word_of_int (int room)))))"
        using R ok(1) room_less unfolding k by (simp add: of_nat_diff)
      then show ?thesis using False k ok(2,3) w_less sz_less room_less
        by (intro second_read_update [OF laws eos n geom src sz(2) _ w room, of ?s1 w1]) simp_all
    qed
  qed
qed

text \<open>The function in terms of offsets into the ring.\<close>

lemma dec_lib_get:
  assumes "dec_lib_laws lib pa n rd wr"
  shows "dl_get lib h = (True, pa + of_nat (rd h), pa + of_nat (wr h), of_nat (ring_room n (rd h) (wr h)))"
    "rd h < n" "wr h < n" "ring_room n (rd h) (wr h) < n"
proof -
  show "dl_get lib h = (True, pa + of_nat (rd h), pa + of_nat (wr h), of_nat (ring_room n (rd h) (wr h)))" "rd h < n" "wr h < n"
    using assms by (simp_all add: dec_lib_laws_def)
  then show "ring_room n (rd h) (wr h) < n" by (auto simp: ring_room_def)
qed

lemma fill_size_room:
  assumes "bs_geom va va_end n" and "r < n" and d: "0 \<le> d" "d < 2 ^ 31" and sz: "sz = nat (fill_size (of_nat r) d)"
  shows "fill_size (of_nat r) d = int sz" "sz \<le> r" "(of_nat r :: u32) \<le> 0 \<longrightarrow> sz = 0"
proof -
  have r: "r < 2 ^ 31" using bs_geom_less assms(1,2) by blast
  then have "(of_nat r :: u32) = 0 \<longleftrightarrow> r = 0" by (simp add: word_unat_eq_iff unat_of_nat take_bit_nat_eq_self)
  then show "fill_size (of_nat r) d = int sz" "sz \<le> r" "(of_nat r :: u32) \<le> 0 \<longrightarrow> sz = 0"
    using fill_size_bounds [OF r d] sz d by (auto split: if_splits)
qed

lemma dec_fill_offsets:
  assumes laws: "dec_lib_laws lib pa n rd wr" and geom: "bs_geom va va_end n" and d: "0 \<le> d" "d < 2 ^ 31"
    and sz: "sz = nat (fill_size (of_nat (ring_room n (rd (bs_handle s)) (wr (bs_handle s)))) d)"
    and s0: "s0 = s\<lparr>bs_eos := 0\<rparr>" and w: "w = wr (bs_handle s)" and room: "room = n - w"
  shows "dec_fill_bsbuffer lib va va_end pa d s =
     (if sz = 0 then Done (0, s0)
      else if n < w + sz then
        run_bind (bs_read va s0 (va + of_nat w) (int room)) (\<lambda>(nread, s1).
          if nread \<le> 0 then check_read nread s1 (dec_update lib nread)
          else if nread \<noteq> int room then dec_update lib nread s1
          else run_bind (bs_read va s1 va (int sz - int room)) (\<lambda>(nread2, s2).
                 check_read nread2 s2 (dec_update lib (s32 (word_of_int nread2 + word_of_int nread)))))
      else run_bind (bs_read va s0 (va + of_nat w) (int sz)) (\<lambda>(nread, s1).
             check_read nread s1 (dec_update lib nread)))"
proof -
  note get = dec_lib_get [OF laws, of "bs_handle s"]
  note size = fill_size_room [OF geom get(4) d sz]
  have less: "w < n" "sz < n" using get size w by auto
  have cmp: "va_end < va + of_nat w + of_nat sz \<longleftrightarrow> n < w + sz" by (rule bs_geom_compare [OF geom less])
  have rm: "s32 (va_end - (va + of_nat w)) = int room" if "n < w + sz"
    unfolding room by (rule bs_geom_room [OF geom less(1)]) (use that less in simp)
  have tgt: "va + (pa + of_nat w - pa) = va + of_nat w" by simp
  have get': "dl_get lib (bs_handle s0) = (True, pa + of_nat (rd (bs_handle s)), pa + of_nat w,
      of_nat (ring_room n (rd (bs_handle s)) (wr (bs_handle s))))" using get(1) s0 w by simp
  have wi: "word_of_int (int sz) = (of_nat sz :: u32)" by simp
  note unf = dec_fill_bsbuffer_def Let_def s0 [symmetric] get' prod.case size(1) tgt wi
  show ?thesis
  proof (cases "n < w + sz")
    case True
    then show ?thesis unfolding unf rm [OF True] using cmp size(3) by simp
  next
    case False
    then show ?thesis unfolding unf using cmp size(3) by simp
  qed
qed

text \<open>
  The whole function on a file: it fails if a read fails, does nothing if there is no room, and otherwise
  stores what it read.
\<close>

lemma dec_fill_file:
  assumes laws: "dec_lib_laws lib pa n rd wr" and geom: "bs_geom va va_end n" and n: "n = length (bs_mem s)"
    and src: "cl_src_scheme (bs_cmd s) \<noteq> PATH_NET" and d: "0 \<le> d" "d < 2 ^ 31"
    and sz: "sz = nat (fill_size (of_nat (ring_room n (rd (bs_handle s)) (wr (bs_handle s)))) d)"
    and R: "R = dec_fill_bsbuffer lib va va_end pa d s"
  shows "(\<exists>s'. R = Done (-1, s') \<and> None \<in> set (bs_sched s)) \<or>
    sz = 0 \<and> R = Done (0, s\<lparr>bs_eos := 0\<rparr>) \<or>
    0 < sz \<and> (\<exists>s'. R = Done (int (min sz (length (bs_data s))), s') \<and> filled n rd wr sz s s')"
proof -
  let ?s = "s\<lparr>bs_eos := 0\<rparr>" and ?w = "wr (bs_handle s)"
  note get = dec_lib_get [OF laws, of "bs_handle s"]
  note size = fill_size_room [OF geom get(4) d sz]
  note R1 = R [unfolded dec_fill_offsets [OF laws geom d sz refl refl refl]]
  have filled_s: "filled n rd wr sz ?s s' \<longleftrightarrow> filled n rd wr sz s s'" for s'
    by (simp add: filled_def fill_lost_def)
  have src': "cl_src_scheme (bs_cmd ?s) \<noteq> PATH_NET" using src by simp
  consider (none) "sz = 0" | (wrap) "0 < sz" "n < ?w + sz" | (lin) "0 < sz" "?w + sz \<le> n" by linarith
  then show ?thesis
  proof cases
    case none
    then show ?thesis using R1 by simp
  next
    case wrap
    have "(\<exists>s'. R = Done (-1, s') \<and> None \<in> set (bs_sched ?s)) \<or>
        (\<exists>s'. R = Done (int (min sz (length (bs_data ?s))), s') \<and> filled n rd wr sz ?s s')"
      by (rule split_read_update [OF laws _ _ geom src' _ _ _ refl, where w = ?w]) (use wrap size n R1 in simp_all)
    then show ?thesis using wrap filled_s by simp
  next
    case lin
    then have R2: "R = run_bind (bs_read va ?s (va + of_nat ?w) (int sz)) (\<lambda>(nread, s1).
        check_read nread s1 (dec_update lib nread))" using R1 by simp
    have "bs_geom va va_end (length (bs_mem ?s))" "?w < length (bs_mem ?s)" "?w + sz \<le> length (bs_mem ?s)"
      using geom get lin n by simp_all
    from this src' refl show ?thesis
    proof (cases rule: bs_read_file)
      case (err s1)
      then show ?thesis using R2 by (simp add: check_read_def errno_defs)
    next
      case (ok w1)
      let ?got = "min sz (length (bs_data ?s))"
      have t: "?got = 0 \<longleftrightarrow> ?got = 0 \<or> fill_lost n wr sz ?s" using lin by (auto simp: fill_lost_def)
      have le: "?got \<le> ring_room n (rd (bs_handle ?s)) (wr (bs_handle ?s))" using size by simp
      have "\<exists>s'. R = Done (int ?got, s') \<and> filled n rd wr sz ?s s'"
        unfolding R2 ok(1) run_bind.simps prod.case using read_update [OF laws _ refl ok(2,3) refl le t] by simp
      then show ?thesis using lin filled_s by simp
    qed
  qed
qed

section \<open>Decoder and filler together\<close>

text \<open>
  The state with the bytes the decoder has taken so far. A fill that fails ends the run, since every
  caller gives up on a negative result; in between the decoder takes bytes at its read pointer.
\<close>

inductive dec_step ::
    "'h dec_lib \<Rightarrow> u32 \<Rightarrow> u32 \<Rightarrow> u32 \<Rightarrow> nat \<Rightarrow> ('h \<Rightarrow> nat) \<Rightarrow> ('h \<Rightarrow> nat) \<Rightarrow>
     'h dec_bs \<times> u8 list \<Rightarrow> 'h dec_bs \<times> u8 list \<Rightarrow> bool"
  for lib va va_end pa n rd wr where
  fill: "0 \<le> d \<Longrightarrow> d < 2 ^ 31 \<Longrightarrow> dec_fill_bsbuffer lib va va_end pa d s = Done (r, s') \<Longrightarrow> 0 \<le> r \<Longrightarrow>
      dec_step lib va va_end pa n rd wr (s, c) (s', c)"
| consume: "k \<le> ring_used n (rd (bs_handle s)) (wr (bs_handle s)) \<Longrightarrow>
      rd h' = (rd (bs_handle s) + k) mod n \<Longrightarrow> wr h' = wr (bs_handle s) \<Longrightarrow>
      dec_step lib va va_end pa n rd wr (s, c) (s\<lparr>bs_handle := h'\<rparr>, c @ ring_bytes (bs_mem s) (rd (bs_handle s)) k)"

definition ring_content :: "nat \<Rightarrow> ('h \<Rightarrow> nat) \<Rightarrow> ('h \<Rightarrow> nat) \<Rightarrow> 'h dec_bs \<Rightarrow> u8 list" where
  "ring_content n rd wr s =
     ring_bytes (bs_mem s) (rd (bs_handle s)) (ring_used n (rd (bs_handle s)) (wr (bs_handle s)))"

definition stream_inv :: "nat \<Rightarrow> ('h \<Rightarrow> nat) \<Rightarrow> ('h \<Rightarrow> nat) \<Rightarrow> u8 list \<Rightarrow> 'h dec_bs \<times> u8 list \<Rightarrow> bool" where
  "stream_inv n rd wr input x \<longleftrightarrow> (case x of (s, c) \<Rightarrow>
     length (bs_mem s) = n \<and> cl_src_scheme (bs_cmd s) \<noteq> PATH_NET \<and> prefix (c @ ring_content n rd wr s) input \<and>
     (bs_data s \<noteq> [] \<longrightarrow> c @ ring_content n rd wr s @ bs_data s = input))"

text \<open>A fill appends to the content what it commits, and nothing otherwise.\<close>

lemma filled_content:
  assumes laws: "dec_lib_laws lib pa n rd wr" and n: "n = length (bs_mem s)"
    and sz: "sz \<le> ring_room n (rd (bs_handle s)) (wr (bs_handle s))" and f: "filled n rd wr sz s s'"
  shows "ring_content n rd wr s' = ring_content n rd wr s @
     (if fill_lost n wr sz s then [] else take sz (bs_data s))"
proof -
  let ?r = "rd (bs_handle s)" and ?w = "wr (bs_handle s)" and ?got = "min sz (length (bs_data s))"
  let ?u = "ring_used n ?r ?w" and ?bs = "take ?got (bs_data s)"
  note get = dec_lib_get [OF laws, of "bs_handle s"]
  have u: "?u + ?got < n" using sz get ring_used_less [of n ?r ?w] by (auto simp: ring_room_def)
  have pos: "(?r + ?u) mod n = ?w" using get by (simp add: ring_used_pos)
  have mem: "bs_mem s' = ring_write (bs_mem s) (?r + ?u) ?bs"
    using f pos n get by (simp add: filled_def Let_def ring_write_cong_mod [of ?w _ "?r + ?u"])
  have r': "rd (bs_handle s') = ?r" using f by (simp add: filled_def Let_def)
  have all: "ring_bytes (bs_mem s') ?r (?u + ?got) = ring_bytes (bs_mem s) ?r ?u @ ?bs"
    unfolding mem using ring_bytes_write [of ?u ?bs "bs_mem s" ?r] u n by simp
  then have old: "ring_bytes (bs_mem s') ?r ?u = ring_bytes (bs_mem s) ?r ?u"
    by (metis append_eq_append_conv length_ring_bytes ring_bytes_add)
  show ?thesis
  proof (cases "?got = 0 \<or> fill_lost n wr sz s")
    case True
    then have "wr (bs_handle s') = ?w" using f by (auto simp: filled_def Let_def)
    then show ?thesis using True old r' by (auto simp: ring_content_def min_def split: if_splits)
  next
    case False
    then have "wr (bs_handle s') = (?w + ?got) mod n" using f by (auto simp: filled_def Let_def)
    then have "ring_used n ?r (wr (bs_handle s')) = ?u + ?got" using ring_used_add get u by simp
    then show ?thesis using False all r' by (simp add: ring_content_def min_def split: if_splits)
  qed
qed

lemma filled_data: "filled n rd wr sz s s' \<Longrightarrow> bs_data s' = drop sz (bs_data s) \<and> length (bs_mem s') = length (bs_mem s) \<and>
    bs_cmd s' = bs_cmd s \<and> set (bs_sched s') \<subseteq> set (bs_sched s)"
  by (auto simp: filled_def Let_def min_def)

lemma fill_lost_all: "fill_lost n wr sz s \<Longrightarrow> drop sz (bs_data s) = []"
  by (auto simp: fill_lost_def)

lemma fill_keeps_stream:
  assumes laws: "dec_lib_laws lib pa n rd wr" and geom: "bs_geom va va_end n" and d: "0 \<le> d" "d < 2 ^ 31"
    and run: "dec_fill_bsbuffer lib va va_end pa d s = Done (r, s')" "0 \<le> r" and inv: "stream_inv n rd wr input (s, c)"
  shows "stream_inv n rd wr input (s', c)"
proof -
  define sz where "sz = nat (fill_size (of_nat (ring_room n (rd (bs_handle s)) (wr (bs_handle s)))) d)"
  have n: "n = length (bs_mem s)" and src: "cl_src_scheme (bs_cmd s) \<noteq> PATH_NET" using inv by (auto simp: stream_inv_def)
  have le: "sz \<le> ring_room n (rd (bs_handle s)) (wr (bs_handle s))"
    using fill_size_room [OF geom dec_lib_get(4) [OF laws] d sz_def] by simp
  from dec_fill_file [OF laws geom n src d sz_def run(1) [symmetric]] run(2)
  consider "s' = s\<lparr>bs_eos := 0\<rparr>" | "filled n rd wr sz s s'" by auto
  then show ?thesis
  proof cases
    case 1
    then show ?thesis using inv by (simp add: stream_inv_def ring_content_def)
  next
    case 2
    note content = filled_content [OF laws n le 2] and dat = filled_data [OF 2]
    show ?thesis
    proof (cases "fill_lost n wr sz s")
      case True
      then show ?thesis using content dat fill_lost_all [OF True] inv by (simp add: stream_inv_def)
    next
      case False
      have "c @ ring_content n rd wr s' @ bs_data s' = c @ ring_content n rd wr s @ bs_data s"
        using False content dat by simp
      then show ?thesis using inv dat False content
        by (cases "bs_data s = []") (auto simp: stream_inv_def take_is_prefix)
    qed
  qed
qed

lemma consume_keeps_stream:
  assumes laws: "dec_lib_laws lib pa n rd wr" and k: "k \<le> ring_used n (rd (bs_handle s)) (wr (bs_handle s))"
    and h': "rd h' = (rd (bs_handle s) + k) mod n" "wr h' = wr (bs_handle s)" and inv: "stream_inv n rd wr input (s, c)"
  shows "stream_inv n rd wr input (s\<lparr>bs_handle := h'\<rparr>, c @ ring_bytes (bs_mem s) (rd (bs_handle s)) k)"
proof -
  let ?r = "rd (bs_handle s)" and ?u = "ring_used n (rd (bs_handle s)) (wr (bs_handle s))"
  note get = dec_lib_get [OF laws, of "bs_handle s"]
  have n: "length (bs_mem s) = n" using inv by (simp add: stream_inv_def)
  have "ring_content n rd wr (s\<lparr>bs_handle := h'\<rparr>) = ring_bytes (bs_mem s) ((?r + k) mod length (bs_mem s)) (?u - k)"
    using ring_used_consume [OF get(2,3) k] h' n by (simp add: ring_content_def)
  then have "ring_bytes (bs_mem s) ?r k @ ring_content n rd wr (s\<lparr>bs_handle := h'\<rparr>) = ring_content n rd wr s"
    using ring_bytes_add [of "bs_mem s" ?r k "?u - k"] k by (simp add: ring_content_def)
  then show ?thesis using inv by (auto simp: stream_inv_def)
qed

inductive_cases dec_stepE: "dec_step lib va va_end pa n rd wr (s, c) x"

lemma dec_steps_inv:
  assumes "dec_lib_laws lib pa n rd wr" and "bs_geom va va_end n"
  shows "(dec_step lib va va_end pa n rd wr)\<^sup>*\<^sup>* x y \<Longrightarrow> stream_inv n rd wr input x \<Longrightarrow> stream_inv n rd wr input y"
proof (induction rule: rtranclp_induct)
  case (step y z)
  obtain s c where y: "y = (s, c)" by (cases y)
  from step.hyps(2) show ?case unfolding y
    by (rule dec_stepE) (use step.IH [OF step.prems] y in
      \<open>auto intro: fill_keeps_stream [OF assms] consume_keeps_stream [OF assms(1)]\<close>)
qed

text \<open>
  A schedule for progress: after each fill the decoder takes all there is (\<open>drain\<close> is the handle it
  leaves).
\<close>

fun dec_rounds ::
    "('h dec_bs \<Rightarrow> (int \<times> 'h dec_bs) run) \<Rightarrow> nat \<Rightarrow> ('h \<Rightarrow> nat) \<Rightarrow> ('h \<Rightarrow> nat) \<Rightarrow> ('h \<Rightarrow> 'h) \<Rightarrow> nat \<Rightarrow>
     'h dec_bs \<times> u8 list \<Rightarrow> ('h dec_bs \<times> u8 list) run" where
  "dec_rounds fill n rd wr drain 0 x = Done x"
| "dec_rounds fill n rd wr drain (Suc k) (s, c) =
     run_bind (fill s) (\<lambda>(r, s').
       dec_rounds fill n rd wr drain k (s'\<lparr>bs_handle := drain (bs_handle s')\<rparr>, c @ ring_content n rd wr s'))"

definition at_end :: "'h dec_bs \<Rightarrow> bool" where
  "at_end s \<longleftrightarrow> bs_data s = [] \<and> bs_eos s = 1 \<and> bs_fill_end s \<noteq> 0"

definition drained :: "nat \<Rightarrow> ('h \<Rightarrow> nat) \<Rightarrow> ('h \<Rightarrow> nat) \<Rightarrow> 'h dec_bs \<Rightarrow> bool" where
  "drained n rd wr s \<longleftrightarrow> length (bs_mem s) = n \<and> cl_src_scheme (bs_cmd s) \<noteq> PATH_NET \<and>
     None \<notin> set (bs_sched s) \<and> rd (bs_handle s) = wr (bs_handle s)"

text \<open>One round from a drained ring.\<close>

lemma fill_drained:
  assumes laws: "dec_lib_laws lib pa n rd wr" and geom: "bs_geom va va_end n"
    and d: "0 \<le> d" "d < int n" "d = 0 \<longrightarrow> 512 < n" and s: "drained n rd wr s"
    and drain: "\<forall>h. rd (drain h) = wr h \<and> wr (drain h) = wr h"
  obtains r s' sz where "dec_fill_bsbuffer lib va va_end pa d s = Done (r, s')" "0 < sz"
    "drained n rd wr (s'\<lparr>bs_handle := drain (bs_handle s')\<rparr>)" "bs_data s' = drop sz (bs_data s)"
    "ring_content n rd wr s' = (if fill_lost n wr sz s then [] else take sz (bs_data s))"
    "bs_data s = [] \<or> fill_lost n wr sz s \<longrightarrow> at_end s'"
    "\<not> fill_lost n wr sz s \<longrightarrow> wr (bs_handle s') = (wr (bs_handle s) + min sz (length (bs_data s))) mod n"
proof -
  let ?h = "bs_handle s"
  define sz where "sz = nat (fill_size (of_nat (ring_room n (rd ?h) (wr ?h))) d)"
  note get = dec_lib_get [OF laws, of ?h]
  have n: "n = length (bs_mem s)" and src: "cl_src_scheme (bs_cmd s) \<noteq> PATH_NET" using s by (auto simp: drained_def)
  have room: "ring_room n (rd ?h) (wr ?h) = n - 1" using s get by (simp add: drained_def ring_room_def ring_used_same)
  have d31: "d < 2 ^ 31" and n31: "n - 1 < 2 ^ 31" using d geom by (auto simp: bs_geom_def)
  have le: "sz \<le> ring_room n (rd ?h) (wr ?h)" using fill_size_room [OF geom get(4) d(1) d31 sz_def] by simp
  have pos: "0 < sz" unfolding sz_def room using fill_size_bounds [OF n31 d(1) d31] d get by (auto simp: div_greater_zero_iff)
  from dec_fill_file [OF laws geom n src d(1) d31 sz_def refl] pos s obtain s' where
    run: "dec_fill_bsbuffer lib va va_end pa d s = Done (int (min sz (length (bs_data s))), s')"
    and f: "filled n rd wr sz s s'" by (auto simp: drained_def)
  note dat = filled_data [OF f] and content = filled_content [OF laws n le f]
  have "ring_content n rd wr s = []" using s get by (simp add: ring_content_def drained_def ring_used_same)
  moreover have "drained n rd wr (s'\<lparr>bs_handle := drain (bs_handle s')\<rparr>)" using s dat drain by (auto simp: drained_def)
  moreover have "bs_data s = [] \<or> fill_lost n wr sz s \<longrightarrow> at_end s'"
    using f fill_lost_all [of n wr sz s] by (auto simp: at_end_def filled_def Let_def)
  moreover have "\<not> fill_lost n wr sz s \<longrightarrow> wr (bs_handle s') = (wr ?h + min sz (length (bs_data s))) mod n"
    using f get(3) by (auto simp: filled_def Let_def split: if_splits)
  ultimately show thesis using that [OF run pos] dat content by simp
qed

lemma dec_rounds_deliver:
  fixes rd wr :: "'h \<Rightarrow> nat"
  assumes laws: "dec_lib_laws lib pa n rd wr" and geom: "bs_geom va va_end n"
    and d: "0 \<le> d" "d < int n" "d = 0 \<longrightarrow> 512 < n" and drain: "\<forall>h. rd (drain h) = wr h \<and> wr (drain h) = wr h"
  shows "drained n rd wr s \<Longrightarrow> length (bs_data s) < k \<Longrightarrow>
    \<exists>s' c'. dec_rounds (dec_fill_bsbuffer lib va va_end pa d) n rd wr drain k (s, c) = Done (s', c @ c') \<and>
      at_end s' \<and> prefix c' (bs_data s) \<and>
      ((wr (bs_handle s) + length (bs_data s)) mod n \<noteq> 0 \<longrightarrow> c' = bs_data s)"
proof (induction k arbitrary: s c)
  case (Suc k)
  let ?data = "bs_data s" and ?w = "wr (bs_handle s)"
  obtain r s1 sz where fill: "dec_fill_bsbuffer lib va va_end pa d s = Done (r, s1)" "0 < sz"
    "drained n rd wr (s1\<lparr>bs_handle := drain (bs_handle s1)\<rparr>)" "bs_data s1 = drop sz ?data"
    "ring_content n rd wr s1 = (if fill_lost n wr sz s then [] else take sz ?data)"
    "?data = [] \<or> fill_lost n wr sz s \<longrightarrow> at_end s1"
    "\<not> fill_lost n wr sz s \<longrightarrow> wr (bs_handle s1) = (?w + min sz (length ?data)) mod n"
    by (rule fill_drained [OF laws geom d Suc.prems(1) drain])
  let ?s2 = "s1\<lparr>bs_handle := drain (bs_handle s1)\<rparr>" and ?c1 = "ring_content n rd wr s1"
  show ?case
  proof (cases "k = 0")
    case True
    then have "?data = []" using Suc.prems by simp
    then show ?thesis using True fill(1,4,5,6) by (auto simp: at_end_def)
  next
    case False
    then have "length (bs_data ?s2) < k" using Suc.prems fill(2,4) by (cases ?data) auto
    from Suc.IH [OF fill(3) this, of "c @ ?c1"] obtain s' c' where
      rec: "dec_rounds (dec_fill_bsbuffer lib va va_end pa d) n rd wr drain k (?s2, c @ ?c1) = Done (s', (c @ ?c1) @ c')"
      "at_end s'" "prefix c' (drop sz ?data)"
      "(wr (bs_handle ?s2) + length (drop sz ?data)) mod n \<noteq> 0 \<longrightarrow> c' = drop sz ?data" using fill(4) by auto
    show ?thesis
    proof (cases "fill_lost n wr sz s")
      case True
      then have "drop sz ?data = []" "(?w + length ?data) mod n = 0"
        using fill_lost_all [OF True] dec_lib_get(3) [OF laws, of "bs_handle s"] by (auto simp: fill_lost_def)
      then show ?thesis using True fill(1,5) rec by auto
    next
      case False
      then have "(wr (bs_handle ?s2) + length (drop sz ?data)) mod n = (?w + length ?data) mod n"
        using fill(7) drain by (simp add: mod_add_left_eq min_def)
      moreover have "prefix (take sz ?data @ c') ?data"
        using rec(3) by (metis append_take_drop_id same_prefix_prefix)
      ultimately show ?thesis using False fill(1,5) rec by auto
    qed
  qed
qed simp

section \<open>A library for examples\<close>

definition ring_lib :: "u32 \<Rightarrow> nat \<Rightarrow> (nat \<times> nat) dec_lib" where
  "ring_lib pa n = \<lparr>dl_get = (\<lambda>(r, w). (True, pa + of_nat (r mod n), pa + of_nat (w mod n), of_nat (ring_room n (r mod n) (w mod n)))),
     dl_update = (\<lambda>(r, w) k. (True, (r, (w + unat k) mod n))), dl_stream_end = 0\<rparr>"

abbreviation lib_rd :: "nat \<Rightarrow> nat \<times> nat \<Rightarrow> nat" where "lib_rd n h \<equiv> fst h mod n"
abbreviation lib_wr :: "nat \<Rightarrow> nat \<times> nat \<Rightarrow> nat" where "lib_wr n h \<equiv> snd h mod n"

lemma ring_lib_laws:
  assumes "0 < n" and "n < 2 ^ 31"
  shows "dec_lib_laws (ring_lib pa n) pa n (lib_rd n) (lib_wr n)"
proof -
  have "unat (of_nat k :: u32) = k" if "k \<le> ring_room n r w" for k r w
    using that assms by (simp add: ring_room_def unat_of_nat take_bit_nat_eq_self)
  then show ?thesis using assms by (auto simp: dec_lib_laws_def ring_lib_def mod_add_left_eq)
qed

definition demo_world :: "u8 list \<Rightarrow> vpu_world" where
  "demo_world data = \<lparr>vw_src = \<lparr>rf_data = data, rf_sched = []\<rparr>, vw_dst = \<lparr>wf_data = [], wf_sched = []\<rparr>,
     vw_net = [], vw_sent = [], vw_send_ok = [], vw_junk = 0\<rparr>"

definition demo_dec :: "nat \<times> nat \<Rightarrow> u8 list \<Rightarrow> u8 list \<Rightarrow> (nat \<times> nat) dec_bs" where
  "demo_dec h mem data = \<lparr>bs_handle = h, bs_mem = mem, bs_cmd = cmd_zero, bs_world = demo_world data, bs_eos = 0, bs_fill_end = 0\<rparr>"

definition demo_ring :: "(nat \<times> nat) dec_lib" where
  "demo_ring = ring_lib 0x1000 8"

lemma demo_ring_laws: "dec_lib_laws demo_ring 0x1000 8 (lib_rd 8) (lib_wr 8)"
  unfolding demo_ring_def by (rule ring_lib_laws) simp_all

lemma demo_geom: "bs_geom 0x2000 0x2008 8"
  by (simp add: bs_geom_def)

lemma demo_fill:
  "dec_fill_bsbuffer demo_ring 0x2000 0x2008 0x1000 5 (demo_dec (6, 6) [0, 0, 0, 0, 0, 0, 0, 0] [1, 2, 3, 4, 5, 6, 7]) =
     Done (5, demo_dec (6, 3) [3, 4, 5, 0, 0, 0, 1, 2] [6, 7])"
  by (simp add: dec_fill_bsbuffer_def demo_dec_def demo_ring_def ring_lib_def Let_def fill_size_def bs_read_def vpu_read_def
    freadn_def freadn_loop.simps sys_read_def demo_world_def ring_room_def ring_used_def check_read_def dec_update_def c_store_def
    cmd_zero_def path_defs)

section \<open>Properties\<close>

text \<open>
  C20: The decoder receives the input file in order. Whatever the sizes of the fills and however they
  interleave with the decoder's reads, the bytes taken so far and those in the ring are a prefix of the
  file; while the file is not at its end, bytes taken, ring and rest of the file together are exactly the file:
  nothing is lost, repeated or overwritten before it is read.
\<close>

theorem dec_stream_in_order:
  assumes "dec_lib_laws lib pa n rd wr" and "bs_geom va va_end n" and "length (bs_mem s0) = n"
    and "cl_src_scheme (bs_cmd s0) \<noteq> PATH_NET" and "rd (bs_handle s0) = wr (bs_handle s0)"
    and "(dec_step lib va va_end pa n rd wr)\<^sup>*\<^sup>* (s0, []) (s, c)"
  shows "prefix (c @ ring_content n rd wr s) (bs_data s0) \<and>
    (bs_data s \<noteq> [] \<longrightarrow> c @ ring_content n rd wr s @ bs_data s = bs_data s0)"
proof -
  have "ring_content n rd wr s0 = []"
    using assms(5) dec_lib_get [OF assms(1), of "bs_handle s0"] by (simp add: ring_content_def ring_used_same)
  then have "stream_inv n rd wr (bs_data s0) (s0, [])" using assms(3,4) by (simp add: stream_inv_def)
  from dec_steps_inv [OF assms(1,2,6) this] show ?thesis by (simp add: stream_inv_def)
qed

theorem dec_stream_in_order_witness:
  "(dec_step demo_ring 0x2000 0x2008 0x1000 8 (lib_rd 8) (lib_wr 8))\<^sup>*\<^sup>*
     (demo_dec (6, 6) [0, 0, 0, 0, 0, 0, 0, 0] [1, 2, 3, 4, 5, 6, 7], []) (demo_dec (1, 3) [3, 4, 5, 0, 0, 0, 1, 2] [6, 7], [1, 2, 3]) \<and>
   [1, 2, 3] @ ring_content 8 (lib_rd 8) (lib_wr 8) (demo_dec (1, 3) [3, 4, 5, 0, 0, 0, 1, 2] [6, 7]) @ [6, 7] = [1, 2, 3, 4, 5, 6, 7]"
proof -
  let ?step = "dec_step demo_ring 0x2000 0x2008 0x1000 8 (lib_rd 8) (lib_wr 8)"
  let ?s0 = "demo_dec (6, 6) [0, 0, 0, 0, 0, 0, 0, 0] [1, 2, 3, 4, 5, 6, 7]"
  let ?s1 = "demo_dec (6, 3) [3, 4, 5, 0, 0, 0, 1, 2] [6, 7]" and ?s2 = "demo_dec (1, 3) [3, 4, 5, 0, 0, 0, 1, 2] [6, 7]"
  have "?step (?s0, []) (?s1, [])" using dec_step.fill [OF _ _ demo_fill] by simp
  moreover have "?step (?s1, []) (?s2, [1, 2, 3])"
    using dec_step.consume [where k = 3 and n = 8 and rd = "lib_rd 8" and s = ?s1 and wr = "lib_wr 8" and h' = "(1, 3)" and c = "[]"]
    by (simp add: demo_dec_def ring_used_def ring_bytes_def upt_rec)
  ultimately have steps: "?step\<^sup>*\<^sup>* (?s0, []) (?s2, [1, 2, 3])" by simp
  show ?thesis using dec_stream_in_order [OF demo_ring_laws demo_geom _ _ _ steps] steps
    by (simp add: demo_dec_def demo_world_def cmd_zero_def path_defs)
qed

text \<open>
  C24: Every file reaches the decoder, and its end is signalled. When no \<open>read\<close> fails and the decoder keeps
  emptying the ring, after more rounds than the file has bytes the end of the stream has been
  signalled, and the decoder has received the whole file if the file does not end at the end of the ring.
\<close>

theorem dec_all_delivered:
  fixes rd wr :: "'h \<Rightarrow> nat"
  assumes "dec_lib_laws lib pa n rd wr" and "bs_geom va va_end n"
    and "0 \<le> d" and "d < int n" and "d = 0 \<longrightarrow> 512 < n" and "\<forall>h. rd (drain h) = wr h \<and> wr (drain h) = wr h"
    and "drained n rd wr s" and "length (bs_data s) < k"
  shows "\<exists>s' c. dec_rounds (dec_fill_bsbuffer lib va va_end pa d) n rd wr drain k (s, []) = Done (s', c) \<and>
      at_end s' \<and> prefix c (bs_data s) \<and>
      ((wr (bs_handle s) + length (bs_data s)) mod n \<noteq> 0 \<longrightarrow> c = bs_data s)"
  using dec_rounds_deliver [OF assms(1-6) assms(7,8), of "[]"] by simp

theorem dec_all_delivered_witness:
  "\<exists>s'. dec_rounds (dec_fill_bsbuffer demo_ring 0x2000 0x2008 0x1000 5) 8 (lib_rd 8) (lib_wr 8) (\<lambda>h. (snd h, snd h)) 8
     (demo_dec (6, 6) [0, 0, 0, 0, 0, 0, 0, 0] [1, 2, 3, 4, 5, 6, 7], []) = Done (s', [1, 2, 3, 4, 5, 6, 7]) \<and> at_end s'"
  using dec_all_delivered [OF demo_ring_laws demo_geom, of 5 "\<lambda>h. (snd h, snd h)"
      "demo_dec (6, 6) [0, 0, 0, 0, 0, 0, 0, 0] [1, 2, 3, 4, 5, 6, 7]" 8]
  by (simp add: drained_def demo_dec_def demo_world_def cmd_zero_def path_defs)

text \<open>
  C25: The end of a file that ends at the end of the ring is lost. When a request has to be split and the file
  has just the bytes in front of the wrap left, the first read gets them all and the second finds the end: the
  function returns their number, but signals the end of the stream without handing them over, and no later step brings
  them to the decoder.
\<close>

theorem dec_fill_loses_tail:
  fixes rd wr :: "'h \<Rightarrow> nat"
  assumes "dec_lib_laws lib pa n rd wr" and "bs_geom va va_end n" and "length (bs_mem s) = n"
    and "cl_src_scheme (bs_cmd s) \<noteq> PATH_NET" and "None \<notin> set (bs_sched s)" and "0 \<le> d" and "d < 2 ^ 31"
    and "fill_lost n wr (nat (fill_size (of_nat (ring_room n (rd (bs_handle s)) (wr (bs_handle s)))) d)) s"
  shows "\<exists>s'. dec_fill_bsbuffer lib va va_end pa d s = Done (int (length (bs_data s)), s') \<and> bs_data s \<noteq> [] \<and>
    bs_data s' = [] \<and> bs_eos s' = 1 \<and>
    (\<forall>c t c'. (dec_step lib va va_end pa n rd wr)\<^sup>*\<^sup>* (s', c) (t, c') \<longrightarrow> prefix c' (c @ ring_content n rd wr s))"
proof -
  let ?h = "bs_handle s"
  define sz where "sz = nat (fill_size (of_nat (ring_room n (rd ?h) (wr ?h))) d)"
  note get = dec_lib_get [OF assms(1), of ?h]
  have lost: "fill_lost n wr sz s" using assms(8) by (simp add: sz_def)
  then have pos: "bs_data s \<noteq> []" "length (bs_data s) < sz" "0 < sz" using get(3) by (auto simp: fill_lost_def)
  have le: "sz \<le> ring_room n (rd ?h) (wr ?h)" using fill_size_room [OF assms(2) get(4) assms(6,7) sz_def] by simp
  from dec_fill_file [OF assms(1,2) assms(3) [symmetric] assms(4,6,7) sz_def refl] pos assms(5) obtain s' where
    run: "dec_fill_bsbuffer lib va va_end pa d s = Done (int (length (bs_data s)), s')" and f: "filled n rd wr sz s s'" by auto
  have content: "ring_content n rd wr s' = ring_content n rd wr s"
    using filled_content [OF assms(1) assms(3) [symmetric] le f] lost by simp
  note dat = filled_data [OF f] fill_lost_all [OF lost]
  have inv: "stream_inv n rd wr (c @ ring_content n rd wr s) (s', c)" for c
    using dat content assms(3,4) by (simp add: stream_inv_def)
  have "prefix c' (c @ ring_content n rd wr s)"
    if "(dec_step lib va va_end pa n rd wr)\<^sup>*\<^sup>* (s', c) (t, c')" for c t c'
  proof -
    from dec_steps_inv [OF assms(1,2) that inv] have "prefix (c' @ ring_content n rd wr t) (c @ ring_content n rd wr s)"
      by (simp add: stream_inv_def)
    then show ?thesis by (rule append_prefixD)
  qed
  moreover have "bs_eos s' = 1" using f lost by (simp add: filled_def Let_def)
  ultimately show ?thesis using run dat pos(1) by simp
qed

theorem dec_fill_loses_tail_witness:
  "\<exists>s'. dec_fill_bsbuffer demo_ring 0x2000 0x2008 0x1000 5 (demo_dec (6, 6) [0, 0, 0, 0, 0, 0, 0, 0] [1, 2]) = Done (2, s') \<and>
    (\<forall>t c'. (dec_step demo_ring 0x2000 0x2008 0x1000 8 (lib_rd 8) (lib_wr 8))\<^sup>*\<^sup>* (s', []) (t, c') \<longrightarrow> c' = [])"
proof -
  let ?s = "demo_dec (6, 6) [0, 0, 0, 0, 0, 0, 0, 0] [1, 2]"
  have "fill_lost 8 (lib_wr 8) (nat (fill_size (of_nat (ring_room 8 (lib_rd 8 (bs_handle ?s)) (lib_wr 8 (bs_handle ?s)))) 5)) ?s"
    by (simp add: fill_lost_def fill_size_def ring_room_def ring_used_def demo_dec_def demo_world_def)
  moreover have "ring_content 8 (lib_rd 8) (lib_wr 8) ?s = []" by (simp add: ring_content_def ring_used_def demo_dec_def)
  ultimately show ?thesis using dec_fill_loses_tail [OF demo_ring_laws demo_geom, of ?s 5]
    by (fastforce simp: demo_dec_def demo_world_def cmd_zero_def path_defs)
qed

end
