(* ===== verification/Enc_Bitstream.thy ===== *)
theory Enc_Bitstream
  imports Dec_Bitstream
begin

unbundle bit_operations_syntax

text \<open>
  The bitstream ring buffer of the encoder, which \<open>enc_readbs_ring_buffer\<close> of
  \<^verbatim>\<open>src/test/mxc_vpu_test/enc.c\<close> empties into the output, as a queue between the encoder and the output file.
\<close>

section \<open>Emptying the encoder's ring\<close>

text \<open>
  \<open>el_get\<close> is \<open>vpu_EncGetBitstreamBuffer\<close>, whose last result is the number of bytes to read, and
  \<open>el_update\<close> is \<open>vpu_EncUpdateBitstreamBuffer\<close>. The results of \<open>vpu_write\<close> are not looked at.
\<close>

record 'h enc_lib =
  el_get :: "'h \<Rightarrow> bool \<times> u32 \<times> u32 \<times> u32"
  el_update :: "'h \<Rightarrow> u32 \<Rightarrow> bool \<times> 'h"

record 'h enc_bs =
  eb_handle :: 'h
  eb_mem :: "u8 list"
  eb_cmd :: cmd_line
  eb_world :: vpu_world

text \<open>\<open>vpu_write\<close> of \<open>n\<close> bytes at a virtual address in the ring.\<close>

definition bs_write :: "u32 \<Rightarrow> u32 \<Rightarrow> int \<Rightarrow> 'h enc_bs \<Rightarrow> 'h enc_bs run" where
  "bs_write bs_va_startaddr addr n e =
     (let off = uint addr - uint bs_va_startaddr
      in if off < 0 then Undef
         else run_bind (vpu_write (eb_world e) (eb_cmd e) (drop (nat off) (eb_mem e)) n) (\<lambda>(r, cmd, w).
                Done (e\<lparr>eb_cmd := cmd, eb_world := w\<rparr>)))"

definition enc_update :: "'h enc_lib \<Rightarrow> int \<Rightarrow> 'h enc_bs \<Rightarrow> int \<times> 'h enc_bs" where
  "enc_update lib space e =
     (let (ok, h) = el_update lib (eb_handle e) (word_of_int space)
      in (if ok then space else -1, e\<lparr>eb_handle := h\<rparr>))"

definition enc_readbs_ring_buffer ::
    "'h enc_lib \<Rightarrow> u32 \<Rightarrow> u32 \<Rightarrow> u32 \<Rightarrow> int \<Rightarrow> 'h enc_bs \<Rightarrow> (int \<times> 'h enc_bs) run" where
  "enc_readbs_ring_buffer lib bs_va_startaddr bs_va_endaddr bs_pa_startaddr defaultsize e =
     (let (ok, pa_read_ptr, pa_write_ptr, size) = el_get lib (eb_handle e)
      in if \<not> ok then Done (-1, e)
         else if size \<le> 0 then Done (0, e)
         else if defaultsize > 0 \<and> size < word_of_int defaultsize then Done (0, e)
         else
           (let space = (if defaultsize > 0 then defaultsize else s32 size)
            in if space > 0 then
                 (let target_addr = bs_va_startaddr + (pa_read_ptr - bs_pa_startaddr)
                  in run_bind
                       (if target_addr + word_of_int space > bs_va_endaddr then
                          (let room = s32 (bs_va_endaddr - target_addr)
                           in run_bind (bs_write bs_va_startaddr target_addr room e)
                                (bs_write bs_va_startaddr bs_va_startaddr (space - room)))
                        else bs_write bs_va_startaddr target_addr space e)
                       (\<lambda>e'. Done (enc_update lib space e')))
               else Done (space, e)))"

section \<open>The encoder's ring as a queue\<close>

definition enc_lib_laws :: "'h enc_lib \<Rightarrow> u32 \<Rightarrow> nat \<Rightarrow> ('h \<Rightarrow> nat) \<Rightarrow> ('h \<Rightarrow> nat) \<Rightarrow> bool" where
  "enc_lib_laws lib pa n rd wr \<longleftrightarrow> (\<forall>h. rd h < n \<and> wr h < n \<and>
     el_get lib h = (True, pa + of_nat (rd h), pa + of_nat (wr h), of_nat (ring_used n (rd h) (wr h))) \<and>
     (\<forall>k. 0 < k \<longrightarrow> k \<le> ring_used n (rd h) (wr h) \<longrightarrow>
        fst (el_update lib h (of_nat k)) \<and> rd (snd (el_update lib h (of_nat k))) = (rd h + k) mod n \<and>
        wr (snd (el_update lib h (of_nat k))) = wr h))"

abbreviation eb_dst :: "'h enc_bs \<Rightarrow> wfile" where "eb_dst e \<equiv> vw_dst (eb_world e)"

lemma bs_write_file:
  assumes geom: "bs_geom va va_end (length (eb_mem e))" and off: "off < length (eb_mem e)" "off + k \<le> length (eb_mem e)"
    and dst: "cl_dst_scheme (eb_cmd e) \<noteq> PATH_NET" "writes_succeed (eb_dst e)"
  obtains f where "bs_write va (va + of_nat off) (int k) e = Done (e\<lparr>eb_world := (eb_world e)\<lparr>vw_dst := f\<rparr>\<rparr>)"
    "wf_data f = wf_data (eb_dst e) @ take k (drop off (eb_mem e))" "writes_succeed f"
proof -
  have "unat (va + of_nat off) = unat va + off" using geom off by (intro unat_bs_addr) (simp add: bs_geom_def)
  then have addr: "uint (va + of_nat off) - uint va = int off" unfolding uint_nat by simp
  have len: "int k \<le> int (length (drop off (eb_mem e)))" using off by simp
  obtain f where run: "fwriten (eb_dst e) (drop off (eb_mem e)) (int k) = Done (int k, f)"
    and f: "wf_data f = wf_data (eb_dst e) @ take k (drop off (eb_mem e))" "writes_succeed f"
    by (rule fwriten_succeeds [OF dst(2), of "int k" "drop off (eb_mem e)"]) (use len in simp_all)
  moreover have "bs_write va (va + of_nat off) (int k) e = Done (e\<lparr>eb_world := (eb_world e)\<lparr>vw_dst := f\<rparr>\<rparr>)"
    using run dst(1) by (simp add: bs_write_def addr vpu_write_def)
  ultimately show thesis using that by blast
qed

text \<open>The one or two writes of a read-out.\<close>

lemma enc_writes_file:
  assumes geom: "bs_geom va va_end n" and n: "n = length (eb_mem e)" and r: "r < n" and k: "k < n"
    and dst: "cl_dst_scheme (eb_cmd e) \<noteq> PATH_NET" "writes_succeed (eb_dst e)"
  obtains f where "(if va_end < va + of_nat r + of_nat k
      then let room = s32 (va_end - (va + of_nat r))
           in run_bind (bs_write va (va + of_nat r) room e) (bs_write va va (int k - room))
      else bs_write va (va + of_nat r) (int k) e) = Done (e\<lparr>eb_world := (eb_world e)\<lparr>vw_dst := f\<rparr>\<rparr>)"
    "wf_data f = wf_data (eb_dst e) @ ring_bytes (eb_mem e) r k" "writes_succeed f"
proof (cases "n < r + k")
  case True
  let ?room = "n - r"
  have rm: "s32 (va_end - (va + of_nat r)) = int ?room" by (rule bs_geom_room [OF geom r]) (use True k in simp)
  obtain f where f: "bs_write va (va + of_nat r) (int ?room) e = Done (e\<lparr>eb_world := (eb_world e)\<lparr>vw_dst := f\<rparr>\<rparr>)"
    "wf_data f = wf_data (eb_dst e) @ drop r (eb_mem e)" "writes_succeed f"
    by (rule bs_write_file [of va va_end e r ?room]) (use geom n r dst in simp_all)
  let ?e1 = "e\<lparr>eb_world := (eb_world e)\<lparr>vw_dst := f\<rparr>\<rparr>"
  obtain g where g: "bs_write va (va + of_nat 0) (int (k - ?room)) ?e1 = Done (?e1\<lparr>eb_world := (eb_world ?e1)\<lparr>vw_dst := g\<rparr>\<rparr>)"
    "wf_data g = wf_data (eb_dst ?e1) @ take (k - ?room) (drop 0 (eb_mem ?e1))" "writes_succeed g"
    by (rule bs_write_file [of va va_end ?e1 0 "k - ?room"]) (use geom n r k dst f(3) in auto)
  have "ring_bytes (eb_mem e) r k = drop r (eb_mem e) @ take (k - ?room) (eb_mem e)"
    using ring_bytes_split [of r "eb_mem e" k] True r k n by simp
  then show thesis using f g True r
    by (intro that [of g]) (simp_all add: bs_geom_compare [OF geom r k] rm of_nat_diff diff_diff_eq2)
next
  case False
  obtain f where "bs_write va (va + of_nat r) (int k) e = Done (e\<lparr>eb_world := (eb_world e)\<lparr>vw_dst := f\<rparr>\<rparr>)"
    "wf_data f = wf_data (eb_dst e) @ take k (drop r (eb_mem e))" "writes_succeed f"
    by (rule bs_write_file [of va va_end e r k]) (use geom n r dst False in simp_all)
  then show thesis using False n
    by (intro that [of f]) (simp_all add: bs_geom_compare [OF geom r k] ring_bytes_linear)
qed

definition read_size :: "nat \<Rightarrow> int \<Rightarrow> nat" where
  "read_size used d = (if d = 0 then used else if int used < d then 0 else nat d)"

lemma enc_read_file:
  assumes laws: "enc_lib_laws lib pa n rd wr" and geom: "bs_geom va va_end n" and n: "n = length (eb_mem e)"
    and dst: "cl_dst_scheme (eb_cmd e) \<noteq> PATH_NET" "writes_succeed (eb_dst e)" and d: "0 \<le> d" "d < 2 ^ 31"
    and k: "k = read_size (ring_used n (rd (eb_handle e)) (wr (eb_handle e))) d"
  obtains h' f where "enc_readbs_ring_buffer lib va va_end pa d e =
      Done (int k, e\<lparr>eb_handle := h', eb_world := (eb_world e)\<lparr>vw_dst := f\<rparr>\<rparr>)"
    "wf_data f = wf_data (eb_dst e) @ ring_bytes (eb_mem e) (rd (eb_handle e)) k" "writes_succeed f"
    "rd h' = (rd (eb_handle e) + k) mod n" "wr h' = wr (eb_handle e)"
proof -
  let ?h = "eb_handle e"
  let ?u = "ring_used n (rd ?h) (wr ?h)"
  have get: "el_get lib ?h = (True, pa + of_nat (rd ?h), pa + of_nat (wr ?h), of_nat ?u)" and r: "rd ?h < n"
    using laws by (auto simp: enc_lib_laws_def)
  have u: "?u < n" using r by (intro ring_used_less) simp
  then have u31: "?u < 2 ^ 31" by (rule bs_geom_less [OF geom])
  have kn: "k \<le> ?u" "k < n" using u by (auto simp: k read_size_def)
  have u0: "(of_nat ?u :: u32) = 0 \<longleftrightarrow> ?u = 0" using u31 by (simp add: word_unat_eq_iff unat_of_nat take_bit_nat_eq_self)
  have cmp: "(of_nat ?u :: u32) < word_of_int d \<longleftrightarrow> int ?u < d"
    using d u31 by (simp add: word_less_def uint_word_of_int unsigned_of_nat take_bit_nat_eq_self take_bit_int_eq_self)
  show thesis
  proof (cases "k = 0")
    case True
    then have "enc_readbs_ring_buffer lib va va_end pa d e = Done (0, e)"
      using get u0 cmp d k by (auto simp: enc_readbs_ring_buffer_def read_size_def split: if_splits)
    then show thesis using True r dst that [where h' = ?h and f = "eb_dst e"] by simp
  next
    case False
    then have size: "\<not> (of_nat ?u :: u32) \<le> 0" "\<not> (0 < d \<and> (of_nat ?u :: u32) < word_of_int d)"
      "(if 0 < d then d else s32 (of_nat ?u)) = int k"
      using u0 cmp d k s32_of_nat [OF u31] by (auto simp: read_size_def split: if_splits)
    have tgt: "va + (pa + of_nat (rd ?h) - pa) = va + of_nat (rd ?h)" "word_of_int (int k) = (of_nat k :: u32)" by simp_all
    obtain f where f: "(if va_end < va + of_nat (rd ?h) + of_nat k
        then let room = s32 (va_end - (va + of_nat (rd ?h)))
             in run_bind (bs_write va (va + of_nat (rd ?h)) room e) (bs_write va va (int k - room))
        else bs_write va (va + of_nat (rd ?h)) (int k) e) = Done (e\<lparr>eb_world := (eb_world e)\<lparr>vw_dst := f\<rparr>\<rparr>)"
      "wf_data f = wf_data (eb_dst e) @ ring_bytes (eb_mem e) (rd ?h) k" "writes_succeed f"
      by (rule enc_writes_file [OF geom n r kn(2) dst])
    let ?up = "el_update lib ?h (of_nat k)"
    have up: "fst ?up" "rd (snd ?up) = (rd ?h + k) mod n" "wr (snd ?up) = wr ?h"
      using laws kn False by (auto simp: enc_lib_laws_def)
    have "enc_readbs_ring_buffer lib va va_end pa d e =
        Done (int k, e\<lparr>eb_handle := snd ?up, eb_world := (eb_world e)\<lparr>vw_dst := f\<rparr>\<rparr>)"
      unfolding enc_readbs_ring_buffer_def get prod.case Let_def size(3) tgt f(1) [unfolded Let_def]
      using size False up by (simp add: enc_update_def case_prod_beta)
    then show thesis using f up that by blast
  qed
qed

text \<open>
  The encoder puts bytes behind its write pointer as long as they fit, the program reads out. The
  second component collects what was produced.
\<close>

inductive enc_step ::
    "'h enc_lib \<Rightarrow> u32 \<Rightarrow> u32 \<Rightarrow> u32 \<Rightarrow> nat \<Rightarrow> ('h \<Rightarrow> nat) \<Rightarrow> ('h \<Rightarrow> nat) \<Rightarrow>
     'h enc_bs \<times> u8 list \<Rightarrow> 'h enc_bs \<times> u8 list \<Rightarrow> bool"
  for lib va va_end pa n rd wr where
  produce: "length bs \<le> ring_room n (rd (eb_handle e)) (wr (eb_handle e)) \<Longrightarrow>
      rd h' = rd (eb_handle e) \<Longrightarrow> wr h' = (wr (eb_handle e) + length bs) mod n \<Longrightarrow>
      enc_step lib va va_end pa n rd wr (e, p)
        (e\<lparr>eb_handle := h', eb_mem := ring_write (eb_mem e) (wr (eb_handle e)) bs\<rparr>, p @ bs)"
| read_out: "0 \<le> d \<Longrightarrow> d < 2 ^ 31 \<Longrightarrow> enc_readbs_ring_buffer lib va va_end pa d e = Done (r, e') \<Longrightarrow>
      enc_step lib va va_end pa n rd wr (e, p) (e', p)"

definition enc_content :: "nat \<Rightarrow> ('h \<Rightarrow> nat) \<Rightarrow> ('h \<Rightarrow> nat) \<Rightarrow> 'h enc_bs \<Rightarrow> u8 list" where
  "enc_content n rd wr e =
     ring_bytes (eb_mem e) (rd (eb_handle e)) (ring_used n (rd (eb_handle e)) (wr (eb_handle e)))"

definition enc_inv :: "nat \<Rightarrow> ('h \<Rightarrow> nat) \<Rightarrow> ('h \<Rightarrow> nat) \<Rightarrow> u8 list \<Rightarrow> 'h enc_bs \<times> u8 list \<Rightarrow> bool" where
  "enc_inv n rd wr out x \<longleftrightarrow> (case x of (e, p) \<Rightarrow>
     length (eb_mem e) = n \<and> cl_dst_scheme (eb_cmd e) \<noteq> PATH_NET \<and> writes_succeed (eb_dst e) \<and>
     wf_data (eb_dst e) @ enc_content n rd wr e = out @ p)"

lemma produce_keeps:
  assumes laws: "enc_lib_laws lib pa n rd wr" and inv: "enc_inv n rd wr out (e, p)"
    and bs: "length bs \<le> ring_room n (rd (eb_handle e)) (wr (eb_handle e))"
    and h': "rd h' = rd (eb_handle e)" "wr h' = (wr (eb_handle e) + length bs) mod n"
  shows "enc_inv n rd wr out (e\<lparr>eb_handle := h', eb_mem := ring_write (eb_mem e) (wr (eb_handle e)) bs\<rparr>, p @ bs)"
proof -
  let ?r = "rd (eb_handle e)" and ?w = "wr (eb_handle e)"
  let ?u = "ring_used n ?r ?w"
  have less: "?r < n" "?w < n" using laws by (auto simp: enc_lib_laws_def)
  have n: "length (eb_mem e) = n" using inv by (simp add: enc_inv_def)
  have u: "?u + length bs < n" using bs less ring_used_less [of n ?r ?w] by (auto simp: ring_room_def)
  have "ring_write (eb_mem e) ?w bs = ring_write (eb_mem e) (?r + ?u) bs"
    using less n ring_used_pos [of ?r n ?w] by (intro ring_write_cong_mod) simp
  moreover have "ring_used n ?r (wr h') = ?u + length bs" using ring_used_add less u h' by simp
  ultimately have "enc_content n rd wr (e\<lparr>eb_handle := h', eb_mem := ring_write (eb_mem e) ?w bs\<rparr>) = enc_content n rd wr e @ bs"
    using ring_bytes_write [of ?u bs "eb_mem e" ?r] u n h' by (simp add: enc_content_def)
  then show ?thesis using inv by (simp add: enc_inv_def)
qed

lemma read_out_keeps:
  assumes laws: "enc_lib_laws lib pa n rd wr" and geom: "bs_geom va va_end n" and inv: "enc_inv n rd wr out (e, p)"
    and d: "0 \<le> d" "d < 2 ^ 31"
  obtains r e' where "enc_readbs_ring_buffer lib va va_end pa d e = Done (r, e')" "enc_inv n rd wr out (e', p)"
    "d = 0 \<longrightarrow> enc_content n rd wr e' = []"
proof -
  let ?r = "rd (eb_handle e)" and ?w = "wr (eb_handle e)"
  let ?u = "ring_used n ?r ?w"
  define k where "k = read_size ?u d"
  have less: "?r < n" "?w < n" using laws by (auto simp: enc_lib_laws_def)
  have pre: "n = length (eb_mem e)" "cl_dst_scheme (eb_cmd e) \<noteq> PATH_NET" "writes_succeed (eb_dst e)"
    using inv by (auto simp: enc_inv_def)
  obtain h' f where run: "enc_readbs_ring_buffer lib va va_end pa d e =
      Done (int k, e\<lparr>eb_handle := h', eb_world := (eb_world e)\<lparr>vw_dst := f\<rparr>\<rparr>)"
    and f: "wf_data f = wf_data (eb_dst e) @ ring_bytes (eb_mem e) ?r k" "writes_succeed f"
    and h': "rd h' = (?r + k) mod n" "wr h' = ?w"
    by (rule enc_read_file [OF laws geom pre d k_def])
  let ?e' = "e\<lparr>eb_handle := h', eb_world := (eb_world e)\<lparr>vw_dst := f\<rparr>\<rparr>"
  have k: "k \<le> ?u" by (auto simp: k_def read_size_def)
  have content: "enc_content n rd wr ?e' = ring_bytes (eb_mem e) (?r + k) (?u - k)"
    using ring_used_consume [OF less k] h' pre(1) by (simp add: enc_content_def)
  then have "ring_bytes (eb_mem e) ?r k @ enc_content n rd wr ?e' = enc_content n rd wr e"
    using ring_bytes_add [of "eb_mem e" ?r k "?u - k"] k by (simp add: enc_content_def)
  then have "enc_inv n rd wr out (?e', p)" using inv f by (auto simp: enc_inv_def)
  then show thesis using that [OF run] content by (simp add: k_def read_size_def)
qed

lemma read_out_inv:
  assumes "enc_lib_laws lib pa n rd wr" and "bs_geom va va_end n" and "enc_inv n rd wr out (e, p)"
    and "0 \<le> d" and "d < 2 ^ 31" and "enc_readbs_ring_buffer lib va va_end pa d e = Done (r, e')"
  shows "enc_inv n rd wr out (e', p)"
  by (rule read_out_keeps [OF assms(1-5)]) (use assms(6) in simp)

inductive_cases enc_stepE: "enc_step lib va va_end pa n rd wr (e, p) x"

lemma enc_steps_inv:
  assumes "enc_lib_laws lib pa n rd wr" and "bs_geom va va_end n"
  shows "(enc_step lib va va_end pa n rd wr)\<^sup>*\<^sup>* x y \<Longrightarrow> enc_inv n rd wr out x \<Longrightarrow> enc_inv n rd wr out y"
proof (induction rule: rtranclp_induct)
  case (step y z)
  obtain e p where y: "y = (e, p)" by (cases y)
  from step.hyps(2) show ?case unfolding y
    by (rule enc_stepE) (use step.IH [OF step.prems] y in
      \<open>auto intro: produce_keeps [OF assms(1)] read_out_inv [OF assms]\<close>)
qed

section \<open>Properties\<close>

text \<open>
  C2: The encoder's ring is a queue between the encoder and the output file. For every interleaving of
  production and read-outs of any size, the file followed by the content of the ring is what
  was in the file before followed by everything produced, and a read-out of default size 0 then completes the file.
\<close>

theorem enc_ring_in_order:
  assumes "enc_lib_laws lib pa n rd wr" and "bs_geom va va_end n" and "length (eb_mem e0) = n"
    and "cl_dst_scheme (eb_cmd e0) \<noteq> PATH_NET" and "writes_succeed (eb_dst e0)"
    and "rd (eb_handle e0) = wr (eb_handle e0)"
    and "(enc_step lib va va_end pa n rd wr)\<^sup>*\<^sup>* (e0, []) (e, p)"
  shows "wf_data (eb_dst e) @ enc_content n rd wr e = wf_data (eb_dst e0) @ p \<and>
    (\<exists>r e'. enc_readbs_ring_buffer lib va va_end pa 0 e = Done (r, e') \<and> wf_data (eb_dst e') = wf_data (eb_dst e0) @ p)"
proof -
  have "rd (eb_handle e0) < n" using assms(1) by (auto simp: enc_lib_laws_def)
  then have "enc_content n rd wr e0 = []" using assms(6) by (simp add: enc_content_def ring_used_same)
  then have "enc_inv n rd wr (wf_data (eb_dst e0)) (e0, [])" using assms(3-5) by (simp add: enc_inv_def)
  from enc_steps_inv [OF assms(1,2,7) this] have inv: "enc_inv n rd wr (wf_data (eb_dst e0)) (e, p)" .
  obtain r e' where "enc_readbs_ring_buffer lib va va_end pa 0 e = Done (r, e')"
    "enc_inv n rd wr (wf_data (eb_dst e0)) (e', p)" "enc_content n rd wr e' = []"
    by (rule read_out_keeps [OF assms(1,2) inv, of 0]) simp_all
  then show ?thesis using inv by (auto simp: enc_inv_def)
qed

definition ring_elib :: "u32 \<Rightarrow> nat \<Rightarrow> (nat \<times> nat) enc_lib" where
  "ring_elib pa n = \<lparr>el_get = (\<lambda>(r, w). (True, pa + of_nat (r mod n), pa + of_nat (w mod n), of_nat (ring_used n (r mod n) (w mod n)))),
     el_update = (\<lambda>(r, w) k. (True, ((r + unat k) mod n, w)))\<rparr>"

lemma ring_elib_laws: "enc_lib_laws (ring_elib pa 8) pa 8 (lib_rd 8) (lib_wr 8)"
proof -
  have "unat (of_nat k :: u32) = k" if "k \<le> ring_used 8 r w" for k r w
    using that ring_used_less [of 8 r w] by (simp add: unat_of_nat take_bit_nat_eq_self)
  then show ?thesis by (auto simp: enc_lib_laws_def ring_elib_def mod_add_left_eq ring_used_less)
qed

definition demo_enc :: "nat \<times> nat \<Rightarrow> u8 list \<Rightarrow> (nat \<times> nat) enc_bs" where
  "demo_enc h mem = \<lparr>eb_handle = h, eb_mem = mem, eb_cmd = cmd_zero, eb_world = demo_world []\<rparr>"

theorem enc_ring_in_order_witness:
  "\<exists>r e'. enc_readbs_ring_buffer (ring_elib 0x1000 8) 0x2000 0x2008 0x1000 0 (demo_enc (6, 1) [3, 0, 0, 0, 0, 0, 1, 2]) = Done (r, e') \<and>
     wf_data (eb_dst e') = [1, 2, 3]"
proof -
  let ?start = "demo_enc (6, 6) [0, 0, 0, 0, 0, 0, 0, 0]" and ?e = "demo_enc (6, 1) [3, 0, 0, 0, 0, 0, 1, 2]"
  have "enc_step (ring_elib 0x1000 8) 0x2000 0x2008 0x1000 8 (lib_rd 8) (lib_wr 8) (?start, []) (?e, [1, 2, 3])"
    using enc_step.produce [where bs = "[1, 2, 3]" and n = 8 and rd = "lib_rd 8" and e = ?start and wr = "lib_wr 8" and h' = "(6, 1)" and p = "[]"]
    by (simp add: demo_enc_def ring_room_def ring_used_def)
  then have steps: "(enc_step (ring_elib 0x1000 8) 0x2000 0x2008 0x1000 8 (lib_rd 8) (lib_wr 8))\<^sup>*\<^sup>* (?start, []) (?e, [1, 2, 3])"
    by (rule r_into_rtranclp)
  have start: "length (eb_mem ?start) = 8" "cl_dst_scheme (eb_cmd ?start) \<noteq> PATH_NET" "writes_succeed (eb_dst ?start)"
    "lib_rd 8 (eb_handle ?start) = lib_wr 8 (eb_handle ?start)" "wf_data (eb_dst ?start) = []"
    by (simp_all add: demo_enc_def demo_world_def cmd_zero_def path_defs writes_succeed_def)
  from enc_ring_in_order [OF ring_elib_laws demo_geom start(1-4) steps] show ?thesis unfolding start(5) by simp
qed

end
