(* ===== verification/Vpu_Files.thy ===== *)
theory Vpu_Files
  imports Vpu_Cmd
begin

text \<open>
  Opening and closing the input and output of a test instance
  (\<^verbatim>\<open>src/test/mxc_vpu_test/utils.c\<close>: \<open>udp_open\<close>, \<open>open_files\<close>, \<open>close_files\<close>). The state is what the process
  holds: its open descriptors and the number of allocated network buffers. Which of the calls
  \<open>malloc\<close>, \<open>socket\<close>, \<open>bind\<close> and \<open>open\<close> fail is a schedule, one entry per call; an empty schedule lets
  every call succeed. A successful call returns the lowest free descriptor.
\<close>

record fd_state =
  fs_open :: "int list"
  fs_bufs :: int
  fs_sched :: "bool list"
  fs_junk :: u8

definition lowest_fd :: "int list \<Rightarrow> int" where
  "lowest_fd fds = hd (filter (\<lambda>i. i \<notin> set fds) (map int [0..<Suc (length fds)]))"

text \<open>One fallible call, \<open>open\<close> or \<open>socket\<close>, \<open>close\<close>, and \<open>malloc\<close> and \<open>free\<close> of a network buffer.\<close>

definition sys_try :: "fd_state \<Rightarrow> bool \<times> fd_state" where
  "sys_try fs = (case fs_sched fs of [] \<Rightarrow> (True, fs) | b # bs \<Rightarrow> (b, fs\<lparr>fs_sched := bs\<rparr>))"

definition sys_open :: "fd_state \<Rightarrow> int \<times> fd_state" where
  "sys_open fs = (let (ok, fs1) = sys_try fs; fd = lowest_fd (fs_open fs1)
     in if ok then (fd, fs1\<lparr>fs_open := fd # fs_open fs1\<rparr>) else (-1, fs1))"

definition sys_close :: "int \<Rightarrow> fd_state \<Rightarrow> fd_state" where
  "sys_close fd fs = fs\<lparr>fs_open := removeAll fd (fs_open fs)\<rparr>"

definition buf_free :: "fd_state \<Rightarrow> fd_state" where
  "buf_free fs = fs\<lparr>fs_bufs := fs_bufs fs - 1\<rparr>"

definition buf_alloc :: "fd_state \<Rightarrow> bool \<times> fd_state" where
  "buf_alloc fs = (let (ok, fs1) = sys_try fs in (ok, if ok then fs1\<lparr>fs_bufs := fs_bufs fs1 + 1\<rparr> else fs1))"

definition udp_open :: "cmd_line \<Rightarrow> fd_state \<Rightarrow> int \<times> cmd_line \<times> fd_state" where
  "udp_open cmd fs =
     (let (ok, fs1) = buf_alloc fs
      in if \<not> ok then (-1, cmd\<lparr>cl_nbuf := None\<rparr>, fs1)
         else
           (let cmd1 = cmd\<lparr>cl_nbuf := Some (replicate (nat DEFAULT_PKT_SIZE) (fs_junk fs1))\<rparr>;
                (sd, fs2) = sys_open fs1
            in if sd < 0 then (-1, cmd1\<lparr>cl_nbuf := None\<rparr>, buf_free fs2)
               else if cl_src_scheme cmd1 = PATH_NET then
                 (let (bound, fs3) = sys_try fs2
                  in if \<not> bound then (-1, cmd1\<lparr>cl_nbuf := None\<rparr>, buf_free (sys_close sd fs3))
                     else (sd, cmd1, fs3))
               else (sd, cmd1, fs2)))"

text \<open>The two halves of \<open>open_files\<close>, each giving whether it succeeded.\<close>

definition open_src :: "cmd_line \<Rightarrow> fd_state \<Rightarrow> bool \<times> cmd_line \<times> fd_state" where
  "open_src cmd fs =
     (if cl_src_scheme cmd = PATH_FILE then
        (let (fd, fs1) = sys_open fs in (\<not> fd < 0, cmd\<lparr>cl_src_fd := fd\<rparr>, fs1))
      else if cl_src_scheme cmd = PATH_NET then
        (let (fd, cmd1, fs1) = udp_open cmd fs in (\<not> fd < 0, cmd1\<lparr>cl_src_fd := fd\<rparr>, fs1))
      else (True, cmd, fs))"

definition open_dst :: "cmd_line \<Rightarrow> fd_state \<Rightarrow> bool \<times> cmd_line \<times> fd_state" where
  "open_dst cmd fs =
     (if cl_dst_scheme cmd = PATH_FILE then
        (let (fd, fs1) = sys_open fs; cmd1 = cmd\<lparr>cl_dst_fd := fd\<rparr>
         in if fd < 0 then
              (False, cmd1, if cl_src_scheme cmd1 = PATH_FILE then sys_close (cl_src_fd cmd1) fs1 else fs1)
            else (True, cmd1, fs1))
      else if cl_dst_scheme cmd = PATH_NET then
        (let (fd, cmd1, fs1) = udp_open cmd fs; cmd2 = cmd1\<lparr>cl_dst_fd := fd\<rparr>
         in if fd < 0 then
              (False, cmd2, if cl_src_scheme cmd2 = PATH_NET then sys_close (cl_src_fd cmd2) fs1 else fs1)
            else (True, cmd2, fs1))
      else (True, cmd, fs))"

definition open_files :: "cmd_line \<Rightarrow> fd_state \<Rightarrow> int \<times> cmd_line \<times> fd_state" where
  "open_files cmd fs =
     (let (ok, cmd1, fs1) = open_src cmd fs
      in if \<not> ok then (-1, cmd1, fs1)
         else (let (ok2, cmd2, fs2) = open_dst cmd1 fs1 in (if ok2 then 0 else -1, cmd2, fs2)))"

definition close_files :: "cmd_line \<Rightarrow> fd_state \<Rightarrow> cmd_line \<times> fd_state" where
  "close_files cmd fs =
     (let (cmd1, fs1) = (if cl_src_fd cmd > 0 then (cmd\<lparr>cl_src_fd := -1\<rparr>, sys_close (cl_src_fd cmd) fs) else (cmd, fs));
          (cmd2, fs2) = (if cl_dst_fd cmd1 > 0 then (cmd1\<lparr>cl_dst_fd := -1\<rparr>, sys_close (cl_dst_fd cmd1) fs1) else (cmd1, fs1))
      in case cl_nbuf cmd2 of
           None \<Rightarrow> (cmd2, fs2)
         | Some nb \<Rightarrow> (cmd2\<lparr>cl_nbuf := None\<rparr>, buf_free fs2))"

section \<open>Descriptors\<close>

lemma lowest_fd_fresh: "lowest_fd fds \<notin> set fds" "0 \<le> lowest_fd fds"
proof -
  let ?cand = "map int [0..<Suc (length fds)]"
  have "\<not> set ?cand \<subseteq> set fds"
  proof
    assume "set ?cand \<subseteq> set fds"
    then have "card (set ?cand) \<le> length fds" by (meson card_length card_mono finite_set le_trans)
    moreover have "card (set ?cand) = Suc (length fds)" by (subst distinct_card) (simp_all add: distinct_map inj_on_def del: upt_Suc)
    ultimately show False by simp
  qed
  then have "filter (\<lambda>i. i \<notin> set fds) ?cand \<noteq> []" by (simp add: filter_empty_conv subset_iff del: upt_Suc)
  then have "lowest_fd fds \<in> set (filter (\<lambda>i. i \<notin> set fds) ?cand)" unfolding lowest_fd_def by (rule hd_in_set)
  then show "lowest_fd fds \<notin> set fds" "0 \<le> lowest_fd fds" by (auto simp del: upt_Suc)
qed

text \<open>Descriptor 0 is taken: a process normally starts with its standard streams open.\<close>

lemma sys_try_keeps: "sys_try fs = (ok, fs') \<Longrightarrow> fs_open fs' = fs_open fs \<and> fs_bufs fs' = fs_bufs fs"
  by (auto simp: sys_try_def split: list.splits)

lemma sys_open_cases:
  assumes "sys_open fs = (fd, fs')" and "0 \<in> set (fs_open fs)"
  shows "fs_bufs fs' = fs_bufs fs \<and>
    (fd = -1 \<and> fs_open fs' = fs_open fs \<or> 0 < fd \<and> fd \<notin> set (fs_open fs) \<and> fs_open fs' = fd # fs_open fs)"
proof -
  obtain ok fs1 where t: "sys_try fs = (ok, fs1)" by (cases "sys_try fs")
  have "lowest_fd (fs_open fs) \<noteq> 0" using assms(2) lowest_fd_fresh(1) [of "fs_open fs"] by metis
  then have "0 < lowest_fd (fs_open fs)" using lowest_fd_fresh(2) [of "fs_open fs"] by simp
  then show ?thesis using assms(1) t sys_try_keeps [OF t] lowest_fd_fresh(1) [of "fs_open fs"]
    by (auto simp: sys_open_def Let_def split: if_splits)
qed

lemma removeAll_fresh: "x \<notin> set xs \<Longrightarrow> removeAll x (x # xs) = xs"
  by (simp add: removeAll_id)

text \<open>\<open>udp_open\<close> gives a descriptor and a buffer, or leaves everything as it was.\<close>

lemma udp_open_cases:
  assumes "udp_open cmd fs = (fd, cmd', fs')" and "0 \<in> set (fs_open fs)"
  shows "(\<exists>nb. cmd' = cmd\<lparr>cl_nbuf := nb\<rparr> \<and> (nb = None \<longleftrightarrow> fd < 0)) \<and>
    (fd = -1 \<and> fs_open fs' = fs_open fs \<and> fs_bufs fs' = fs_bufs fs \<or>
     0 < fd \<and> fd \<notin> set (fs_open fs) \<and> fs_open fs' = fd # fs_open fs \<and> fs_bufs fs' = fs_bufs fs + 1)"
proof -
  obtain ok fs1 where a: "buf_alloc fs = (ok, fs1)" by (cases "buf_alloc fs")
  then have f1: "fs_open fs1 = fs_open fs" "fs_bufs fs1 = (if ok then fs_bufs fs + 1 else fs_bufs fs)"
    using sys_try_keeps [of fs] by (auto simp: buf_alloc_def split: prod.splits if_splits)
  obtain sd fs2 where s: "sys_open fs1 = (sd, fs2)" by (cases "sys_open fs1")
  note c = sys_open_cases [OF s] f1
  obtain b fs3 where t: "sys_try fs2 = (b, fs3)" by (cases "sys_try fs2")
  note k = sys_try_keeps [OF t]
  show ?thesis
    using assms c k
    by (auto simp: udp_open_def a s t Let_def buf_free_def sys_close_def removeAll_id split: if_splits)
qed

section \<open>Balance\<close>

definition fresh_cmd :: "cmd_line \<Rightarrow> bool" where
  "fresh_cmd cmd \<longleftrightarrow> cl_src_fd cmd \<le> 0 \<and> cl_dst_fd cmd \<le> 0 \<and> cl_nbuf cmd = None"

text \<open>After the first half: the input is open or nothing has changed but the record.\<close>

lemma open_src_cases:
  assumes "open_src cmd fs = (ok, cmd', fs')" and "0 \<in> set (fs_open fs)" and "fresh_cmd cmd"
  shows "cl_src_scheme cmd' = cl_src_scheme cmd \<and> cl_dst_scheme cmd' = cl_dst_scheme cmd \<and> cl_dst_fd cmd' \<le> 0"
    "if cl_src_scheme cmd = PATH_FILE \<or> cl_src_scheme cmd = PATH_NET
     then (if ok then 0 < cl_src_fd cmd' \<and> cl_src_fd cmd' \<notin> set (fs_open fs) \<and> fs_open fs' = cl_src_fd cmd' # fs_open fs
           else cl_src_fd cmd' \<le> 0 \<and> fs_open fs' = fs_open fs)
     else ok \<and> cl_src_fd cmd' \<le> 0 \<and> fs_open fs' = fs_open fs"
    "cl_nbuf cmd' \<noteq> None \<longleftrightarrow> ok \<and> cl_src_scheme cmd = PATH_NET"
    "fs_bufs fs' = fs_bufs fs + (if ok \<and> cl_src_scheme cmd = PATH_NET then 1 else 0)"
proof -
  obtain fd fs1 where opn: "sys_open fs = (fd, fs1)" by (cases "sys_open fs")
  obtain ud c1 fs2 where udp: "udp_open cmd fs = (ud, c1, fs2)" by (cases "udp_open cmd fs")
  note facts = sys_open_cases [OF opn assms(2)] udp_open_cases [OF udp assms(2)] assms(1,3) opn udp
  show "cl_src_scheme cmd' = cl_src_scheme cmd \<and> cl_dst_scheme cmd' = cl_dst_scheme cmd \<and> cl_dst_fd cmd' \<le> 0"
    using facts by (auto simp: open_src_def fresh_cmd_def split: if_splits)
  show "if cl_src_scheme cmd = PATH_FILE \<or> cl_src_scheme cmd = PATH_NET
     then (if ok then 0 < cl_src_fd cmd' \<and> cl_src_fd cmd' \<notin> set (fs_open fs) \<and> fs_open fs' = cl_src_fd cmd' # fs_open fs
           else cl_src_fd cmd' \<le> 0 \<and> fs_open fs' = fs_open fs)
     else ok \<and> cl_src_fd cmd' \<le> 0 \<and> fs_open fs' = fs_open fs"
    using facts by (auto simp: open_src_def fresh_cmd_def split: if_splits)
  show "cl_nbuf cmd' \<noteq> None \<longleftrightarrow> ok \<and> cl_src_scheme cmd = PATH_NET"
    using facts by (auto simp: open_src_def fresh_cmd_def path_defs split: if_splits)
  show "fs_bufs fs' = fs_bufs fs + (if ok \<and> cl_src_scheme cmd = PATH_NET then 1 else 0)"
    using facts by (auto simp: open_src_def fresh_cmd_def path_defs split: if_splits)
qed

text \<open>After the second half, from any record.\<close>

lemma open_dst_cases:
  assumes "open_dst cmd fs = (ok, cmd', fs')" and "0 \<in> set (fs_open fs)"
  shows "cl_src_fd cmd' = cl_src_fd cmd"
    "if cl_dst_scheme cmd = PATH_FILE \<or> cl_dst_scheme cmd = PATH_NET
     then (if ok then 0 < cl_dst_fd cmd' \<and> cl_dst_fd cmd' \<notin> set (fs_open fs) \<and> fs_open fs' = cl_dst_fd cmd' # fs_open fs
           else fs_open fs' = (if cl_src_scheme cmd = cl_dst_scheme cmd then removeAll (cl_src_fd cmd) (fs_open fs) else fs_open fs))
     else ok \<and> cl_dst_fd cmd' = cl_dst_fd cmd \<and> fs_open fs' = fs_open fs"
    "if cl_dst_scheme cmd = PATH_NET then (cl_nbuf cmd' \<noteq> None \<longleftrightarrow> ok) else cl_nbuf cmd' = cl_nbuf cmd"
    "fs_bufs fs' = fs_bufs fs + (if ok \<and> cl_dst_scheme cmd = PATH_NET then 1 else 0)"
proof -
  obtain fd fs1 where opn: "sys_open fs = (fd, fs1)" by (cases "sys_open fs")
  obtain ud c1 fs2 where udp: "udp_open cmd fs = (ud, c1, fs2)" by (cases "udp_open cmd fs")
  note facts = sys_open_cases [OF opn assms(2)] udp_open_cases [OF udp assms(2)] assms(1) opn udp
  show "cl_src_fd cmd' = cl_src_fd cmd"
    using facts by (auto simp: open_dst_def Let_def split: if_splits)
  show "if cl_dst_scheme cmd = PATH_FILE \<or> cl_dst_scheme cmd = PATH_NET
     then (if ok then 0 < cl_dst_fd cmd' \<and> cl_dst_fd cmd' \<notin> set (fs_open fs) \<and> fs_open fs' = cl_dst_fd cmd' # fs_open fs
           else fs_open fs' = (if cl_src_scheme cmd = cl_dst_scheme cmd then removeAll (cl_src_fd cmd) (fs_open fs) else fs_open fs))
     else ok \<and> cl_dst_fd cmd' = cl_dst_fd cmd \<and> fs_open fs' = fs_open fs"
    using facts by (auto simp: open_dst_def Let_def sys_close_def split: if_splits)
  show "if cl_dst_scheme cmd = PATH_NET then (cl_nbuf cmd' \<noteq> None \<longleftrightarrow> ok) else cl_nbuf cmd' = cl_nbuf cmd"
    using facts by (auto simp: open_dst_def Let_def path_defs split: if_splits)
  show "fs_bufs fs' = fs_bufs fs + (if ok \<and> cl_dst_scheme cmd = PATH_NET then 1 else 0)"
    using facts by (auto simp: open_dst_def Let_def path_defs sys_close_def split: if_splits)
qed

lemma close_files_effect:
  "close_files cmd fs = (cmd2, fs2) \<Longrightarrow>
     fs_open fs2 = (if 0 < cl_dst_fd cmd then removeAll (cl_dst_fd cmd) else id)
       ((if 0 < cl_src_fd cmd then removeAll (cl_src_fd cmd) else id) (fs_open fs)) \<and>
     fs_bufs fs2 = fs_bufs fs - (if cl_nbuf cmd = None then 0 else 1)"
  by (auto simp: close_files_def sys_close_def buf_free_def split: if_splits option.splits)

section \<open>Properties\<close>

text \<open>
  C32: What \<open>open_files\<close> opens, \<open>close_files\<close> closes. From a fresh record, \<open>open_files\<close> returns 0 or -1. After 0,
  \<open>close_files\<close> leaves exactly the descriptors that were open before, and all buffers are freed, except for one when input and output are
  both on the network. After -1 the descriptors are as before and no buffer is held if the input did not open; if it did,
  its descriptor is closed exactly when both ends have the same scheme, and its network buffer never.
\<close>

theorem open_close_balance:
  assumes "0 \<in> set (fs_open fs)" and "fresh_cmd cmd" and "open_files cmd fs = (r, cmd', fs')"
    and "close_files cmd' fs' = (cmd2, fs2)"
  shows "(r = 0 \<or> r = -1) \<and>
    (r = 0 \<longrightarrow> fs_open fs2 = fs_open fs \<and>
       fs_bufs fs2 = fs_bufs fs + (if cl_src_scheme cmd = PATH_NET \<and> cl_dst_scheme cmd = PATH_NET then 1 else 0)) \<and>
    (r = -1 \<longrightarrow>
       fs_open fs' = (if 0 < cl_src_fd cmd' \<and> cl_src_scheme cmd \<noteq> cl_dst_scheme cmd then cl_src_fd cmd' # fs_open fs else fs_open fs) \<and>
       fs_bufs fs' = fs_bufs fs + (if 0 < cl_src_fd cmd' \<and> cl_src_scheme cmd = PATH_NET then 1 else 0))"
proof -
  obtain ok1 c1 f1 where src: "open_src cmd fs = (ok1, c1, f1)" by (cases "open_src cmd fs")
  note S = open_src_cases [OF src assms(1,2)]
  obtain ok2 c2 f2 where dst: "open_dst c1 f1 = (ok2, c2, f2)" by (cases "open_dst c1 f1")
  have z1: "0 \<in> set (fs_open f1)" using S assms(1) by (auto split: if_splits)
  note D = open_dst_cases [OF dst z1]
  note E = close_files_effect [OF assms(4)]
  have run: "r = (if ok1 \<and> ok2 then 0 else -1)" "cmd' = (if ok1 then c2 else c1)" "fs' = (if ok1 then f2 else f1)"
    using assms(3) src dst by (auto simp: open_files_def split: if_splits)
  have net: "PATH_NET \<noteq> PATH_FILE" by (simp add: path_defs)
  consider (src_failed) "\<not> ok1" | (dst_failed) "ok1" "\<not> ok2" | (both) "ok1" "ok2" by blast
  then show ?thesis
  proof cases
    case src_failed
    then have "cl_src_fd c1 \<le> 0" "fs_open f1 = fs_open fs" using S(2) by (simp_all split: if_split_asm)
    moreover have "fs_bufs f1 = fs_bufs fs" using S(4) src_failed by simp
    moreover have "r = -1" "cmd' = c1" "fs' = f1" using run src_failed by simp_all
    ultimately show ?thesis by simp
  next
    case dst_failed
    have "fs_open f2 = (if 0 < cl_src_fd c2 \<and> cl_src_scheme cmd \<noteq> cl_dst_scheme cmd then cl_src_fd c2 # fs_open fs else fs_open fs)"
      using dst_failed S(1,2) D(1,2) assms(1) by (auto split: if_splits)
    moreover have "fs_bufs f2 = fs_bufs fs + (if 0 < cl_src_fd c2 \<and> cl_src_scheme cmd = PATH_NET then 1 else 0)"
      using dst_failed S(2,4) D(1,4) net by (simp split: if_splits)
    ultimately show ?thesis using dst_failed unfolding run by simp
  next
    case both
    have "fs_open fs2 = fs_open fs" using both E S(1,2) D(1,2) unfolding run by (auto split: if_splits)
    moreover have "fs_bufs fs2 = fs_bufs fs + (if cl_src_scheme cmd = PATH_NET \<and> cl_dst_scheme cmd = PATH_NET then 1 else 0)"
      using both E S(1,3,4) D(3,4) unfolding run by (auto split: if_splits)
    ultimately show ?thesis using both unfolding run by simp
  qed
qed

theorem open_close_balance_witness:
  "\<exists>cmd' fs'. open_files (cmd_zero\<lparr>cl_src_scheme := PATH_NET, cl_dst_scheme := PATH_FILE\<rparr>)
       \<lparr>fs_open = [0, 1, 2], fs_bufs = 0, fs_sched = [True, True, True, False], fs_junk = 0\<rparr> = (-1, cmd', fs') \<and>
     fs_open fs' = [3, 0, 1, 2] \<and> fs_bufs fs' = 1"
proof -
  let ?cmd = "cmd_zero\<lparr>cl_src_scheme := PATH_NET, cl_dst_scheme := PATH_FILE\<rparr>"
  let ?fs = "\<lparr>fs_open = [0, 1, 2], fs_bufs = 0, fs_sched = [True, True, True, False], fs_junk = 0\<rparr>"
  obtain r cmd' fs' where o: "open_files ?cmd ?fs = (r, cmd', fs')" by (cases "open_files ?cmd ?fs")
  obtain cmd2 fs2 where c: "close_files cmd' fs' = (cmd2, fs2)" by (cases "close_files cmd' fs'")
  have "r = -1" "cl_src_fd cmd' = 3"
    using o by (auto simp: open_files_def open_src_def open_dst_def udp_open_def buf_alloc_def sys_open_def sys_try_def lowest_fd_def
        path_defs Let_def)
  moreover have "fresh_cmd ?cmd" by (simp add: fresh_cmd_def cmd_zero_def)
  ultimately show ?thesis using open_close_balance [OF _ _ o c] o by (auto simp: path_defs)
qed

end
