(* ===== verification/Dec_Crop.thy ===== *)
theory Dec_Crop
  imports Vpu_Cmd
begin

unbundle bit_operations_syntax

text \<open>
  The cropping rectangle of a rotated or mirrored picture (\<^verbatim>\<open>src/test/mxc_vpu_test/dec.c\<close>:
  \<open>swapCropRect\<close>), and what a decoder instance knows about its pictures. The rectangle of the rotated picture is
  related to the rectangle of the decoded one through the positions of the pixels.
\<close>

section \<open>Data\<close>

text \<open>\<open>Rect\<close> and the mirror directions are the VPU library's; the numbers of the latter are parameters.\<close>

record rect =
  r_left :: u32
  r_top :: u32
  r_right :: u32
  r_bottom :: u32

record mir_dirs =
  DIR_NONE :: int
  DIR_VER :: int
  DIR_HOR :: int
  DIR_HOR_VER :: int

text \<open>The members of \<open>struct decode\<close> that the picture output reads.\<close>

record decode_pic =
  dp_picwidth :: int
  dp_picheight :: int
  dp_stride :: int
  dp_mjpg_fmt :: int
  dp_picCropRect :: rect
  dp_tiled2LinearEnable :: int
  dp_cmdl :: cmd_line

section \<open>The rectangle after rotation\<close>

definition mir_mode :: "mir_dirs \<Rightarrow> int \<Rightarrow> nat \<Rightarrow> nat \<Rightarrow> nat \<Rightarrow> nat \<Rightarrow> nat" where
  "mir_mode md dir none ver hor both =
     (if dir = DIR_NONE md then none else if dir = DIR_VER md then ver
      else if dir = DIR_HOR md then hor else if dir = DIR_HOR_VER md then both else 0)"

definition swap_mode :: "mir_dirs \<Rightarrow> int \<Rightarrow> int \<Rightarrow> nat" where
  "swap_mode md rotAngle mirDir =
     (if rotAngle = 0 then mir_mode md mirDir 0 5 4 2
      else if rotAngle = 90 then mir_mode md mirDir 3 7 6 1
      else if rotAngle = 180 then mir_mode md mirDir 2 4 5 0
      else if rotAngle = 270 then mir_mode md mirDir 1 6 7 3
      else 0)"

definition rect_any :: "rect \<Rightarrow> u32" where
  "rect_any r = r_left r OR r_top r OR r_right r OR r_bottom r"

text \<open>The second switch: \<open>w\<close> and \<open>h\<close> are the sizes of the frame as unsigned operands.\<close>

definition swap_rect :: "nat \<Rightarrow> u32 \<Rightarrow> u32 \<Rightarrow> rect \<Rightarrow> rect \<Rightarrow> rect" where
  "swap_rect mode w h nor rot =
     (if mode = 0 then
        rot\<lparr>r_bottom := r_bottom nor, r_left := r_left nor, r_right := r_right nor, r_top := r_top nor\<rparr>
      else if mode = 1 then
        rot\<lparr>r_bottom := w - r_left nor, r_left := r_top nor, r_right := r_bottom nor, r_top := w - r_right nor\<rparr>
      else if mode = 2 then
        rot\<lparr>r_bottom := h - r_top nor, r_left := w - r_right nor, r_right := w - r_left nor, r_top := h - r_bottom nor\<rparr>
      else if mode = 3 then
        rot\<lparr>r_bottom := r_right nor, r_left := h - r_bottom nor, r_right := h - r_top nor, r_top := r_left nor\<rparr>
      else if mode = 4 then
        rot\<lparr>r_bottom := r_bottom nor, r_left := w - r_right nor, r_right := w - r_left nor, r_top := r_top nor\<rparr>
      else if mode = 5 then
        rot\<lparr>r_bottom := h - r_top nor, r_left := r_left nor, r_right := r_right nor, r_top := h - r_bottom nor\<rparr>
      else if mode = 6 then
        rot\<lparr>r_bottom := r_right nor, r_left := r_top nor, r_right := r_bottom nor, r_top := r_left nor\<rparr>
      else if mode = 7 then
        rot\<lparr>r_bottom := w - r_left nor, r_left := h - r_bottom nor, r_right := h - r_top nor, r_top := w - r_right nor\<rparr>
      else rot)"

definition swapCropRect :: "mir_dirs \<Rightarrow> decode_pic \<Rightarrow> rect \<Rightarrow> rect" where
  "swapCropRect md dec rotCrop =
     (let norCrop = dp_picCropRect dec
      in if rect_any norCrop = 0 then norCrop
         else swap_rect (swap_mode md (cl_rot_angle (dp_cmdl dec)) (cl_mirror (dp_cmdl dec)))
                (word_of_int (dp_picwidth dec)) (word_of_int (dp_picheight dec)) norCrop rotCrop)"

section \<open>Pixels\<close>

text \<open>
  Where a pixel of a picture of \<open>W\<close> times \<open>H\<close> goes: first the rotation, clockwise, then the mirroring of the
  rotated picture.
\<close>

definition rotate_px :: "int \<Rightarrow> int \<Rightarrow> int \<Rightarrow> int \<times> int \<Rightarrow> int \<times> int" where
  "rotate_px angle W H p = (case p of (x, y) \<Rightarrow>
     if angle = 90 then (H - 1 - y, x) else if angle = 180 then (W - 1 - x, H - 1 - y)
     else if angle = 270 then (y, W - 1 - x) else (x, y))"

definition rotated_size :: "int \<Rightarrow> int \<Rightarrow> int \<Rightarrow> int \<times> int" where
  "rotated_size angle W H = (if angle = 90 \<or> angle = 270 then (H, W) else (W, H))"

definition mirror_px :: "mir_dirs \<Rightarrow> int \<Rightarrow> int \<times> int \<Rightarrow> int \<times> int \<Rightarrow> int \<times> int" where
  "mirror_px md dir sz p = (case (sz, p) of ((W, H), x, y) \<Rightarrow>
     (if dir = DIR_HOR md \<or> dir = DIR_HOR_VER md then W - 1 - x else x,
      if dir = DIR_VER md \<or> dir = DIR_HOR_VER md then H - 1 - y else y))"

definition in_rect :: "rect \<Rightarrow> int \<times> int \<Rightarrow> bool" where
  "in_rect r p \<longleftrightarrow> (case p of (x, y) \<Rightarrow>
     uint (r_left r) \<le> x \<and> x < uint (r_right r) \<and> uint (r_top r) \<le> y \<and> y < uint (r_bottom r))"

definition rect_ok :: "int \<Rightarrow> int \<Rightarrow> rect \<Rightarrow> bool" where
  "rect_ok W H r \<longleftrightarrow> r_left r \<le> r_right r \<and> uint (r_right r) \<le> W \<and> r_top r \<le> r_bottom r \<and> uint (r_bottom r) \<le> H"

definition dirs_ok :: "mir_dirs \<Rightarrow> bool" where
  "dirs_ok md \<longleftrightarrow> distinct [DIR_NONE md, DIR_VER md, DIR_HOR md, DIR_HOR_VER md]"

lemma uint_sub_int:
  assumes "0 \<le> n" and "n < 2 ^ 31" and "uint (a :: u32) \<le> n"
  shows "uint (word_of_int n - a) = n - uint a"
proof -
  have "uint (word_of_int n :: u32) = n" using assms by (simp add: uint_word_of_int take_bit_int_eq_self)
  then show ?thesis using assms by (simp add: uint_sub_lem [symmetric] uint_sub_if')
qed

text \<open>The eight modes are the symmetries of a rectangle.\<close>

definition mode_px :: "nat \<Rightarrow> int \<Rightarrow> int \<Rightarrow> int \<times> int \<Rightarrow> int \<times> int" where
  "mode_px mode W H p = (case p of (x, y) \<Rightarrow>
     [(x, y), (y, W - 1 - x), (W - 1 - x, H - 1 - y), (H - 1 - y, x),
      (W - 1 - x, y), (x, H - 1 - y), (y, x), (H - 1 - y, W - 1 - x)] ! mode)"

lemma swap_mode_px:
  assumes "dirs_ok md" and "angle \<in> {0, 90, 180, 270}" and "dir \<in> {DIR_NONE md, DIR_VER md, DIR_HOR md, DIR_HOR_VER md}"
  shows "mode_px (swap_mode md angle dir) W H p = mirror_px md dir (rotated_size angle W H) (rotate_px angle W H p)"
    and "swap_mode md angle dir < 8"
proof -
  have ne: "DIR_NONE md \<noteq> DIR_VER md" "DIR_NONE md \<noteq> DIR_HOR md" "DIR_NONE md \<noteq> DIR_HOR_VER md"
    "DIR_VER md \<noteq> DIR_HOR md" "DIR_VER md \<noteq> DIR_HOR_VER md" "DIR_HOR md \<noteq> DIR_HOR_VER md"
    using assms(1) by (auto simp: dirs_ok_def)
  note ne' = ne ne [symmetric]
  have m: "mir_mode md (DIR_NONE md) a b c d = a" "mir_mode md (DIR_VER md) a b c d = b"
    "mir_mode md (DIR_HOR md) a b c d = c" "mir_mode md (DIR_HOR_VER md) a b c d = d" for a b c d
    using ne' by (simp_all add: mir_mode_def)
  obtain x y where p: "p = (x, y)" by (cases p)
  show "mode_px (swap_mode md angle dir) W H p = mirror_px md dir (rotated_size angle W H) (rotate_px angle W H p)"
    using assms(2,3) unfolding p
    by (elim insertE emptyE; simp add: swap_mode_def m mode_px_def mirror_px_def rotated_size_def rotate_px_def ne')
  show "swap_mode md angle dir < 8"
    using assms(2,3) by (elim insertE emptyE; simp add: swap_mode_def m)
qed

lemma swap_rect_px:
  assumes "mode < 8" and "0 \<le> W" "W < 2 ^ 31" and "0 \<le> H" "H < 2 ^ 31" and "rect_ok W H nor"
  shows "in_rect (swap_rect mode (word_of_int W) (word_of_int H) nor rot) (mode_px mode W H (x, y)) \<longleftrightarrow> in_rect nor (x, y)"
proof -
  have le: "uint (r_left nor) \<le> W" "uint (r_right nor) \<le> W" "uint (r_top nor) \<le> H" "uint (r_bottom nor) \<le> H"
    using assms(6) by (auto simp: rect_ok_def word_le_def)
  note sub = uint_sub_int [OF assms(2,3) le(1)] uint_sub_int [OF assms(2,3) le(2)]
    uint_sub_int [OF assms(4,5) le(3)] uint_sub_int [OF assms(4,5) le(4)]
  consider "mode = 0" | "mode = 1" | "mode = 2" | "mode = 3" | "mode = 4" | "mode = 5" | "mode = 6" | "mode = 7"
    using assms(1) by linarith
  then show ?thesis by cases (auto simp: swap_rect_def mode_px_def in_rect_def sub)
qed

section \<open>Properties\<close>

text \<open>
  C9: Cropping commutes with rotation and mirroring. For each of the sixteen combinations of angle and mirror direction and a
  cropping rectangle inside the picture, a pixel lies in the rectangle exactly if the place where rotation and mirroring
  put it lies in the rectangle that \<open>swapCropRect\<close> computes; no subtraction wraps around.
\<close>

theorem swap_crop_pixels:
  assumes "dirs_ok md" and "cl_rot_angle (dp_cmdl dec) \<in> {0, 90, 180, 270}"
    and "cl_mirror (dp_cmdl dec) \<in> {DIR_NONE md, DIR_VER md, DIR_HOR md, DIR_HOR_VER md}"
    and "W = dp_picwidth dec" and "H = dp_picheight dec" and "0 \<le> W" and "W < 2 ^ 31" and "0 \<le> H" and "H < 2 ^ 31"
    and "rect_ok W H (dp_picCropRect dec)" and "rect_any (dp_picCropRect dec) \<noteq> 0"
  shows "in_rect (swapCropRect md dec rot)
      (mirror_px md (cl_mirror (dp_cmdl dec)) (rotated_size (cl_rot_angle (dp_cmdl dec)) W H)
        (rotate_px (cl_rot_angle (dp_cmdl dec)) W H (x, y))) \<longleftrightarrow> in_rect (dp_picCropRect dec) (x, y)"
  using swap_rect_px [OF swap_mode_px(2) [OF assms(1-3)] assms(6-10), of rot x y] assms(4,5,11)
  by (simp add: swapCropRect_def swap_mode_px(1) [OF assms(1-3)])

theorem swap_crop_pixels_witness:
  "in_rect (swapCropRect \<lparr>DIR_NONE = 0, DIR_VER = 1, DIR_HOR = 2, DIR_HOR_VER = 3\<rparr>
       \<lparr>dp_picwidth = 320, dp_picheight = 144, dp_stride = 320, dp_mjpg_fmt = 0,
         dp_picCropRect = \<lparr>r_left = 0, r_top = 8, r_right = 320, r_bottom = 136\<rparr>, dp_tiled2LinearEnable = 0,
         dp_cmdl = cmd_zero\<lparr>cl_rot_en := 1, cl_rot_angle := 90, cl_mirror := 2\<rparr>\<rparr>
       \<lparr>r_left = 0, r_top = 0, r_right = 0, r_bottom = 0\<rparr>) (10, 20)"
proof -
  let ?md = "\<lparr>DIR_NONE = 0, DIR_VER = 1, DIR_HOR = 2, DIR_HOR_VER = 3\<rparr>"
  let ?dec = "\<lparr>dp_picwidth = 320, dp_picheight = 144, dp_stride = 320, dp_mjpg_fmt = 0,
         dp_picCropRect = \<lparr>r_left = 0, r_top = 8, r_right = 320, r_bottom = 136\<rparr>, dp_tiled2LinearEnable = 0,
         dp_cmdl = cmd_zero\<lparr>cl_rot_en := 1, cl_rot_angle := 90, cl_mirror := 2\<rparr>\<rparr>"
  show ?thesis
    using swap_crop_pixels [of ?md ?dec 320 144 "\<lparr>r_left = 0, r_top = 0, r_right = 0, r_bottom = 0\<rparr>" 20 10]
    by (simp add: dirs_ok_def rect_ok_def rect_any_def mirror_px_def rotated_size_def rotate_px_def in_rect_def)
qed

end
