(* ===== verification/Dec_Output.thy ===== *)
theory Dec_Output
  imports Dec_Crop Vpu_Io Vpu_Fb
begin

unbundle bit_operations_syntax

text \<open>
  Writing a decoded picture to the output file (\<^verbatim>\<open>src/test/mxc_vpu_test/dec.c\<close>: \<open>saveNV12ImageHelper\<close>,
  \<open>saveCropYuvImageHelper\<close>, \<open>SaveTiledYuvImageHelper\<close>, \<open>write_to_file\<close>; the build without the VTS probes). A pointer into a frame
  buffer is the memory from there on, given by \<open>mem_at\<close> for a virtual address. The products
  that make up the sizes are of type \<open>int\<close>; one that leaves its range is undefined behaviour. Which calls of \<open>malloc\<close> succeed is a schedule.
\<close>

record out_lib =
  STD_MJPG :: int
  LINEAR_FRAME_MAP :: int
  is_mx6x :: bool
  GetXY2AXIAddr :: "int \<Rightarrow> int \<Rightarrow> int \<Rightarrow> int \<Rightarrow> u32 \<Rightarrow> u32 \<Rightarrow> u32 \<Rightarrow> u32"

record out_world =
  ow_dst :: wfile
  ow_malloc :: "bool list"
  ow_live :: int
  ow_junk :: u8

definition out_alloc :: "int \<Rightarrow> out_world \<Rightarrow> u8 list option \<times> out_world" where
  "out_alloc n w =
     (let ok = (case ow_malloc w of [] \<Rightarrow> True | b # _ \<Rightarrow> b); w' = w\<lparr>ow_malloc := tl (ow_malloc w)\<rparr>
      in if ok then (Some (replicate (nat n) (ow_junk w)), w'\<lparr>ow_live := ow_live w' + 1\<rparr>) else (None, w'))"

text \<open>\<open>fwriten\<close> to the output; a null pointer makes the first \<open>write\<close> fail.\<close>

definition out_write :: "u8 list option \<Rightarrow> int \<Rightarrow> out_world \<Rightarrow> out_world run" where
  "out_write buf n w = (case buf of None \<Rightarrow> Done w
     | Some m \<Rightarrow> run_bind (fwriten (ow_dst w) m n) (\<lambda>(r, f). Done (w\<lparr>ow_dst := f\<rparr>)))"

section \<open>Interleaved chroma\<close>

function nv12_row :: "u8 list \<Rightarrow> int \<Rightarrow> int \<Rightarrow> int \<Rightarrow> u8 list \<times> int \<times> int \<Rightarrow> (u8 list \<times> int \<times> int) run" where
  "nv12_row buf tmp w x (p, cb, cr) =
     (if x < w then
        (case (c_nth buf (tmp + x), c_nth buf (tmp + x + 1)) of
           (Some a, Some b) \<Rightarrow>
             (case c_upd p cb a of
                None \<Rightarrow> Undef
              | Some p1 \<Rightarrow> (case c_upd p1 cr b of
                  None \<Rightarrow> Undef
                | Some p2 \<Rightarrow> nv12_row buf tmp w (x + 2) (p2, cb + 1, cr + 1)))
         | _ \<Rightarrow> Undef)
      else Done (p, cb, cr))"
  by pat_completeness auto
termination by (relation "measure (\<lambda>(buf, tmp, w, x, st). nat (w - x))") auto

function nv12_rows :: "u8 list \<Rightarrow> int \<Rightarrow> int \<Rightarrow> int \<Rightarrow> int \<Rightarrow> u8 list \<times> int \<times> int \<Rightarrow> (u8 list \<times> int \<times> int) run" where
  "nv12_rows buf cb0 w n y st =
     (if y < n then run_bind (nv12_row buf (cb0 + w * y) w 0 st) (nv12_rows buf cb0 w n (y + 1)) else Done st)"
  by pat_completeness auto
termination by (relation "measure (\<lambda>(buf, cb0, w, n, y, st). nat (n - y))") auto

declare nv12_row.simps [simp del] nv12_rows.simps [simp del]

definition saveNV12ImageHelper :: "u8 list option \<Rightarrow> decode_pic \<Rightarrow> u8 list \<Rightarrow> u8 list option run" where
  "saveNV12ImageHelper pYuv dec buf =
     (case pYuv of
        None \<Rightarrow> Done None
      | Some p \<Rightarrow>
          run_bind (c_int (dp_stride dec * dp_picheight dec)) (\<lambda>img_size.
            (case c_slice buf 0 img_size of
                None \<Rightarrow> Undef
              | Some ys \<Rightarrow>
                  (case c_store p 0 ys of
                     None \<Rightarrow> Undef
                   | Some p1 \<Rightarrow>
                       run_bind (nv12_rows buf img_size (dp_picwidth dec) (dp_picheight dec sdiv 2) 0
                                   (p1, img_size, img_size + drop_bit 2 img_size))
                         (\<lambda>(p2, cb, cr). Done (Some p2))))))"

section \<open>Cropping\<close>

function crop_rows :: "u8 list \<Rightarrow> int \<Rightarrow> int \<Rightarrow> int \<Rightarrow> int \<Rightarrow> int \<Rightarrow> out_world \<Rightarrow> out_world run" where
  "crop_rows buf step cw n i off w =
     (if i < n then
        (if off < 0 then Undef
         else run_bind (out_write (Some (drop (nat off) buf)) cw w) (crop_rows buf step cw n (i + 1) (off + step)))
      else Done w)"
  by pat_completeness auto
termination by (relation "measure (\<lambda>(buf, step, cw, n, i, off, w). nat (n - i))") auto

declare crop_rows.simps [simp del]

definition pic_rotated :: "cmd_line \<Rightarrow> bool" where
  "pic_rotated cmd \<longleftrightarrow> cl_rot_en cmd \<noteq> 0 \<and> (cl_rot_angle cmd = 90 \<or> cl_rot_angle cmd = 270)"

definition saveCropYuvImageHelper :: "out_lib \<Rightarrow> decode_pic \<Rightarrow> u8 list option \<Rightarrow> rect \<Rightarrow> out_world \<Rightarrow> out_world run" where
  "saveCropYuvImageHelper lib dec bufp crop w =
     (case bufp of None \<Rightarrow> Done w | Some buf \<Rightarrow>
        (let (width, height) = (if pic_rotated (dp_cmdl dec) then (dp_picheight dec, dp_picwidth dec)
                                else (dp_picwidth dec, dp_picheight dec));
             cropWidth = s32 (r_right crop - r_left crop);
             cropHeight = s32 (r_bottom crop - r_top crop)
         in run_bind (crop_rows buf width cropWidth cropHeight 0
                        (uint (word_of_int width * r_top crop) + uint (r_left crop)) w) (\<lambda>w1.
              if cl_format (dp_cmdl dec) = STD_MJPG lib \<and> dp_mjpg_fmt dec = MODE400 then Done w1
              else
                (let cw = cropWidth sdiv 2; ch = cropHeight sdiv 2;
                     off = uint (word_of_int (width sdiv 2) * (r_top crop div 2)) + uint (r_left crop div 2)
                 in run_bind (c_int (width * height)) (\<lambda>size.
                    run_bind (crop_rows buf (width sdiv 2) cw ch 0 (size + off) w1) (\<lambda>w2.
                    run_bind (c_int (size * 5)) (\<lambda>size5.
                      crop_rows buf (width sdiv 2) cw ch 0 (size5 sdiv 4 + off) w2)))))))"

section \<open>Tiled pictures\<close>

function tiled_luma :: "(int \<Rightarrow> int \<Rightarrow> u8 list) \<Rightarrow> int \<Rightarrow> int \<Rightarrow> int \<Rightarrow> u8 list \<Rightarrow> u8 list run" where
  "tiled_luma px w y x p =
     (if x < w then
        (case c_slice (px y x) 0 8 of
           None \<Rightarrow> Undef
         | Some b \<Rightarrow> (case c_store p (y * w + x) b of None \<Rightarrow> Undef | Some p' \<Rightarrow> tiled_luma px w y (x + 8) p'))
      else Done p)"
  by pat_completeness auto
termination by (relation "measure (\<lambda>(px, w, y, x, p). nat (w - x))") auto

function tiled_luma_rows :: "(int \<Rightarrow> int \<Rightarrow> u8 list) \<Rightarrow> int \<Rightarrow> int \<Rightarrow> int \<Rightarrow> u8 list \<Rightarrow> u8 list run" where
  "tiled_luma_rows px w n y p =
     (if y < n then run_bind (tiled_luma px w y 0 p) (tiled_luma_rows px w n (y + 1)) else Done p)"
  by pat_completeness auto
termination by (relation "measure (\<lambda>(px, w, n, y, p). nat (n - y))") auto

text \<open>Four pairs of the eight bytes.\<close>

fun tiled_pairs :: "nat \<Rightarrow> u8 list \<Rightarrow> u8 list \<times> int \<times> int \<Rightarrow> (u8 list \<times> int \<times> int) run" where
  "tiled_pairs 0 t st = Done st"
| "tiled_pairs (Suc j) t (p, cb, cr) =
     (case (c_nth t 0, c_nth t 1) of
        (Some a, Some b) \<Rightarrow>
          (case c_upd p cb a of
             None \<Rightarrow> Undef
           | Some p1 \<Rightarrow> (case c_upd p1 cr b of None \<Rightarrow> Undef | Some p2 \<Rightarrow> tiled_pairs j (drop 2 t) (p2, cb + 1, cr + 1)))
      | _ \<Rightarrow> Undef)"

function tiled_chroma :: "(int \<Rightarrow> int \<Rightarrow> u8 list) \<Rightarrow> int \<Rightarrow> int \<Rightarrow> int \<Rightarrow> u8 list \<times> int \<times> int \<Rightarrow> (u8 list \<times> int \<times> int) run" where
  "tiled_chroma px w y x st =
     (if x < w then
        (case c_slice (px y x) 0 8 of
           None \<Rightarrow> Undef
         | Some t \<Rightarrow> run_bind (tiled_pairs 4 t st) (tiled_chroma px w y (x + 8)))
      else Done st)"
  by pat_completeness auto
termination by (relation "measure (\<lambda>(px, w, y, x, st). nat (w - x))") auto

function tiled_chroma_rows :: "(int \<Rightarrow> int \<Rightarrow> u8 list) \<Rightarrow> int \<Rightarrow> int \<Rightarrow> int \<Rightarrow> u8 list \<times> int \<times> int \<Rightarrow> (u8 list \<times> int \<times> int) run" where
  "tiled_chroma_rows px w n y st =
     (if y < n then run_bind (tiled_chroma px w y 0 st) (tiled_chroma_rows px w n (y + 1)) else Done st)"
  by pat_completeness auto
termination by (relation "measure (\<lambda>(px, w, n, y, st). nat (n - y))") auto

declare tiled_luma.simps [simp del] tiled_luma_rows.simps [simp del] tiled_chroma.simps [simp del] tiled_chroma_rows.simps [simp del]

definition SaveTiledYuvImageHelper ::
    "out_lib \<Rightarrow> (u32 \<Rightarrow> u8 list) \<Rightarrow> decode_pic \<Rightarrow> int \<Rightarrow> int \<Rightarrow> frame_buf \<Rightarrow> out_world \<Rightarrow> (int \<times> out_world) run" where
  "SaveTiledYuvImageHelper lib mem_at dec picWidth0 picHeight0 pfb w =
     run_bind (c_int (picWidth0 * picHeight0)) (\<lambda>pixels. run_bind (c_int (pixels * 3)) (\<lambda>pixels3.
     (let frameSize = pixels3 sdiv 2; (pYuv, w1) = out_alloc frameSize w
      in case pYuv of
           None \<Rightarrow> Done (-1, w1)
         | Some p \<Rightarrow>
             (let (picWidth, picHeight) = (if pic_rotated (dp_cmdl dec) then (picHeight0, picWidth0) else (picWidth0, picHeight0));
                  px = (\<lambda>comp y x. mem_at (GetXY2AXIAddr lib comp y x picWidth (addrY pfb) (addrCb pfb) (addrCr pfb)
                          + (md_virt_uaddr (desc pfb) - md_phy_addr (desc pfb))))
              in run_bind (tiled_luma_rows (px 0) picWidth picHeight 0 p) (\<lambda>p1.
                 run_bind (c_int (pixels * 5)) (\<lambda>pixels5.
                 run_bind (tiled_chroma_rows (px 2) picWidth (picHeight sdiv 2) 0
                             (p1, pixels, pixels5 sdiv 4)) (\<lambda>(p2, cb, cr).
                 run_bind (out_write (Some p2) frameSize w1) (\<lambda>w2.
                   Done (0, w2\<lparr>ow_live := ow_live w2 - 1\<rparr>)))))))))"

section \<open>The picture\<close>

text \<open>The size of a 4:2:0 picture is computed first, whatever the format.\<close>

definition pic_size :: "out_lib \<Rightarrow> decode_pic \<Rightarrow> int \<Rightarrow> int run" where
  "pic_size lib dec height =
     run_bind (c_int (dp_stride dec * height)) (\<lambda>size. run_bind (c_int (size * 3)) (\<lambda>size3.
     (let fmt = dp_mjpg_fmt dec
      in if cl_format (dp_cmdl dec) = STD_MJPG lib then
           if fmt = MODE422 \<or> fmt = MODE224 then c_int (size * 2)
           else if fmt = MODE400 then Done size
           else if fmt = MODE444 then Done size3
           else Done (size3 sdiv 2)
         else Done (size3 sdiv 2))))"

definition out_free :: "u8 list option \<Rightarrow> out_world \<Rightarrow> out_world" where
  "out_free p w = (case p of None \<Rightarrow> w | Some _ \<Rightarrow> w\<lparr>ow_live := ow_live w - 1\<rparr>)"

definition write_to_file ::
    "out_lib \<Rightarrow> (u32 \<Rightarrow> u8 list) \<Rightarrow> decode_pic \<Rightarrow> rect \<Rightarrow> frame_buf \<Rightarrow> out_world \<Rightarrow> out_world run" where
  "write_to_file lib mem_at dec crop pfb w =
     run_bind (c_int (dp_picheight dec + 15)) (\<lambda>height15.
     (let height = height15 AND NOT 15;
          cmd = dp_cmdl dec;
          cropping = rect_any crop \<noteq> 0
      in if is_mx6x lib \<and> cl_mapType cmd \<noteq> LINEAR_FRAME_MAP lib \<and> dp_tiled2LinearEnable dec = 0 then
           run_bind (SaveTiledYuvImageHelper lib mem_at dec (dp_stride dec) height pfb w) (\<lambda>(r, w1). Done w1)
         else
           (let buf = mem_at (addrY pfb + md_virt_uaddr (desc pfb) - md_phy_addr (desc pfb))
            in run_bind (pic_size lib dec height) (\<lambda>img_size.
               if cl_chromaInterleave cmd = 0 \<and> \<not> cropping \<or> cl_format cmd = STD_MJPG lib then
                 out_write (Some buf) img_size w
               else
                 run_bind
                   (if cl_chromaInterleave cmd \<noteq> 0 then
                      (let (p, w1) = out_alloc img_size w
                       in run_bind (saveNV12ImageHelper p dec buf) (\<lambda>p1. Done (p1, w1)))
                    else Done (None, w))
                   (\<lambda>(pYuv0, w1).
                      if cropping then
                        (case pYuv0 of
                           None \<Rightarrow> (let (p, w2) = out_alloc img_size w1
                                    in run_bind (saveCropYuvImageHelper lib dec (Some buf) crop w2) (\<lambda>w3. Done (out_free p w3)))
                         | Some _ \<Rightarrow> run_bind (saveCropYuvImageHelper lib dec pYuv0 crop w1) (\<lambda>w2. Done (out_free pYuv0 w2)))
                      else run_bind (out_write pYuv0 img_size w1) (\<lambda>w2. Done (out_free pYuv0 w2)))))))"

section \<open>Converting interleaved chroma\<close>

text \<open>The picture with the two chroma planes apart: the luma plane, then the even and the odd bytes after it.\<close>

definition deinterleave :: "nat \<Rightarrow> u8 list \<Rightarrow> u8 list" where
  "deinterleave A buf = take A buf @ map (\<lambda>i. buf ! (A + 2 * i)) [0..<A div 4] @ map (\<lambda>i. buf ! (A + 2 * i + 1)) [0..<A div 4]"

text \<open>What the loops have done after \<open>n\<close> pairs.\<close>

definition nv12_upto :: "u8 list \<Rightarrow> nat \<Rightarrow> nat \<Rightarrow> nat \<Rightarrow> u8 list \<Rightarrow> bool" where
  "nv12_upto buf A K n p \<longleftrightarrow> take A p = take A buf \<and> A + 2 * K \<le> length p \<and>
     (\<forall>i<n. p ! (A + i) = buf ! (A + 2 * i) \<and> p ! (A + K + i) = buf ! (A + 2 * i + 1))"

lemma nv12_upto_step:
  assumes "nv12_upto buf A K n p" and "n < K"
  shows "nv12_upto buf A K (Suc n) (p[A + n := buf ! (A + 2 * n), A + K + n := buf ! (A + 2 * n + 1)])"
  using assms by (auto simp: nv12_upto_def less_Suc_eq nth_list_update)

lemma nv12_row_upto:
  assumes "nv12_upto buf A K n p" and "n + k \<le> K" and "A + 2 * K \<le> length buf" and "tmp + x = A + 2 * n" and "w = x + 2 * k"
  obtains p' where "nv12_row buf (int tmp) (int w) (int x) (p, int (A + n), int (A + K + n)) =
      Done (p', int (A + (n + k)), int (A + K + (n + k)))"
    and "nv12_upto buf A K (n + k) p'" and "length p' = length p"
  using assms
proof (induction k arbitrary: n p x thesis)
  case 0
  show ?case by (rule "0.prems"(1)) (use "0.prems" in \<open>simp_all add: nv12_row.simps\<close>)
next
  case (Suc k)
  let ?p = "p[A + n := buf ! (A + 2 * n), A + K + n := buf ! (A + 2 * n + 1)]"
  have len: "A + 2 * K \<le> length p" using Suc.prems(2) by (simp add: nv12_upto_def)
  have pos: "int tmp + int x = int (A + 2 * n)" "int (A + 2 * n) + 1 = int (A + 2 * n + 1)"
    using Suc.prems(5) by linarith+
  have nx: "nv12_upto buf A K (Suc n) ?p" using nv12_upto_step [OF Suc.prems(2)] Suc.prems(3) by simp
  have rd: "c_nth buf (int (A + 2 * n)) = Some (buf ! (A + 2 * n))" "c_nth buf (int (A + 2 * n + 1)) = Some (buf ! (A + 2 * n + 1))"
    using Suc.prems(3,4) by (intro c_nth_nat; linarith)+
  have wr: "c_upd p (int (A + n)) a = Some (p[A + n := a])"
    "c_upd (p[A + n := a]) (int (A + K + n)) b = Some (p[A + n := a, A + K + n := b])" for a b
    using Suc.prems(3) len by (intro c_upd_nat; simp only: length_list_update; linarith)+
  have step: "nv12_row buf (int tmp) (int w) (int x) (p, int (A + n), int (A + K + n)) =
      nv12_row buf (int tmp) (int w) (int (x + 2)) (?p, int (A + Suc n), int (A + K + Suc n))"
    using Suc.prems(6) by (subst nv12_row.simps, simp only: pos rd wr option.case prod.case) (simp add: algebra_simps)
  obtain p' where r: "nv12_row buf (int tmp) (int w) (int (x + 2)) (?p, int (A + Suc n), int (A + K + Suc n)) =
      Done (p', int (A + (Suc n + k)), int (A + K + (Suc n + k)))"
    and "nv12_upto buf A K (Suc n + k) p'" "length p' = length ?p"
    by (rule Suc.IH [OF _ nx]) (use Suc.prems in simp_all)
  moreover have "Suc n + k = n + Suc k" by simp
  ultimately show ?case using Suc.prems(1) [of p'] by (simp only: step length_list_update)
qed

lemma nv12_rows_upto:
  assumes "nv12_upto buf A K (v * y) p" and "v * (y + k) \<le> K" and "A + 2 * K \<le> length buf"
  obtains p' c r where "nv12_rows buf (int A) (int (2 * v)) (int (y + k)) (int y) (p, int (A + v * y), int (A + K + v * y)) = Done (p', c, r)"
    and "nv12_upto buf A K (v * (y + k)) p'" and "length p' = length p"
  using assms
proof (induction k arbitrary: y p thesis)
  case 0
  show ?case by (rule "0.prems"(1)) (use "0.prems" in \<open>simp_all add: nv12_rows.simps\<close>)
next
  case (Suc k)
  have le: "v * y + v \<le> K" using Suc.prems(3) by (simp add: algebra_simps)
  obtain p1 where r1: "nv12_row buf (int (A + 2 * v * y)) (int (2 * v)) (int 0) (p, int (A + v * y), int (A + K + v * y)) =
      Done (p1, int (A + (v * y + v)), int (A + K + (v * y + v)))" and u1: "nv12_upto buf A K (v * y + v) p1" and l1: "length p1 = length p"
    by (rule nv12_row_upto [where tmp = "A + 2 * v * y" and x = 0 and w = "2 * v", OF Suc.prems(2) le Suc.prems(4)]) simp_all
  obtain p' c r where r2: "nv12_rows buf (int A) (int (2 * v)) (int (Suc y + k)) (int (Suc y))
      (p1, int (A + v * Suc y), int (A + K + v * Suc y)) = Done (p', c, r)"
    and u2: "nv12_upto buf A K (v * (Suc y + k)) p'" and l2: "length p' = length p1"
    by (rule Suc.IH [of "Suc y" p1]) (use u1 Suc.prems(3,4) in \<open>simp_all add: add.commute\<close>)
  have "nv12_rows buf (int A) (int (2 * v)) (int (y + Suc k)) (int y) (p, int (A + v * y), int (A + K + v * y)) = Done (p', c, r)"
    using r1 r2 by (subst nv12_rows.simps) (simp add: algebra_simps)
  then show ?case by (rule Suc.prems(1)) (use u2 l1 l2 in simp_all)
qed

lemma nv12_complete:
  assumes "nv12_upto buf A (A div 4) (A div 4) p" and "4 dvd A" and "length p = A + A div 2" and "A \<le> length buf"
  shows "p = deinterleave A buf"
proof (rule nth_equalityI)
  have q: "A div 2 = A div 4 + A div 4" using assms(2) by auto
  show "length p = length (deinterleave A buf)" using assms(3,4) q by (simp add: deinterleave_def)
  fix i assume i: "i < length p"
  consider "i < A" | j where "j < A div 4" "i = A + j" | j where "j < A div 4" "i = A + A div 4 + j"
    using i assms(3) q by (metis add_diff_inverse_nat less_diff_conv2 not_less nat_add_left_cancel_less add.assoc)
  then show "p ! i = deinterleave A buf ! i"
  proof cases
    case 1
    then have "p ! i = take A p ! i" by simp
    also have "\<dots> = take A buf ! i" using assms(1) by (simp add: nv12_upto_def)
    finally show ?thesis using 1 assms(4) by (simp add: deinterleave_def nth_append)
  next
    case (2 j)
    then show ?thesis using assms(1,4) by (simp add: deinterleave_def nth_append nv12_upto_def)
  next
    case (3 j)
    then show ?thesis using assms(1,4) by (simp add: deinterleave_def nth_append nv12_upto_def)
  qed
qed

lemma saveNV12_correct:
  assumes "dp_stride dec = 2 * int v" and "dp_picwidth dec = 2 * int v" and "dp_picheight dec = 2 * int h"
    and "A = 4 * v * h" and "A < 2 ^ 31" and "length p = A + A div 2" and "A + A div 2 \<le> length buf"
  shows "saveNV12ImageHelper (Some p) dec buf = Done (Some (deinterleave A buf))"
proof -
  let ?K = "A div 4"
  let ?p = "take A buf @ drop A p"
  have A: "A div 2 = 2 * ?K" "?K = v * h" "dp_stride dec * dp_picheight dec = int A" using assms(1,3,4) by simp_all
  have u0: "nv12_upto buf A ?K (v * 0) ?p" using assms(6,7) A by (simp add: nv12_upto_def)
  obtain p' c r where rows: "nv12_rows buf (int A) (int (2 * v)) (int (0 + h)) (int 0)
      (?p, int (A + v * 0), int (A + ?K + v * 0)) = Done (p', c, r)"
    and u: "nv12_upto buf A ?K (v * (0 + h)) p'" and l: "length p' = length ?p"
    by (rule nv12_rows_upto [OF u0, of h]) (use assms(7) A in simp_all)
  have "A \<le> length buf" using assms(7) by linarith
  moreover have "length p' = A + A div 2" using l assms(6) \<open>A \<le> length buf\<close> by simp
  moreover have "4 dvd A" unfolding assms(4) by (simp add: mult.assoc)
  moreover have "nv12_upto buf A (A div 4) (A div 4) p'" using u A(2) by simp
  ultimately have "p' = deinterleave A buf" by (intro nv12_complete)
  moreover have "drop_bit 2 (int A) = int ?K" by (simp add: drop_bit_int_def zdiv_int)
  moreover have "dp_picheight dec sdiv 2 = int h" by (simp add: assms(3) sdiv_nonneg)
  ultimately show ?thesis
    using rows assms(2,5,6,7) unfolding saveNV12ImageHelper_def A(3) c_int_of_nat
    by (simp add: Let_def c_slice_Some c_store_Some)
qed

section \<open>What is written\<close>

definition out_adds :: "out_world \<Rightarrow> u8 list \<Rightarrow> out_world \<Rightarrow> bool" where
  "out_adds w bs w' \<longleftrightarrow> wf_data (ow_dst w') = wf_data (ow_dst w) @ bs \<and> writes_succeed (ow_dst w') \<and>
     ow_live w' = ow_live w \<and> ow_malloc w' = ow_malloc w"

lemma out_adds_trans: "out_adds w bs w1 \<Longrightarrow> out_adds w1 cs w2 \<Longrightarrow> out_adds w (bs @ cs) w2"
  by (simp add: out_adds_def)

lemma out_write_adds:
  assumes "writes_succeed (ow_dst w)" and "n \<le> length m"
  obtains w' where "out_write (Some m) (int n) w = Done w'" and "out_adds w (take n m) w'"
  by (rule fwriten_succeeds [of "ow_dst w" "int n" m]) (use assms in \<open>auto simp: out_write_def out_adds_def\<close>)

text \<open>The rectangle of \<open>cw\<close> times \<open>ch\<close> pixels at \<open>(l, t)\<close> of the plane that starts at \<open>base\<close>.\<close>

definition crop_plane :: "u8 list \<Rightarrow> nat \<Rightarrow> nat \<Rightarrow> nat \<Rightarrow> nat \<Rightarrow> nat \<Rightarrow> nat \<Rightarrow> u8 list" where
  "crop_plane buf base stride l t cw ch =
     concat (map (\<lambda>y. map (\<lambda>x. buf ! (base + stride * y + x)) [l..<l + cw]) [t..<t + ch])"

lemma row_eq_slice:
  assumes "o' + cw \<le> length buf" and "o' = b + l"
  shows "map (\<lambda>x. buf ! (b + x)) [l..<l + cw] = take cw (drop o' buf)"
  by (rule nth_equalityI) (use assms in \<open>simp_all add: add.assoc\<close>)

lemma crop_rows_adds:
  assumes "writes_succeed (ow_dst w)" and "k = 0 \<or> base + stride * (y + k - 1) + l + cw \<le> length buf"
  obtains w' where "crop_rows buf (int stride) (int cw) (int (i + k)) (int i) (int (base + stride * y + l)) w = Done w'"
    and "out_adds w (crop_plane buf base stride l y cw k) w'"
  using assms
proof (induction k arbitrary: i y w thesis)
  case 0
  show ?case by (rule "0.prems"(1)) (use "0.prems"(2) in \<open>simp_all add: crop_rows.simps crop_plane_def out_adds_def\<close>)
next
  case (Suc k)
  have last: "base + stride * (y + k) + l + cw \<le> length buf" using Suc.prems(3) by simp
  then have here: "base + stride * y + l + cw \<le> length buf" by (simp add: add_mult_distrib2)
  obtain w1 where w1: "out_write (Some (drop (base + stride * y + l) buf)) (int cw) w = Done w1"
    and a1: "out_adds w (take cw (drop (base + stride * y + l) buf)) w1"
    by (rule out_write_adds [OF Suc.prems(2), of cw "drop (base + stride * y + l) buf"]) (use here in simp_all)
  obtain w2 where w2: "crop_rows buf (int stride) (int cw) (int (Suc i + k)) (int (Suc i)) (int (base + stride * Suc y + l)) w1 = Done w2"
    and a2: "out_adds w1 (crop_plane buf base stride l (Suc y) cw k) w2"
    by (rule Suc.IH [where w = w1 and y = "Suc y" and i = "Suc i"]) (use a1 last in \<open>auto simp: out_adds_def\<close>)
  have "crop_plane buf base stride l y cw (Suc k) =
      take cw (drop (base + stride * y + l) buf) @ crop_plane buf base stride l (Suc y) cw k"
    using row_eq_slice [OF here, of "base + stride * y"] by (simp add: crop_plane_def upt_conv_Cons del: upt_Suc)
  moreover have "crop_rows buf (int stride) (int cw) (int (i + Suc k)) (int i) (int (base + stride * y + l)) w = Done w2"
  proof -
    have eqs: "int i < int (Suc i + k)" "i + Suc k = Suc i + k" "int i + 1 = int (Suc i)"
      "int (base + stride * y + l) + int stride = int (base + stride * Suc y + l)" by simp_all
    show ?thesis
      by (subst crop_rows.simps) (simp only: eqs of_nat_less_0_iff if_True if_False nat_int w1 run_bind.simps w2)
  qed
  ultimately show ?case using Suc.prems(1) [of w2] out_adds_trans [OF a1 a2] by simp
qed

text \<open>The cropped picture of a planar 4:2:0 picture.\<close>

definition crop_420 :: "u8 list \<Rightarrow> nat \<Rightarrow> nat \<Rightarrow> rect \<Rightarrow> u8 list" where
  "crop_420 pic W H crop =
     (let l = unat (r_left crop); t = unat (r_top crop); cw = unat (r_right crop) - l; ch = unat (r_bottom crop) - t
      in crop_plane pic 0 W l t cw ch
         @ crop_plane pic (W * H) (W div 2) (l div 2) (t div 2) (cw div 2) (ch div 2)
         @ crop_plane pic (W * H + W div 2 * (H div 2)) (W div 2) (l div 2) (t div 2) (cw div 2) (ch div 2))"

lemma s32_diff:
  assumes "a \<le> (b :: u32)" and "uint b < 2 ^ 31"
  shows "s32 (b - a) = int (unat b - unat a)"
proof -
  have "unat a \<le> unat b" using assms(1) by (simp add: word_le_nat_alt)
  moreover have u: "uint (b - a) = uint b - uint a" using assms(1) by (simp add: uint_minus_simple_alt)
  then have "uint (b - a) < 2 ^ 31" using assms(2) by (smt (verit) unsigned_greater_eq)
  then have "s32 (b - a) = uint (b - a)" using s32_of_int [of "uint (b - a)"] order_trans [OF _ unsigned_greater_eq [of "b - a", where ?'a = int], of "- (2 ^ 31)"]
    by (simp add: int32_def)
  ultimately show ?thesis using u by (simp add: of_nat_diff)
qed

lemma uint_mult_fits:
  assumes "W * unat (t :: u32) < 2 ^ 32"
  shows "uint (word_of_int (int W) * t) = int (W * unat t)"
proof -
  have "uint (word_of_int (int (W * unat t)) :: u32) = take_bit 32 (int (W * unat t))" by (simp only: uint_word_of_int_eq len_num1 len_bit0) simp
  also have "\<dots> = int (W * unat t)"
  proof (rule take_bit_int_eq_self)
    show "int (W * unat t) < 2 ^ 32" using assms by (metis of_nat_less_iff of_nat_numeral of_nat_power)
  qed simp
  finally show ?thesis by (simp only: of_nat_mult wi_hom_mult [symmetric] uint_nat [symmetric] word_of_int_uint)
qed

lemma rect_fits:
  assumes "l + c \<le> W" and "t + h \<le> (H :: nat)" and "B + W * H \<le> n"
  shows "h = 0 \<or> B + W * (t + h - 1) + l + c \<le> n"
proof (cases h)
  case (Suc k)
  then have "W * (t + k) + W \<le> W * H" using assms(2) mult_le_mono2 [of "Suc (t + k)" H W] by simp
  then show ?thesis using Suc assms(1,3) by simp
qed simp

lemma rect_ok_nat:
  assumes "rect_ok (int W) (int H) crop"
  shows "unat (r_left crop) \<le> unat (r_right crop)" "unat (r_right crop) \<le> W"
    "unat (r_top crop) \<le> unat (r_bottom crop)" "unat (r_bottom crop) \<le> H"
  using assms by (simp_all add: rect_ok_def word_le_nat_alt nat_le_iff flip: nat_uint_eq)

text \<open>The helper is three loops over the rows of the planes, unless the offset of the last plane overflows.\<close>

lemma saveCrop_planes:
  fixes crop
  defines "l \<equiv> unat (r_left crop)" and "t \<equiv> unat (r_top crop)"
    and "cw \<equiv> unat (r_right crop) - unat (r_left crop)" and "ch \<equiv> unat (r_bottom crop) - unat (r_top crop)"
  assumes "cl_format (dp_cmdl dec) \<noteq> STD_MJPG lib"
    and "(if pic_rotated (dp_cmdl dec) then (dp_picheight dec, dp_picwidth dec) else (dp_picwidth dec, dp_picheight dec)) = (int W, int H)"
    and "W = 2 * v" and "H = 2 * h" and "W * H < 2 ^ 31" and "W < 2 ^ 31 \<and> H < 2 ^ 31" and "rect_ok (int W) (int H) crop"
  shows "saveCropYuvImageHelper lib dec (Some pic) crop w =
    run_bind (crop_rows pic (int W) (int cw) (int (0 + ch)) (int 0) (int (0 + W * t + l)) w) (\<lambda>w1.
    run_bind (crop_rows pic (int v) (int (cw div 2)) (int (0 + ch div 2)) (int 0) (int (W * H + v * (t div 2) + l div 2)) w1) (\<lambda>w2.
      if W * H * 5 < 2 ^ 31
      then crop_rows pic (int v) (int (cw div 2)) (int (0 + ch div 2)) (int 0) (int (W * H + v * h + v * (t div 2) + l div 2)) w2
      else Undef))"
proof -
  have "W * t < 2 ^ 31"
    using rect_ok_nat [OF assms(11)] mult_le_mono2 [of t H W] assms(9) unfolding t_def by linarith
  moreover have "v * (t div 2) \<le> W * t" by (rule mult_le_mono) (simp_all add: assms(7))
  ultimately have bnd: "W * unat (r_top crop) < 2 ^ 32" "v * unat (r_top crop div 2) < 2 ^ 32" by (simp_all add: t_def unat_div)
  have cd: "s32 (r_right crop - r_left crop) = int cw" "s32 (r_bottom crop - r_top crop) = int ch"
    unfolding cw_def ch_def by (intro s32_diff; use assms(10,11) in \<open>simp add: rect_ok_def\<close>)+
  have half: "int W sdiv 2 = int v" "int cw sdiv 2 = int (cw div 2)" "int ch sdiv 2 = int (ch div 2)"
    "int (W * H * 5) sdiv 4 = int (W * H + v * h)"
    by (simp_all add: sdiv_nonneg assms(7,8) zdiv_int)
  have off: "uint (word_of_int (int W) * r_top crop) + uint (r_left crop) = int (0 + W * t + l)"
    "int (W * H) + (uint (word_of_int (int v) * (r_top crop div 2)) + uint (r_left crop div 2)) = int (W * H + v * (t div 2) + l div 2)"
    "int (W * H + v * h) + (uint (word_of_int (int v) * (r_top crop div 2)) + uint (r_left crop div 2)) = int (W * H + v * h + v * (t div 2) + l div 2)"
    unfolding uint_mult_fits [OF bnd(1)] uint_mult_fits [OF bnd(2)]
    by (simp_all add: unat_div uint_div zdiv_int t_def l_def)
  have size: "c_int (int W * int H) = Done (int (W * H))"
    "c_int (int (W * H) * 5) = (if W * H * 5 < 2 ^ 31 then Done (int (W * H * 5)) else Undef)"
    using c_int_of_nat [of "W * H"] c_int_of_nat [of "W * H * 5"] assms(9) by simp_all
  have bind_if: "run_bind (if b then Done x else Undef) f = (if b then f x else Undef)" for b x and f :: "int \<Rightarrow> out_world run"
    by simp
  show ?thesis
    unfolding saveCropYuvImageHelper_def option.case assms(6) prod.case cd half Let_def
    using assms(5) by (simp only: off size run_bind.simps bind_if half) (simp cong: if_cong)
qed

lemma saveCrop_adds:
  assumes "cl_format (dp_cmdl dec) \<noteq> STD_MJPG lib" and "writes_succeed (ow_dst w)"
    and "(if pic_rotated (dp_cmdl dec) then (dp_picheight dec, dp_picwidth dec) else (dp_picwidth dec, dp_picheight dec)) = (int W, int H)"
    and "even W" and "even H" and "W * H < 2 ^ 31" and "W < 2 ^ 31 \<and> H < 2 ^ 31" and "rect_ok (int W) (int H) crop"
    and "W * H + W * H div 2 \<le> length pic"
  shows "if W * H * 5 < 2 ^ 31
    then \<exists>w'. saveCropYuvImageHelper lib dec (Some pic) crop w = Done w' \<and> out_adds w (crop_420 pic W H crop) w'
    else saveCropYuvImageHelper lib dec (Some pic) crop w = Undef"
proof -
  let ?l = "unat (r_left crop)" and ?t = "unat (r_top crop)" and ?r = "unat (r_right crop)" and ?b = "unat (r_bottom crop)"
  let ?cw = "?r - ?l" and ?ch = "?b - ?t"
  note lr = rect_ok_nat [OF assms(8)]
  obtain v h where vh: "W = 2 * v" "H = 2 * h" using assms(4,5) by (elim evenE)
  have c: "W * H + v * h \<le> length pic" "W * H + v * h + v * h \<le> length pic" using assms(9) by (simp_all add: vh)
  have luma: "?ch = 0 \<or> 0 + W * (?t + ?ch - 1) + ?l + ?cw \<le> length pic"
    by (rule rect_fits [where H = H]) (use lr assms(9) in linarith)+
  have chroma: "?ch div 2 = 0 \<or> B + v * (?t div 2 + ?ch div 2 - 1) + ?l div 2 + ?cw div 2 \<le> length pic"
    if "B + v * h \<le> length pic" for B
    by (rule rect_fits [where H = h]) (use lr that vh in linarith)+
  obtain w1 where w1: "crop_rows pic (int W) (int ?cw) (int (0 + ?ch)) (int 0) (int (0 + W * ?t + ?l)) w = Done w1"
    and a1: "out_adds w (crop_plane pic 0 W ?l ?t ?cw ?ch) w1"
    by (rule crop_rows_adds [OF assms(2) luma])
  have s1: "writes_succeed (ow_dst w1)" using a1 by (simp add: out_adds_def)
  obtain w2 where w2: "crop_rows pic (int v) (int (?cw div 2)) (int (0 + ?ch div 2)) (int 0) (int (W * H + v * (?t div 2) + ?l div 2)) w1 = Done w2"
    and a2: "out_adds w1 (crop_plane pic (W * H) v (?l div 2) (?t div 2) (?cw div 2) (?ch div 2)) w2"
    by (rule crop_rows_adds [OF s1 chroma [OF c(1)]])
  have s2: "writes_succeed (ow_dst w2)" using a2 by (simp add: out_adds_def)
  obtain w3 where w3: "crop_rows pic (int v) (int (?cw div 2)) (int (0 + ?ch div 2)) (int 0) (int (W * H + v * h + v * (?t div 2) + ?l div 2)) w2 = Done w3"
    and a3: "out_adds w2 (crop_plane pic (W * H + v * h) v (?l div 2) (?t div 2) (?cw div 2) (?ch div 2)) w3"
    by (rule crop_rows_adds [OF s2 chroma [OF c(2)]])
  note planes = saveCrop_planes [OF assms(1,3) vh assms(6-8), of pic w, unfolded w1 run_bind.simps w2 w3]
  have "out_adds w (crop_420 pic W H crop) w3"
    using out_adds_trans [OF a1 out_adds_trans [OF a2 a3]] by (simp add: crop_420_def vh Let_def)
  then show ?thesis unfolding planes using w3 by simp
qed

lemma out_alloc_succeeds:
  assumes "\<forall>b\<in>set (ow_malloc w). b"
  obtains w' where "out_alloc n w = (Some (replicate (nat n) (ow_junk w)), w')" and "ow_live w' = ow_live w + 1" and "ow_dst w' = ow_dst w"
    and "\<forall>b\<in>set (ow_malloc w'). b"
proof (cases "ow_malloc w")
  case Nil
  then show thesis using that by (simp add: out_alloc_def)
next
  case (Cons b bs)
  then have "b" and bs: "\<forall>b\<in>set bs. b" using assms by auto
  then show thesis using that [of "w\<lparr>ow_malloc := bs, ow_live := ow_live w + 1\<rparr>"] Cons by (simp only: out_alloc_def) simp
qed

lemma align16_mult: "16 dvd n \<Longrightarrow> ((n :: int) + 15) AND NOT 15 = n"
proof -
  assume "16 dvd n"
  then obtain k where k: "n = 16 * k" ..
  have "(n + 15) AND NOT (mask 4) = push_bit 4 (drop_bit 4 (n + 15))"
    by (rule bit_eqI) (auto simp: bit_simps)
  also have "\<dots> = n" unfolding k by (simp add: push_bit_int_def drop_bit_int_def)
  finally show ?thesis by (simp add: mask_eq_exp_minus_1)
qed

lemma length_deinterleave: "4 dvd A \<Longrightarrow> A \<le> length buf \<Longrightarrow> length (deinterleave A buf) = A + A div 2"
  by (auto simp: deinterleave_def)

lemma even_dims:
  assumes "(if pic_rotated (dp_cmdl dec) then (dp_picheight dec, dp_picwidth dec) else (dp_picwidth dec, dp_picheight dec)) = (int W, int H)"
    and "even (dp_picwidth dec)" and "16 dvd dp_picheight dec"
  obtains v h where "dp_picwidth dec = 2 * int v" and "dp_picheight dec = 2 * int h" and "W * H = 4 * v * h" and "even W" and "even H"
proof -
  have "even (dp_picheight dec)" by (rule dvd_trans [OF _ assms(3)]) simp
  then have ev: "even W" "even H" using assms(1,2) by (auto split: if_splits)
  then obtain a b where ab: "W = 2 * a" "H = 2 * b" by (elim evenE)
  show thesis
    by (cases "pic_rotated (dp_cmdl dec)") (use that [of b a] that [of a b] assms(1) ev in \<open>simp_all add: ab\<close>)
qed

text \<open>The whole function on a linear 4:2:0 picture; \<open>size_factor\<close> is the largest multiple of the luma plane it computes.\<close>

definition size_factor :: "rect \<Rightarrow> nat" where
  "size_factor crop = (if rect_any crop = 0 then 3 else 5)"

lemma pic_size_420:
  assumes "cl_format (dp_cmdl dec) \<noteq> STD_MJPG lib" and "dp_stride dec * height = int A" and "even A"
  shows "pic_size lib dec height = (if A * 3 < 2 ^ 31 then Done (int (A + A div 2)) else Undef)"
proof -
  obtain k where k: "A = 2 * k" using assms(3) by (elim evenE)
  have "c_int (int A * 3) = (if A * 3 < 2 ^ 31 then Done (int (A * 3)) else Undef)"
    using c_int_of_nat [of "A * 3"] by simp
  moreover have "int (A * 3) sdiv 2 = int (A + A div 2)" by (simp add: sdiv_nonneg zdiv_int k)
  ultimately show ?thesis using assms(1) by (simp add: pic_size_def assms(2) c_int_of_nat Let_def)
qed

text \<open>The picture that is too large even without cropping.\<close>

lemma write_to_file_too_large:
  assumes "\<not> (is_mx6x lib \<and> cl_mapType (dp_cmdl dec) \<noteq> LINEAR_FRAME_MAP lib \<and> dp_tiled2LinearEnable dec = 0)"
    and "(dp_picheight dec + 15) AND NOT 15 = height" and "pic_size lib dec height = Undef"
  shows "write_to_file lib mem_at dec crop pfb w = Undef"
proof -
  have "c_int (dp_picheight dec + 15) = Undef \<or> c_int (dp_picheight dec + 15) = Done (dp_picheight dec + 15)"
    by (simp add: c_int_def)
  then show ?thesis
    unfolding write_to_file_def Let_def if_not_P [OF assms(1)] by (elim disjE) (simp_all only: run_bind.simps assms(2,3))
qed

lemma height_fits:
  assumes "0 \<le> n" and "n < 2 ^ 31" and "16 dvd n"
  shows "c_int (n + 15) = Done (n + 15)"
  using assms by (auto simp: c_int_def int32_def elim!: dvdE)

text \<open>With memory for the temporary picture the function writes the planar picture, whole or cropped.\<close>

lemma write_to_file_sized:
  assumes "\<not> (is_mx6x lib \<and> cl_mapType (dp_cmdl dec) \<noteq> LINEAR_FRAME_MAP lib \<and> dp_tiled2LinearEnable dec = 0)"
    and "cl_format (dp_cmdl dec) \<noteq> STD_MJPG lib"
    and "c_int (dp_picheight dec + 15) = Done height15" and "height15 AND NOT 15 = height" and "pic_size lib dec height = Done n"
    and "buf = mem_at (addrY pfb + md_virt_uaddr (desc pfb) - md_phy_addr (desc pfb))"
    and "out_alloc n w = (Some p, w1)" and "saveNV12ImageHelper (Some p) dec buf = Done (Some nv)"
    and "pic = (if cl_chromaInterleave (dp_cmdl dec) = 0 then buf else nv)"
  shows "write_to_file lib mem_at dec crop pfb w =
    (if rect_any crop = 0 then
       if cl_chromaInterleave (dp_cmdl dec) = 0 then out_write (Some pic) n w
       else run_bind (out_write (Some pic) n w1) (\<lambda>w2. Done (out_free (Some pic) w2))
     else run_bind (saveCropYuvImageHelper lib dec (Some pic) crop w1) (\<lambda>w2. Done (out_free (Some pic) w2)))"
  unfolding write_to_file_def Let_def assms(3,4) run_bind.simps if_not_P [OF assms(1)] assms(5) assms(6) [symmetric]
  using assms(2,7-9) by (simp add: out_free_def)

lemma write_to_file_appends:
  assumes "\<not> (is_mx6x lib \<and> cl_mapType (dp_cmdl dec) \<noteq> LINEAR_FRAME_MAP lib \<and> dp_tiled2LinearEnable dec = 0)"
    and "cl_format (dp_cmdl dec) \<noteq> STD_MJPG lib"
    and "(if pic_rotated (dp_cmdl dec) then (dp_picheight dec, dp_picwidth dec) else (dp_picwidth dec, dp_picheight dec)) = (int W, int H)"
    and "dp_stride dec = dp_picwidth dec" and "even (dp_picwidth dec)" and "16 dvd dp_picheight dec"
    and "W < 2 ^ 31 \<and> H < 2 ^ 31" and "rect_ok (int W) (int H) crop"
    and "buf = mem_at (addrY pfb + md_virt_uaddr (desc pfb) - md_phy_addr (desc pfb))"
    and "W * H + W * H div 2 \<le> length buf"
    and "\<forall>b\<in>set (ow_malloc w). b" and "writes_succeed (ow_dst w)"
    and "pic = (if cl_chromaInterleave (dp_cmdl dec) = 0 then buf else deinterleave (W * H) buf)"
  shows "if W * H * size_factor crop < 2 ^ 31
    then \<exists>w'. write_to_file lib mem_at dec crop pfb w = Done w' \<and> ow_live w' = ow_live w \<and>
      wf_data (ow_dst w') = wf_data (ow_dst w) @
        (if rect_any crop = 0 then take (W * H + W * H div 2) pic else crop_420 pic W H crop)
    else write_to_file lib mem_at dec crop pfb w = Undef"
proof -
  let ?N = "W * H + W * H div 2" and ?cmd = "dp_cmdl dec"
  obtain v h where v: "dp_picwidth dec = 2 * int v" and h: "dp_picheight dec = 2 * int h" and A: "W * H = 4 * v * h"
    and ev: "even W" "even H" by (rule even_dims [OF assms(3,5,6)])
  define n where "n = int ?N"
  have h16: "(dp_picheight dec + 15) AND NOT 15 = dp_picheight dec" by (rule align16_mult [OF assms(6)])
  have AW: "dp_stride dec * dp_picheight dec = int (W * H)" "even (W * H)" by (simp_all add: assms(4) v h A)
  note sz = pic_size_420 [OF assms(2) AW, folded n_def]
  have h15: "c_int (dp_picheight dec + 15) = Done (dp_picheight dec + 15)"
    by (rule height_fits [OF _ _ assms(6)]) (use assms(3,7) h in \<open>simp_all split: if_splits\<close>)
  show ?thesis
  proof (cases "W * H * 3 < 2 ^ 31")
    case False
    then have "\<not> W * H * size_factor crop < 2 ^ 31" by (simp add: size_factor_def)
    moreover have "write_to_file lib mem_at dec crop pfb w = Undef"
      by (rule write_to_file_too_large [OF assms(1) h16]) (simp only: sz False if_False)
    ultimately show ?thesis by simp
  next
    case True
    then have sz: "pic_size lib dec (dp_picheight dec) = Done n" and WH: "W * H < 2 ^ 31" by (simp_all add: sz)
    obtain w1 where al: "out_alloc n w = (Some (replicate ?N (ow_junk w)), w1)" and w1: "ow_live w1 = ow_live w + 1" "ow_dst w1 = ow_dst w"
      by (rule out_alloc_succeeds [OF assms(11), of n]) (simp only: nat_int n_def)
    have ws1: "writes_succeed (ow_dst w1)" using assms(12) w1 by simp
    have nv: "saveNV12ImageHelper (Some (replicate ?N (ow_junk w))) dec buf = Done (Some (deinterleave (W * H) buf))"
      by (rule saveNV12_correct [OF _ v h A WH]) (use assms(4,10) v in simp_all)
    have "4 dvd W * H" "W * H \<le> length buf" using assms(10) by (simp add: A mult.assoc, linarith)
    then have lenpic: "?N \<le> length pic"
      using assms(10,13) length_deinterleave [of "W * H" buf] by (simp split: if_splits)
    note run = write_to_file_sized [where mem_at = mem_at and pfb = pfb, OF assms(1,2) h15 h16 sz assms(9) al nv assms(13), of crop]
    show ?thesis
    proof (cases "rect_any crop = 0")
      case whole: True
      obtain w2 w3 where "out_write (Some pic) n w = Done w2" "out_adds w (take ?N pic) w2"
          "out_write (Some pic) n w1 = Done w3" "out_adds w1 (take ?N pic) w3"
        unfolding n_def using out_write_adds [OF assms(12) lenpic] out_write_adds [OF ws1 lenpic] by metis
      then show ?thesis unfolding run using True whole w1 by (simp add: out_adds_def out_free_def size_factor_def)
    next
      case False
      show ?thesis
        using saveCrop_adds [OF assms(2) ws1 assms(3) ev WH assms(7,8) lenpic] False w1
        unfolding run by (cases "W * H * 5 < 2 ^ 31") (auto simp: out_adds_def out_free_def size_factor_def)
    qed
  qed
qed

section \<open>Properties\<close>

text \<open>
  C19: What ends up in the output file. For a linear 4:2:0 picture whose stride is its width and whose height is a multiple of 16,
  with memory for the temporary picture and a file that takes the data, \<open>write_to_file\<close> appends the three planes: the
  whole picture without a cropping rectangle, and with one the rectangle of the luma plane and its half in each chroma plane. With
  interleaved chroma the bytes are first taken apart. The temporary picture is freed. This holds exactly as long as three times (with
  a cropping rectangle, five times) the number of pixels is a number of type \<open>int\<close>; for a larger picture the computation of a size
  overflows, which is undefined behaviour.
\<close>

theorem write_to_file_planes:
  assumes "\<not> (is_mx6x lib \<and> cl_mapType (dp_cmdl dec) \<noteq> LINEAR_FRAME_MAP lib \<and> dp_tiled2LinearEnable dec = 0)"
    and "cl_format (dp_cmdl dec) \<noteq> STD_MJPG lib"
    and "(if pic_rotated (dp_cmdl dec) then (dp_picheight dec, dp_picwidth dec) else (dp_picwidth dec, dp_picheight dec)) = (int W, int H)"
    and "dp_stride dec = dp_picwidth dec" and "even (dp_picwidth dec)" and "16 dvd dp_picheight dec"
    and "W < 2 ^ 31 \<and> H < 2 ^ 31" and "rect_ok (int W) (int H) crop"
    and "buf = mem_at (addrY pfb + md_virt_uaddr (desc pfb) - md_phy_addr (desc pfb))"
    and "W * H + W * H div 2 \<le> length buf"
    and "\<forall>b\<in>set (ow_malloc w). b" and "writes_succeed (ow_dst w)"
    and "pic = (if cl_chromaInterleave (dp_cmdl dec) = 0 then buf else deinterleave (W * H) buf)"
  shows "if W * H * size_factor crop < 2 ^ 31
    then \<exists>w'. write_to_file lib mem_at dec crop pfb w = Done w' \<and> ow_live w' = ow_live w \<and>
      wf_data (ow_dst w') = wf_data (ow_dst w) @
        (if rect_any crop = 0 then take (W * H + W * H div 2) pic else crop_420 pic W H crop)
    else write_to_file lib mem_at dec crop pfb w = Undef"
  by (rule write_to_file_appends [where mem_at = mem_at and pfb = pfb, OF assms])

theorem write_to_file_planes_witness:
  "\<exists>w'. write_to_file \<lparr>STD_MJPG = 7, LINEAR_FRAME_MAP = 0, is_mx6x = True, GetXY2AXIAddr = (\<lambda>c y x s a b d. 0)\<rparr>
      (\<lambda>a. if a = 0x5000 then map word_of_nat [0..<96] else [])
      \<lparr>dp_picwidth = 4, dp_picheight = 16, dp_stride = 4, dp_mjpg_fmt = 0,
        dp_picCropRect = \<lparr>r_left = 0, r_top = 0, r_right = 0, r_bottom = 0\<rparr>, dp_tiled2LinearEnable = 0,
        dp_cmdl = cmd_zero\<lparr>cl_chromaInterleave := 1\<rparr>\<rparr>
      \<lparr>r_left = 2, r_top = 4, r_right = 4, r_bottom = 6\<rparr>
      \<lparr>addrY = 0x1000, addrCb = 0, addrCr = 0, strideY = 0, strideC = 0, mvColBuf = 0,
        desc = \<lparr>md_size = 0, md_phy_addr = 0x1000, md_virt_uaddr = 0x5000\<rparr>\<rparr>
      \<lparr>ow_dst = \<lparr>wf_data = [9], wf_sched = []\<rparr>, ow_malloc = [], ow_live = 0, ow_junk = 7\<rparr> = Done w' \<and>
    ow_live w' = 0 \<and> wf_data (ow_dst w') = [9, 18, 19, 22, 23, 74, 75]"
proof -
  let ?lib = "\<lparr>STD_MJPG = 7, LINEAR_FRAME_MAP = 0, is_mx6x = True, GetXY2AXIAddr = (\<lambda>c y x s a b d. 0)\<rparr>"
  let ?dec = "\<lparr>dp_picwidth = 4, dp_picheight = 16, dp_stride = 4, dp_mjpg_fmt = 0,
        dp_picCropRect = \<lparr>r_left = 0, r_top = 0, r_right = 0, r_bottom = 0\<rparr>, dp_tiled2LinearEnable = 0,
        dp_cmdl = cmd_zero\<lparr>cl_chromaInterleave := 1\<rparr>\<rparr>"
  let ?crop = "\<lparr>r_left = 2, r_top = 4, r_right = 4, r_bottom = 6\<rparr>"
  let ?buf = "map word_of_nat [0..<96] :: u8 list"
  have pic: "crop_420 (deinterleave 64 ?buf) 4 16 ?crop = [18, 19, 22, 23, 74, 75]" by code_simp
  have "\<not> (is_mx6x ?lib \<and> cl_mapType (dp_cmdl ?dec) \<noteq> LINEAR_FRAME_MAP ?lib \<and> dp_tiled2LinearEnable ?dec = 0)"
    "cl_format (dp_cmdl ?dec) \<noteq> STD_MJPG ?lib" "\<not> pic_rotated (dp_cmdl ?dec)" "rect_ok (int 4) (int 16) ?crop" "rect_any ?crop \<noteq> 0"
    by (simp_all add: cmd_zero_def pic_rotated_def rect_ok_def rect_any_def)
  then show ?thesis
    using write_to_file_planes [of ?lib ?dec 4 16 ?crop ?buf "\<lambda>a. if a = 0x5000 then ?buf else []"
      "\<lparr>addrY = 0x1000, addrCb = 0, addrCr = 0, strideY = 0, strideC = 0, mvColBuf = 0,
        desc = \<lparr>md_size = 0, md_phy_addr = 0x1000, md_virt_uaddr = 0x5000\<rparr>\<rparr>"
      "\<lparr>ow_dst = \<lparr>wf_data = [9], wf_sched = []\<rparr>, ow_malloc = [], ow_live = 0, ow_junk = 7\<rparr>" "deinterleave 64 ?buf"]
    by (simp add: pic writes_succeed_def size_factor_def)
qed

end
