(* ===== verification/Mjpeg_Reader.thy ===== *)
theory Mjpeg_Reader
  imports Dec_Bitstream
begin

text \<open>
  Reading a motion JPEG clip picture by picture (\<^verbatim>\<open>src/test/mxc_vpu_test/dec.c\<close>: \<open>mjpg_seek_soi\<close>,
  \<open>mjpg_read_chunk_till_soi\<close>, \<open>mjpg_read_chunk\<close>; the build without \<open>READ_WHOLE_FILE\<close>). The input is read in pieces of 8 KiB
  into a cache, and a start code automaton whose state survives from piece to piece looks for the next start of image.
  The loop has no bound of its own, so it is given fuel; running out of it is \<open>Blocked\<close>.
\<close>

section \<open>The start code automaton\<close>

fun soi_scan :: "u8 list \<Rightarrow> int \<Rightarrow> nat \<Rightarrow> int \<times> nat" where
  "soi_scan [] st n = (st, n)"
| "soi_scan (byte # bs) st n =
     (if st = 0 then soi_scan bs (if byte = 0xFF then 1 else 0) (Suc n)
      else if st = 1 then (if byte = 0xD8 then (2, Suc n) else soi_scan bs (if byte \<noteq> 0xFF then 0 else 1) (Suc n))
      else if st = 2 then soi_scan bs (if byte = 0xFF then 1 else 0) (Suc n)
      else soi_scan bs st (Suc n))"

definition mjpg_seek_soi :: "int \<Rightarrow> u8 list \<Rightarrow> int \<times> int" where
  "mjpg_seek_soi st buf = (let (st', n) = soi_scan buf st 0 in (if st' = 2 then int n else -1, st'))"

section \<open>Chunks\<close>

text \<open>The members of \<open>struct decode\<close> the reader uses; \<open>mj_bs\<close> is the memory at \<open>virt_bsbuf_addr\<close>.\<close>

record mjpg =
  mjpg_wr_ptr :: u32
  mjpg_rd_ptr :: u32
  mjpg_sc_state :: int
  mjpg_eof :: int
  mjpg_cached_bsbuf :: "u8 list"
  mj_bs :: "u8 list"
  mj_cmd :: cmd_line
  mj_world :: vpu_world

definition MJPG_FILL_SIZE :: int where "MJPG_FILL_SIZE = 8 * 1024"

definition mjpg_store :: "u8 list \<Rightarrow> mjpg \<Rightarrow> mjpg run" where
  "mjpg_store bs s = (case c_store (mjpg_cached_bsbuf s) (uint (mjpg_wr_ptr s)) bs of
     None \<Rightarrow> Undef | Some m \<Rightarrow> Done (s\<lparr>mjpg_cached_bsbuf := m\<rparr>))"

text \<open>The \<open>memmove\<close> at the start.\<close>

definition mjpg_compact :: "mjpg \<Rightarrow> mjpg run" where
  "mjpg_compact s =
     (if mjpg_rd_ptr s > 2 then
        (let from = mjpg_rd_ptr s - 2; n = mjpg_wr_ptr s - from
         in case c_slice (mjpg_cached_bsbuf s) (uint from) (uint n) of
              None \<Rightarrow> Undef
            | Some bs \<Rightarrow> (case c_store (mjpg_cached_bsbuf s) 0 bs of
                None \<Rightarrow> Undef
              | Some m \<Rightarrow> Done (s\<lparr>mjpg_cached_bsbuf := m, mjpg_wr_ptr := n, mjpg_rd_ptr := 2\<rparr>)))
      else Done s)"

text \<open>The refill: an error or the end of the input is the result \<open>Some\<close>; at the first end a start of image is appended.\<close>

definition mjpg_refill :: "mjpg \<Rightarrow> (int option \<times> mjpg) run" where
  "mjpg_refill s =
     run_bind (vpu_read (mj_world s) (mj_cmd s) MJPG_FILL_SIZE) (\<lambda>(nread, bs, cmd, w).
     run_bind (mjpg_store bs (s\<lparr>mj_cmd := cmd, mj_world := w\<rparr>)) (\<lambda>s1.
       if nread < 0 then Done (Some (-1), s1)
       else if nread = 0 then
         (if mjpg_eof s1 \<noteq> 0 then Done (Some 0, s1)
          else run_bind (mjpg_store [0xFF] s1) (\<lambda>s2.
               run_bind (mjpg_store [0xD8] (s2\<lparr>mjpg_wr_ptr := mjpg_wr_ptr s2 + 1\<rparr>)) (\<lambda>s3.
                 Done (None, s3\<lparr>mjpg_wr_ptr := mjpg_wr_ptr s3 + 1, mjpg_eof := 1\<rparr>))))
       else Done (None, s1\<lparr>mjpg_wr_ptr := mjpg_wr_ptr s1 + word_of_int nread\<rparr>)))"

fun mjpg_loop :: "nat \<Rightarrow> mjpg \<Rightarrow> (int \<times> mjpg) run" where
  "mjpg_loop 0 s = Blocked"
| "mjpg_loop (Suc fuel) s =
     run_bind (if mjpg_rd_ptr s = mjpg_wr_ptr s then mjpg_refill s else Done (None, s)) (\<lambda>(r, s1).
       case r of
         Some v \<Rightarrow> Done (v, s1)
       | None \<Rightarrow>
           (case c_slice (mjpg_cached_bsbuf s1) (uint (mjpg_rd_ptr s1)) (uint (mjpg_wr_ptr s1 - mjpg_rd_ptr s1)) of
              None \<Rightarrow> Undef
            | Some bs \<Rightarrow>
                (let (pos, st) = mjpg_seek_soi (mjpg_sc_state s1) bs; s2 = s1\<lparr>mjpg_sc_state := st\<rparr>
                 in if pos < 0 then mjpg_loop fuel (s2\<lparr>mjpg_rd_ptr := mjpg_wr_ptr s2\<rparr>)
                    else
                      (let s3 = s2\<lparr>mjpg_rd_ptr := mjpg_rd_ptr s2 + word_of_int pos\<rparr>
                       in case c_slice (mjpg_cached_bsbuf s3) 0 (uint (mjpg_rd_ptr s3 - 2)) of
                            None \<Rightarrow> Undef
                          | Some chunk \<Rightarrow> (case c_store (mj_bs s3) 0 chunk of
                              None \<Rightarrow> Undef
                            | Some m \<Rightarrow> Done (s32 (mjpg_rd_ptr s3), s3\<lparr>mj_bs := m\<rparr>))))))"

definition mjpg_read_chunk_till_soi :: "nat \<Rightarrow> mjpg \<Rightarrow> (int \<times> mjpg) run" where
  "mjpg_read_chunk_till_soi fuel s = run_bind (mjpg_compact s) (mjpg_loop fuel)"

definition mjpg_read_chunk :: "nat \<Rightarrow> mjpg \<Rightarrow> (int \<times> mjpg) run" where
  "mjpg_read_chunk fuel s =
     (if mjpg_rd_ptr s = 0 then
        run_bind (mjpg_read_chunk_till_soi fuel s) (\<lambda>(ret, s1).
          if ret \<le> 0 then Done (ret, s1) else mjpg_read_chunk_till_soi fuel s1)
      else mjpg_read_chunk_till_soi fuel s)"

section \<open>Where the images start\<close>

fun first_soi :: "u8 list \<Rightarrow> nat option" where
  "first_soi (a # b # bs) = (if a = 0xFF \<and> b = 0xD8 then Some 0 else map_option Suc (first_soi (b # bs)))"
| "first_soi _ = None"

text \<open>The automaton on a list, with the number of bytes up to the end of the start code.\<close>

definition soi_found :: "int \<Rightarrow> u8 list \<Rightarrow> nat option" where
  "soi_found st bs = (if st = 1 then map_option Suc (first_soi (0xFF # bs)) else map_option (\<lambda>k. k + 2) (first_soi bs))"

definition soi_next :: "int \<Rightarrow> u8 list \<Rightarrow> int" where
  "soi_next st bs = (if bs = [] then st else if last bs = 0xFF then 1 else 0)"

lemma first_soi_Cons: "b \<noteq> 0xFF \<Longrightarrow> first_soi (b # bs) = map_option Suc (first_soi bs)"
  by (cases bs) simp_all

lemma soi_found_Nil [simp]: "soi_found st [] = None"
  by (simp add: soi_found_def)

lemma soi_found_Cons:
  "soi_found st (b # bs) = (if st = 1 \<and> b = 0xD8 then Some 1 else map_option Suc (soi_found (if b = 0xFF then 1 else 0) bs))"
  by (auto simp: soi_found_def first_soi_Cons option.map_comp comp_def)

lemma soi_next_Cons: "soi_next st (b # bs) = soi_next (if b = 0xFF then 1 else 0) bs"
  by (simp add: soi_next_def)

lemma soi_scan_found:
  assumes "st \<in> {0, 1, 2}"
  shows "soi_scan bs st n = (case soi_found st bs of Some k \<Rightarrow> (2, n + k) | None \<Rightarrow> (soi_next st bs, n + length bs))"
  using assms
proof (induction bs arbitrary: st n)
  case Nil
  then show ?case by (simp add: soi_next_def)
next
  case (Cons b bs)
  have "soi_scan (b # bs) st n = (if st = 1 \<and> b = 0xD8 then (2, Suc n) else soi_scan bs (if b = 0xFF then 1 else 0) (Suc n))"
    using Cons.prems by auto
  then show ?case
    using Cons.IH [of "if b = 0xFF then 1 else 0" "Suc n"]
    by (auto simp: soi_found_Cons soi_next_Cons split: option.splits)
qed

lemma soi_found_append:
  "soi_found st (xs @ ys) = (case soi_found st xs of Some k \<Rightarrow> Some k | None \<Rightarrow> map_option ((+) (length xs)) (soi_found (soi_next st xs) ys))"
proof (induction xs arbitrary: st)
  case Nil
  show ?case by (cases "soi_found st ys") (simp_all add: soi_next_def)
next
  case (Cons b xs)
  have "(\<lambda>x. Suc (length xs + x)) = (+) (length (b # xs))" by auto
  then show ?case
    by (simp add: soi_found_Cons soi_next_Cons Cons.IH option.map_comp comp_def split: option.split)
qed

lemma soi_found_bound: "soi_found st bs = Some k \<Longrightarrow> 0 < k \<and> k \<le> length bs"
  by (induction bs arbitrary: st k) (auto simp: soi_found_Cons split: if_splits)

text \<open>The pad that is appended at the end is found, at the latest.\<close>

lemma soi_found_pad: "soi_found st (bs @ [0xFF, 0xD8]) = (case soi_found st bs of Some k \<Rightarrow> Some k | None \<Rightarrow> Some (length bs + 2))"
  by (simp add: soi_found_append soi_found_Cons split: option.split)

lemma mjpg_seek_soi_found:
  assumes "st \<in> {0, 1, 2}" and "bs \<noteq> []"
  shows "mjpg_seek_soi st bs = (case soi_found st bs of Some k \<Rightarrow> (int k, 2) | None \<Rightarrow> (-1, soi_next st bs))"
  using assms by (auto simp: mjpg_seek_soi_def soi_scan_found soi_next_def split: option.split)

section \<open>One chunk from a file\<close>

text \<open>
  The bytes still to come: those in the cache, then the rest of the file and, until it has been appended, the start of
  image that closes the last chunk.
\<close>

abbreviation mj_data :: "mjpg \<Rightarrow> u8 list" where "mj_data s \<equiv> rf_data (vw_src (mj_world s))"

definition mj_rest :: "mjpg \<Rightarrow> u8 list" where
  "mj_rest s = (if mjpg_eof s \<noteq> 0 then mj_data s else mj_data s @ [0xFF, 0xD8])"

definition mj_stream :: "mjpg \<Rightarrow> u8 list" where
  "mj_stream s = take (unat (mjpg_wr_ptr s)) (mjpg_cached_bsbuf s) @ mj_rest s"

definition mj_ok :: "mjpg \<Rightarrow> bool" where
  "mj_ok s \<longleftrightarrow> mjpg_rd_ptr s \<le> mjpg_wr_ptr s \<and> unat (mjpg_wr_ptr s) \<le> length (mjpg_cached_bsbuf s) \<and>
     length (mjpg_cached_bsbuf s) < 2 ^ 31 \<and> mjpg_sc_state s \<in> {0, 1, 2} \<and> cl_src_scheme (mj_cmd s) \<noteq> PATH_NET \<and>
     None \<notin> set (rf_sched (vw_src (mj_world s))) \<and> (mjpg_eof s \<noteq> 0 \<longrightarrow> mj_data s = [])"

lemma mjpg_store_take:
  assumes "unat (mjpg_wr_ptr s) + length bs \<le> length (mjpg_cached_bsbuf s)"
  obtains m where "mjpg_store bs s = Done (s\<lparr>mjpg_cached_bsbuf := m\<rparr>)" and "length m = length (mjpg_cached_bsbuf s)"
    and "take (unat (mjpg_wr_ptr s) + length bs) m = take (unat (mjpg_wr_ptr s)) (mjpg_cached_bsbuf s) @ bs"
proof -
  define u where "u = unat (mjpg_wr_ptr s)"
  have e: "uint (mjpg_wr_ptr s) = int u" by (simp add: u_def)
  have "c_store (mjpg_cached_bsbuf s) (int u) bs = Some (take u (mjpg_cached_bsbuf s) @ bs @ drop (u + length bs) (mjpg_cached_bsbuf s))"
    using assms by (simp add: c_store_def flip: u_def)
  then show thesis using that assms unfolding mjpg_store_def e by (simp flip: u_def)
qed

text \<open>The state after the first \<open>n\<close> bytes of the file have been read behind the cached ones.\<close>

definition piece_read :: "mjpg \<Rightarrow> nat \<Rightarrow> mjpg \<Rightarrow> bool" where
  "piece_read s n s1 \<longleftrightarrow> mjpg_wr_ptr s1 = mjpg_wr_ptr s \<and> mjpg_rd_ptr s1 = mjpg_rd_ptr s \<and> mjpg_sc_state s1 = mjpg_sc_state s \<and>
     mjpg_eof s1 = mjpg_eof s \<and> mj_bs s1 = mj_bs s \<and> mj_cmd s1 = mj_cmd s \<and> mj_data s1 = drop n (mj_data s) \<and>
     None \<notin> set (rf_sched (vw_src (mj_world s1))) \<and> length (mjpg_cached_bsbuf s1) = length (mjpg_cached_bsbuf s) \<and>
     take (unat (mjpg_wr_ptr s) + n) (mjpg_cached_bsbuf s1) = take (unat (mjpg_wr_ptr s)) (mjpg_cached_bsbuf s) @ take n (mj_data s)"

lemma mjpg_refill_read:
  assumes "mj_ok s" and "unat (mjpg_wr_ptr s) + 8192 \<le> length (mjpg_cached_bsbuf s)"
  obtains n s1 where "n = min 8192 (length (mj_data s))"
    and "vpu_read (mj_world s) (mj_cmd s) MJPG_FILL_SIZE = Done (int n, take n (mj_data s), mj_cmd s, mj_world s1)"
    and "mjpg_store (take n (mj_data s)) (s\<lparr>mj_world := mj_world s1\<rparr>) = Done s1" and "piece_read s n s1"
proof -
  define n where "n = min 8192 (length (mj_data s))"
  have ok: "cl_src_scheme (mj_cmd s) \<noteq> PATH_NET" "None \<notin> set (rf_sched (vw_src (mj_world s)))"
    using assms(1) by (simp_all add: mj_ok_def)
  obtain w' where rd: "vpu_read (mj_world s) (mj_cmd s) MJPG_FILL_SIZE = Done (int n, take n (mj_data s), mj_cmd s, w')"
    and w': "rf_data (vw_src w') = drop n (mj_data s)" "set (rf_sched (vw_src w')) \<subseteq> set (rf_sched (vw_src (mj_world s)))"
    using ok(1) by (rule vpu_read_file [of _ "mj_world s" 8192]) (use ok(2) in \<open>simp_all add: MJPG_FILL_SIZE_def n_def\<close>)
  have n: "length (take n (mj_data s)) = n" "n \<le> 8192" by (simp_all add: n_def)
  let ?s1 = "s\<lparr>mj_world := w'\<rparr>"
  obtain m where "mjpg_store (take n (mj_data s)) ?s1 = Done (?s1\<lparr>mjpg_cached_bsbuf := m\<rparr>)"
      "length m = length (mjpg_cached_bsbuf s)"
      "take (unat (mjpg_wr_ptr s) + n) m = take (unat (mjpg_wr_ptr s)) (mjpg_cached_bsbuf s) @ take n (mj_data s)"
    by (rule mjpg_store_take [of ?s1 "take n (mj_data s)"]) (use assms(2) n in simp_all)
  then show thesis using rd w' ok(2) by (intro that [of n "?s1\<lparr>mjpg_cached_bsbuf := m\<rparr>"]) (auto simp: n_def piece_read_def)
qed

text \<open>A refill makes more of the stream available and changes nothing else; the stream stays the same.\<close>

definition refilled :: "mjpg \<Rightarrow> mjpg \<Rightarrow> bool" where
  "refilled s s' \<longleftrightarrow> mj_ok s' \<and> mj_stream s' = mj_stream s \<and> mjpg_rd_ptr s' = mjpg_rd_ptr s \<and> mjpg_rd_ptr s' < mjpg_wr_ptr s' \<and>
     mjpg_sc_state s' = mjpg_sc_state s \<and> mj_bs s' = mj_bs s \<and> length (mj_rest s') < length (mj_rest s) \<and>
     length (mjpg_cached_bsbuf s') = length (mjpg_cached_bsbuf s)"

lemma mjpg_refill_data:
  assumes "mj_ok s" and "mjpg_rd_ptr s = mjpg_wr_ptr s" and "mj_data s \<noteq> []"
    and "unat (mjpg_wr_ptr s) + 8192 \<le> length (mjpg_cached_bsbuf s)"
  obtains s' where "mjpg_refill s = Done (None, s')" and "refilled s s'"
proof -
  obtain n s1 where nd: "n = min 8192 (length (mj_data s))"
    and rd: "vpu_read (mj_world s) (mj_cmd s) MJPG_FILL_SIZE = Done (int n, take n (mj_data s), mj_cmd s, mj_world s1)"
    and st: "mjpg_store (take n (mj_data s)) (s\<lparr>mj_world := mj_world s1\<rparr>) = Done s1" and pr: "piece_read s n s1"
    by (rule mjpg_refill_read [OF assms(1,4)])
  note same = pr [unfolded piece_read_def]
  have n: "0 < n" "n \<le> 8192" "n \<le> length (mj_data s)" using nd assms(3) by simp_all
  have eof: "mjpg_eof s = 0" using assms(1,3) by (auto simp: mj_ok_def)
  let ?s' = "s1\<lparr>mjpg_wr_ptr := mjpg_wr_ptr s + word_of_int (int n)\<rparr>"
  have wr: "unat (mjpg_wr_ptr ?s') = unat (mjpg_wr_ptr s) + n"
    using unat_bs_addr [of "mjpg_wr_ptr s" n] n(2) assms(1,4) by (simp add: mj_ok_def)
  have "mjpg_refill s = Done (None, ?s')" using rd st n same by (simp add: mjpg_refill_def)
  moreover have "mj_ok ?s'" using assms(1,2,4) n wr eof same by (auto simp: mj_ok_def word_le_nat_alt)
  moreover have "mj_stream ?s' = mj_stream s"
    using wr by (simp add: mj_stream_def mj_rest_def eof same)
  moreover have "mjpg_rd_ptr ?s' < mjpg_wr_ptr ?s'" using n wr assms(2) same by (simp add: word_less_nat_alt)
  moreover have "length (mj_rest ?s') < length (mj_rest s)" using n by (simp add: mj_rest_def eof same)
  ultimately show thesis using same by (intro that [of ?s']) (simp_all add: refilled_def)
qed

lemma mjpg_refill_pad:
  assumes "mj_ok s" and "mjpg_rd_ptr s = mjpg_wr_ptr s" and "mj_data s = []" and "mjpg_eof s = 0"
    and "unat (mjpg_wr_ptr s) + 8192 \<le> length (mjpg_cached_bsbuf s)"
  obtains s' where "mjpg_refill s = Done (None, s')" and "refilled s s'"
proof -
  obtain n s1 where nd: "n = min 8192 (length (mj_data s))"
    and rd: "vpu_read (mj_world s) (mj_cmd s) MJPG_FILL_SIZE = Done (int n, take n (mj_data s), mj_cmd s, mj_world s1)"
    and st: "mjpg_store (take n (mj_data s)) (s\<lparr>mj_world := mj_world s1\<rparr>) = Done s1" and pr: "piece_read s n s1"
    by (rule mjpg_refill_read [OF assms(1,5)])
  note same = pr [unfolded piece_read_def]
  have n: "n = 0" using nd assms(3) by simp
  let ?wr = "unat (mjpg_wr_ptr s)"
  have wr: "unat (mjpg_wr_ptr s + 1) = ?wr + 1" "unat (mjpg_wr_ptr s + 1 + 1) = ?wr + 2"
    using unat_bs_addr [of "mjpg_wr_ptr s" 1] unat_bs_addr [of "mjpg_wr_ptr s" 2] assms(1,5) by (simp_all add: mj_ok_def add.assoc)
  obtain m2 where m2: "mjpg_store [0xFF] s1 = Done (s1\<lparr>mjpg_cached_bsbuf := m2\<rparr>)" "length m2 = length (mjpg_cached_bsbuf s)"
    "take (?wr + 1) m2 = take ?wr (mjpg_cached_bsbuf s) @ [0xFF]"
    by (rule mjpg_store_take [of s1 "[0xFF]"]) (use assms(5) same n in simp_all)
  let ?s2 = "s1\<lparr>mjpg_cached_bsbuf := m2, mjpg_wr_ptr := mjpg_wr_ptr s + 1\<rparr>"
  obtain m3 where m3: "mjpg_store [0xD8] ?s2 = Done (?s2\<lparr>mjpg_cached_bsbuf := m3\<rparr>)" "length m3 = length (mjpg_cached_bsbuf s)"
    "take (?wr + 2) m3 = take ?wr (mjpg_cached_bsbuf s) @ [0xFF, 0xD8]"
    by (rule mjpg_store_take [of ?s2 "[0xD8]"]) (use assms(5) m2(2,3) wr in simp_all)
  let ?s' = "?s2\<lparr>mjpg_cached_bsbuf := m3, mjpg_wr_ptr := mjpg_wr_ptr s + 1 + 1, mjpg_eof := 1\<rparr>"
  have "mjpg_refill s = Done (None, ?s')"
    using rd st n same assms(4) m2(1) m3(1) by (simp add: mjpg_refill_def)
  moreover have "mj_ok ?s'" using assms(1,2,3,5) wr m3(2) same n by (auto simp: mj_ok_def word_le_nat_alt)
  moreover have "mj_stream ?s' = mj_stream s"
    using same m3(3) wr by (simp add: mj_stream_def mj_rest_def assms(3,4) n)
  moreover have "mjpg_rd_ptr ?s' < mjpg_wr_ptr ?s'" using wr assms(2) same by (simp add: word_less_nat_alt)
  moreover have "length (mj_rest ?s') < length (mj_rest s)" using same n by (simp add: mj_rest_def assms(3,4))
  ultimately show thesis using same m3(2) by (intro that [of ?s']) (simp_all add: refilled_def)
qed

lemma mjpg_refill_end:
  assumes "mj_ok s" and "mjpg_eof s \<noteq> 0" and "unat (mjpg_wr_ptr s) + 8192 \<le> length (mjpg_cached_bsbuf s)"
  obtains s' where "mjpg_refill s = Done (Some 0, s')"
proof -
  have "mj_data s = []" using assms(1,2) by (simp add: mj_ok_def)
  show thesis
    by (rule mjpg_refill_read [OF assms(1,3)]) (use assms(2) that \<open>mj_data s = []\<close> in \<open>auto simp: mjpg_refill_def piece_read_def\<close>)
qed

lemma mjpg_refill_more:
  assumes "mj_ok s" and "mjpg_rd_ptr s = mjpg_wr_ptr s" and "mj_rest s \<noteq> []"
    and "unat (mjpg_wr_ptr s) + 8192 \<le> length (mjpg_cached_bsbuf s)"
  obtains s' where "mjpg_refill s = Done (None, s')" and "refilled s s'"
proof (cases "mj_data s = []")
  case True
  then have "mjpg_eof s = 0" using assms(3) by (auto simp: mj_rest_def split: if_splits)
  then show thesis by (rule mjpg_refill_pad [OF assms(1,2) True _ assms(4) that])
next
  case False
  then show thesis by (rule mjpg_refill_data [OF assms(1,2) _ assms(4) that])
qed

text \<open>The part of the stream that is cached but not scanned.\<close>

definition mj_window :: "mjpg \<Rightarrow> u8 list" where
  "mj_window s = take (unat (mjpg_wr_ptr s) - unat (mjpg_rd_ptr s)) (drop (unat (mjpg_rd_ptr s)) (mjpg_cached_bsbuf s))"

lemma mj_window_rest:
  assumes "mj_ok s"
  shows "drop (unat (mjpg_rd_ptr s)) (mj_stream s) = mj_window s @ mj_rest s"
    and "length (mj_window s) = unat (mjpg_wr_ptr s) - unat (mjpg_rd_ptr s)"
  using assms by (auto simp: mj_ok_def mj_stream_def mj_window_def drop_take word_le_nat_alt min_def)

lemma mj_window_read:
  assumes "mj_ok s"
  shows "c_slice (mjpg_cached_bsbuf s) (uint (mjpg_rd_ptr s)) (uint (mjpg_wr_ptr s - mjpg_rd_ptr s)) = Some (mj_window s)"
proof -
  define r w where "r = unat (mjpg_rd_ptr s)" and "w = unat (mjpg_wr_ptr s)"
  have le: "mjpg_rd_ptr s \<le> mjpg_wr_ptr s" "w \<le> length (mjpg_cached_bsbuf s)" using assms by (simp_all add: mj_ok_def w_def)
  have r: "uint (mjpg_rd_ptr s) = int r" and "uint (mjpg_wr_ptr s) = int w" by (simp_all add: r_def w_def)
  moreover have "r \<le> w" using le(1) by (simp add: r_def w_def word_le_nat_alt)
  moreover have "uint (mjpg_wr_ptr s - mjpg_rd_ptr s) = uint (mjpg_wr_ptr s) - uint (mjpg_rd_ptr s)"
    using le(1) by (simp add: uint_minus_simple_alt)
  ultimately have "uint (mjpg_wr_ptr s - mjpg_rd_ptr s) = int (w - r)" "r \<le> w" by simp_all
  with r show ?thesis using le(2) by (simp add: c_slice_def mj_window_def r_def [symmetric] w_def [symmetric] of_nat_diff nat_diff_distrib)
qed

definition chunk_done :: "mjpg \<Rightarrow> nat \<Rightarrow> mjpg \<Rightarrow> bool" where
  "chunk_done s n s' \<longleftrightarrow> mj_ok s' \<and> mj_stream s' = mj_stream s \<and> unat (mjpg_rd_ptr s') = n \<and> mjpg_sc_state s' = 2 \<and>
     length (mj_bs s') = length (mj_bs s) \<and> length (mjpg_cached_bsbuf s') = length (mjpg_cached_bsbuf s) \<and>
     length (mj_rest s') \<le> length (mj_rest s) \<and> take (n - 2) (mj_bs s') = take (n - 2) (mj_stream s)"

lemma mjpg_loop_refill:
  assumes "mjpg_rd_ptr s = mjpg_wr_ptr s" and "mjpg_refill s = Done (None, s1)" and "mjpg_rd_ptr s1 < mjpg_wr_ptr s1"
  shows "mjpg_loop (Suc fuel) s = mjpg_loop (Suc fuel) s1"
proof -
  have "mjpg_rd_ptr s1 \<noteq> mjpg_wr_ptr s1" using assms(3) by simp
  then show ?thesis unfolding mjpg_loop.simps assms(1,2) by simp
qed

lemma mjpg_loop_next:
  assumes "mj_ok s" and "mjpg_rd_ptr s < mjpg_wr_ptr s" and "soi_found (mjpg_sc_state s) (mj_window s) = None"
  shows "mjpg_loop (Suc fuel) s = mjpg_loop fuel (s\<lparr>mjpg_sc_state := soi_next (mjpg_sc_state s) (mj_window s), mjpg_rd_ptr := mjpg_wr_ptr s\<rparr>)"
proof -
  have "mj_window s \<noteq> []" using mj_window_rest(2) [OF assms(1)] assms(2) by (auto simp: word_less_nat_alt)
  moreover have "mjpg_sc_state s \<in> {0, 1, 2}" "mjpg_rd_ptr s \<noteq> mjpg_wr_ptr s" using assms(1,2) by (auto simp: mj_ok_def)
  ultimately show ?thesis
    using assms(3) by (simp add: mjpg_seek_soi_found mj_window_read [OF assms(1)])
qed

lemma mjpg_loop_found_here:
  assumes "mj_ok s" and "mjpg_rd_ptr s < mjpg_wr_ptr s" and "soi_found (mjpg_sc_state s) (mj_window s) = Some k"
    and "n = unat (mjpg_rd_ptr s) + k" and "2 \<le> n" and "n \<le> length (mj_bs s) + 2"
  obtains s' where "mjpg_loop (Suc fuel) s = Done (int n, s')" and "chunk_done s n s'"
proof -
  let ?rd = "mjpg_rd_ptr s + word_of_int (int k)"
  note win = mj_window_rest [OF assms(1)]
  have k: "mj_window s \<noteq> []" "k \<le> length (mj_window s)" using soi_found_bound [OF assms(3)] by auto
  have ok: "unat (mjpg_rd_ptr s) < unat (mjpg_wr_ptr s)" "unat (mjpg_wr_ptr s) \<le> length (mjpg_cached_bsbuf s)" "length (mjpg_cached_bsbuf s) < 2 ^ 31"
    "mjpg_sc_state s \<in> {0, 1, 2}" using assms(1,2) by (simp_all add: mj_ok_def word_less_nat_alt)
  have n: "n \<le> unat (mjpg_wr_ptr s)" "n < 2 ^ 31" using k win ok assms(4) by linarith+
  have rd: "unat ?rd = n" using unat_bs_addr [of "mjpg_rd_ptr s" k] n assms(4) by simp
  have w: "?rd = word_of_int (int n)" using rd by (metis word_of_int_uint uint_nat)
  have "2 \<le> ?rd" using rd assms(5) by (simp add: word_le_nat_alt)
  then have "uint (?rd - 2) = uint ?rd - uint (2 :: u32)" by (simp only: uint_minus_simple_alt)
  moreover have "uint ?rd = int n" by (metis rd uint_nat)
  ultimately have rd2: "uint (?rd - 2) = int (n - 2)" using assms(5) by (simp add: of_nat_diff)
  have s32: "s32 ?rd = int n" unfolding w using n(2) by (intro s32_of_int) (simp add: int32_def)
  let ?chunk = "take (n - 2) (mjpg_cached_bsbuf s)"
  have len: "length ?chunk = n - 2" using n ok by simp
  let ?s' = "s\<lparr>mjpg_sc_state := 2, mjpg_rd_ptr := ?rd, mj_bs := ?chunk @ drop (n - 2) (mj_bs s)\<rparr>"
  have cs: "c_slice (mjpg_cached_bsbuf s) 0 (int (n - 2)) = Some ?chunk" using n ok by (simp add: c_slice_def)
  have st: "c_store (mj_bs s) 0 ?chunk = Some (?chunk @ drop (n - 2) (mj_bs s))" using len assms(6) by (simp add: c_store_def)
  show thesis
  proof (rule that)
    show "mjpg_loop (Suc fuel) s = Done (int n, ?s')"
      using less_imp_neq [OF assms(2)] assms(3) cs st rd2 s32 ok(4) k(1) by (simp add: mjpg_seek_soi_found mj_window_read [OF assms(1)])
    show "chunk_done s n ?s'"
      using assms(1,6) rd n len ok by (auto simp: chunk_done_def mj_ok_def mj_stream_def mj_rest_def word_le_nat_alt)
  qed
qed

lemma chunk_done_after:
  assumes "chunk_done s1 n s'" and "mj_stream s1 = mj_stream s" and "length (mj_bs s1) = length (mj_bs s)"
    and "length (mjpg_cached_bsbuf s1) = length (mjpg_cached_bsbuf s)" and "length (mj_rest s1) \<le> length (mj_rest s)"
  shows "chunk_done s n s'"
  using assms by (auto simp: chunk_done_def)

text \<open>After a window without start code the search goes on behind it, with the automaton's state.\<close>

lemma mjpg_window_passed:
  assumes ok: "mj_ok s" and lt: "mjpg_rd_ptr s < mjpg_wr_ptr s"
    and f: "soi_found (mjpg_sc_state s) (drop (unat (mjpg_rd_ptr s)) (mj_stream s)) = Some k"
    and none: "soi_found (mjpg_sc_state s) (mj_window s) = None"
  defines "s1 \<equiv> s\<lparr>mjpg_sc_state := soi_next (mjpg_sc_state s) (mj_window s), mjpg_rd_ptr := mjpg_wr_ptr s\<rparr>"
  obtains j where "mj_ok s1" and "mj_stream s1 = mj_stream s" and "mj_rest s1 = mj_rest s"
    and "soi_found (mjpg_sc_state s1) (drop (unat (mjpg_rd_ptr s1)) (mj_stream s1)) = Some j"
    and "unat (mjpg_wr_ptr s) + j = unat (mjpg_rd_ptr s) + k"
proof -
  have ok1: "mj_ok s1" using ok by (auto simp: s1_def mj_ok_def soi_next_def)
  have same: "mj_stream s1 = mj_stream s" "mj_rest s1 = mj_rest s" by (simp_all add: s1_def mj_stream_def mj_rest_def)
  have win: "length (mj_window s) = unat (mjpg_wr_ptr s) - unat (mjpg_rd_ptr s)" "unat (mjpg_rd_ptr s) < unat (mjpg_wr_ptr s)"
    using mj_window_rest(2) [OF ok] lt by (simp_all add: word_less_nat_alt)
  have "mj_window s1 = []" by (simp add: s1_def mj_window_def)
  then have rest: "drop (unat (mjpg_rd_ptr s1)) (mj_stream s1) = mj_rest s"
    using mj_window_rest(1) [OF ok1] by (simp only: same(2) append_Nil)
  from f none obtain j where j: "soi_found (soi_next (mjpg_sc_state s) (mj_window s)) (mj_rest s) = Some j" "k = length (mj_window s) + j"
    by (auto simp: mj_window_rest(1) [OF ok] soi_found_append)
  show thesis by (rule that [OF ok1 same]) (use rest j win in \<open>simp_all add: s1_def\<close>)
qed

lemma mjpg_loop_found:
  assumes "mj_ok s" and "soi_found (mjpg_sc_state s) (drop (unat (mjpg_rd_ptr s)) (mj_stream s)) = Some k"
    and "n = unat (mjpg_rd_ptr s) + k" and "2 \<le> n" and "n \<le> length (mj_bs s) + 2" and "n + 8192 \<le> length (mjpg_cached_bsbuf s)"
    and "length (mj_rest s) + (if mjpg_rd_ptr s = mjpg_wr_ptr s then 0 else 1) \<le> fuel"
  obtains s' where "mjpg_loop fuel s = Done (int n, s')" and "chunk_done s n s'"
  using assms
proof (induction fuel arbitrary: s k thesis)
  case 0
  then have "mjpg_rd_ptr s = mjpg_wr_ptr s" "mj_rest s = []" by (auto split: if_splits)
  then show ?case using "0.prems"(3) mj_window_rest [OF "0.prems"(2)] by simp
next
  case (Suc fuel)
  have scan: "\<exists>s'. mjpg_loop (Suc fuel) s = Done (int n, s') \<and> chunk_done s n s'"
    if ok: "mj_ok s" and lt: "mjpg_rd_ptr s < mjpg_wr_ptr s" and f: "soi_found (mjpg_sc_state s) (drop (unat (mjpg_rd_ptr s)) (mj_stream s)) = Some k"
      and n: "n = unat (mjpg_rd_ptr s) + k" "n \<le> length (mj_bs s) + 2" "n + 8192 \<le> length (mjpg_cached_bsbuf s)"
      and le: "length (mj_rest s) \<le> fuel" for s k
  proof (cases "soi_found (mjpg_sc_state s) (mj_window s)")
    case (Some k')
    then have "k' = k" using f by (simp add: mj_window_rest(1) [OF ok] soi_found_append)
    then show ?thesis using mjpg_loop_found_here [OF ok lt _ n(1) Suc.prems(5) n(2)] Some by blast
  next
    case None
    let ?s1 = "s\<lparr>mjpg_sc_state := soi_next (mjpg_sc_state s) (mj_window s), mjpg_rd_ptr := mjpg_wr_ptr s\<rparr>"
    obtain j where ok1: "mj_ok ?s1" and same: "mj_stream ?s1 = mj_stream s" "mj_rest ?s1 = mj_rest s"
        and f1: "soi_found (mjpg_sc_state ?s1) (drop (unat (mjpg_rd_ptr ?s1)) (mj_stream ?s1)) = Some j"
        and j: "unat (mjpg_wr_ptr s) + j = unat (mjpg_rd_ptr s) + k"
      by (rule mjpg_window_passed [OF ok lt f None])
    obtain s' where "mjpg_loop fuel ?s1 = Done (int n, s')" "chunk_done ?s1 n s'"
      by (rule Suc.IH [OF _ ok1 f1]) (use n j Suc.prems(5) le same in simp_all)
    then show ?thesis using mjpg_loop_next [OF ok lt None] chunk_done_after [of ?s1 n s' s] same by simp
  qed
  show ?case
  proof (cases "mjpg_rd_ptr s = mjpg_wr_ptr s")
    case False
    then have "mjpg_rd_ptr s < mjpg_wr_ptr s" using Suc.prems(2) by (auto simp: mj_ok_def)
    then show ?thesis using scan [OF Suc.prems(2) _ Suc.prems(3,4,6,7)] Suc.prems(1,8) False by auto
  next
    case True
    have k: "mj_rest s \<noteq> []" "0 < k"
      using Suc.prems(3) mj_window_rest [OF Suc.prems(2)] True soi_found_bound by (fastforce, fastforce)
    obtain s1 where s1: "mjpg_refill s = Done (None, s1)" "refilled s s1"
      by (rule mjpg_refill_more [OF Suc.prems(2) True k(1)]) (use Suc.prems(4,7) True in auto)
    note r = s1(2) [unfolded refilled_def]
    have "\<exists>s'. mjpg_loop (Suc fuel) s1 = Done (int n, s') \<and> chunk_done s1 n s'"
      by (rule scan [of s1 k]) (use r Suc.prems True in auto)
    then show ?thesis using mjpg_loop_refill [OF True s1(1)] r chunk_done_after [of s1 n _ s] Suc.prems(1) by auto
  qed
qed

section \<open>From one chunk to the next\<close>

text \<open>Between two calls the scanner stands behind a start of image; the stream from that start on is \<open>T\<close>.\<close>

definition mj_at :: "mjpg \<Rightarrow> u8 list \<Rightarrow> bool" where
  "mj_at s T \<longleftrightarrow> mj_ok s \<and> 2 \<le> unat (mjpg_rd_ptr s) \<and> mjpg_sc_state s = 2 \<and> T = drop (unat (mjpg_rd_ptr s) - 2) (mj_stream s)"

lemma mjpg_compact_stream:
  assumes "mj_at s T"
  obtains s1 where "mjpg_compact s = Done s1" and "mj_ok s1" and "mjpg_rd_ptr s1 = 2" and "mjpg_sc_state s1 = 2" and "mj_stream s1 = T"
    and "mj_bs s1 = mj_bs s" and "length (mjpg_cached_bsbuf s1) = length (mjpg_cached_bsbuf s)" and "mj_rest s1 = mj_rest s"
    and "mjpg_eof s1 = mjpg_eof s"
proof (cases "mjpg_rd_ptr s > 2")
  case False
  then have "mjpg_rd_ptr s = 2" using assms by (auto simp: mj_at_def word_less_nat_alt intro!: word_unat_eq_iff [THEN iffD2])
  then show thesis using that [of s] assms False by (simp add: mjpg_compact_def mj_at_def)
next
  case True
  define f w where "f = unat (mjpg_rd_ptr s) - 2" and "w = unat (mjpg_wr_ptr s)"
  let ?from = "mjpg_rd_ptr s - 2" and ?buf = "mjpg_cached_bsbuf s"
  have ok: "mjpg_rd_ptr s \<le> mjpg_wr_ptr s" "w \<le> length ?buf" using assms by (simp_all add: mj_at_def mj_ok_def w_def)
  have u: "unat ?from = f" using True by (simp add: f_def unat_sub word_less_nat_alt word_le_nat_alt)
  have le: "?from \<le> mjpg_wr_ptr s" "f \<le> w" "2 \<le> w - f"
    using ok(1) u True by (simp_all add: word_le_nat_alt word_less_nat_alt f_def w_def)
  have n: "unat (mjpg_wr_ptr s - ?from) = w - f" using le(1) u by (simp add: unat_sub w_def)
  have ui: "uint ?from = int f" "uint (mjpg_wr_ptr s - ?from) = int (w - f)" using u n by (metis uint_nat)+
  let ?bs = "take (w - f) (drop f ?buf)" and ?m = "take (w - f) (drop f ?buf) @ drop (w - f) ?buf"
  let ?s1 = "s\<lparr>mjpg_cached_bsbuf := ?m, mjpg_wr_ptr := mjpg_wr_ptr s - ?from, mjpg_rd_ptr := 2\<rparr>"
  have len: "length ?bs = w - f" using ok(2) le(2) by simp
  have "c_slice ?buf (int f) (int (w - f)) = Some ?bs" "c_store ?buf 0 ?bs = Some ?m"
    using ok(2) le(2) len by (simp_all add: c_slice_def c_store_def nat_diff_distrib)
  then have run: "mjpg_compact s = Done ?s1" using True by (simp add: mjpg_compact_def ui)
  have rest: "mj_rest ?s1 = mj_rest s" by (simp add: mj_rest_def)
  have "mj_stream ?s1 = ?bs @ mj_rest s" using n len rest by (simp add: mj_stream_def)
  also have "\<dots> = T" using assms ok(2) le(2) by (simp add: mj_at_def mj_stream_def f_def w_def drop_take)
  finally have str: "mj_stream ?s1 = T" .
  have okk: "mj_ok ?s1" using assms n le ok(2) len by (auto simp: mj_at_def mj_ok_def word_le_nat_alt)
  show thesis by (rule that [OF run okk _ _ str]) (use assms rest len ok(2) in \<open>auto simp: mj_at_def\<close>)
qed

lemma till_soi_next:
  assumes "mj_at s T" and "first_soi (drop 2 T) = Some p" and "p + 4 + 8192 \<le> length (mjpg_cached_bsbuf s)" and "p + 2 \<le> length (mj_bs s)"
    and "length (mj_rest s) < fuel"
  obtains s' where "mjpg_read_chunk_till_soi fuel s = Done (int (p + 4), s')" and "mj_at s' (drop (p + 2) T)"
    and "take (p + 2) (mj_bs s') = take (p + 2) T" and "length (mj_bs s') = length (mj_bs s)"
    and "length (mjpg_cached_bsbuf s') = length (mjpg_cached_bsbuf s)" and "length (mj_rest s') \<le> length (mj_rest s)"
proof -
  obtain s1 where s1: "mjpg_compact s = Done s1" "mj_ok s1" "mjpg_rd_ptr s1 = 2" "mjpg_sc_state s1 = 2" "mj_stream s1 = T"
    "mj_bs s1 = mj_bs s" "length (mjpg_cached_bsbuf s1) = length (mjpg_cached_bsbuf s)" "mj_rest s1 = mj_rest s"
    by (rule mjpg_compact_stream [OF assms(1)])
  have "soi_found (mjpg_sc_state s1) (drop (unat (mjpg_rd_ptr s1)) (mj_stream s1)) = Some (p + 2)"
    using assms(2) s1 by (simp add: soi_found_def)
  then obtain s' where "mjpg_loop fuel s1 = Done (int (p + 4), s')" "chunk_done s1 (p + 4) s'"
    by (rule mjpg_loop_found [where fuel = fuel and n = "p + 4", OF s1(2)]) (use assms(3-5) s1 in auto)
  then show thesis using s1 by (intro that [of s']) (auto simp: mjpg_read_chunk_till_soi_def mj_at_def chunk_done_def)
qed

lemma till_soi_end:
  assumes "mj_at s T" and "drop 2 T = []" and "8194 \<le> length (mjpg_cached_bsbuf s)" and "0 < fuel"
  obtains s' where "mjpg_read_chunk_till_soi fuel s = Done (0, s')"
proof -
  obtain s1 where s1: "mjpg_compact s = Done s1" "mj_ok s1" "mjpg_rd_ptr s1 = 2" "mj_stream s1 = T"
    "length (mjpg_cached_bsbuf s1) = length (mjpg_cached_bsbuf s)"
    by (rule mjpg_compact_stream [OF assms(1)])
  have e: "mj_window s1 = []" "mj_rest s1 = []" using mj_window_rest(1) [OF s1(2)] s1(3,4) assms(2) by simp_all
  have wr: "mjpg_rd_ptr s1 = mjpg_wr_ptr s1" "unat (mjpg_wr_ptr s1) = 2" "mjpg_eof s1 \<noteq> 0"
    using mj_window_rest(2) [OF s1(2)] e s1(2,3) by (auto simp: mj_ok_def mj_rest_def word_le_nat_alt intro!: word_unat_eq_iff [THEN iffD2] split: if_splits)
  obtain s' where "mjpg_refill s1 = Done (Some 0, s')" by (rule mjpg_refill_end [OF s1(2) wr(3)]) (use assms(3) s1(5) wr in auto)
  then show thesis using s1(1) wr(1) assms(4) by (cases fuel) (auto simp: mjpg_read_chunk_till_soi_def intro: that)
qed

lemma till_soi_first:
  assumes "mj_ok s" and "mjpg_rd_ptr s = 0" and "mjpg_wr_ptr s = 0" and "mjpg_sc_state s = 0" and "first_soi (mj_stream s) = Some p"
    and "p + 2 + 8192 \<le> length (mjpg_cached_bsbuf s)" and "p \<le> length (mj_bs s)" and "length (mj_rest s) < fuel"
  obtains s' where "mjpg_read_chunk_till_soi fuel s = Done (int (p + 2), s')" and "mj_at s' (drop p (mj_stream s))"
    and "length (mj_bs s') = length (mj_bs s)"
    and "length (mjpg_cached_bsbuf s') = length (mjpg_cached_bsbuf s)" and "length (mj_rest s') \<le> length (mj_rest s)"
proof -
  have "soi_found (mjpg_sc_state s) (drop (unat (mjpg_rd_ptr s)) (mj_stream s)) = Some (p + 2)"
    using assms(2,4,5) by (simp add: soi_found_def)
  then obtain s' where "mjpg_loop fuel s = Done (int (p + 2), s')" "chunk_done s (p + 2) s'"
    by (rule mjpg_loop_found [where fuel = fuel and n = "p + 2", OF assms(1)]) (use assms in auto)
  then show thesis
    using assms(2) by (intro that [of s']) (auto simp: mjpg_read_chunk_till_soi_def mjpg_compact_def mj_at_def chunk_done_def)
qed

section \<open>The whole clip\<close>

text \<open>A decoder that asks for chunks until there are none left, and how many rounds it may take.\<close>

fun mjpg_clip :: "nat \<Rightarrow> nat \<Rightarrow> mjpg \<Rightarrow> (int \<times> u8 list list) run" where
  "mjpg_clip 0 fuel s = Blocked"
| "mjpg_clip (Suc rounds) fuel s =
     run_bind (mjpg_read_chunk fuel s) (\<lambda>(ret, s1).
       if ret \<le> 0 then Done (ret, [])
       else run_bind (mjpg_clip rounds fuel s1) (\<lambda>(r, cs). Done (r, take (nat (ret - 2)) (mj_bs s1) # cs)))"

text \<open>The pictures of a stream that begins with a start of image.\<close>

lemma first_soi_less: "first_soi bs = Some p \<Longrightarrow> p + 2 \<le> length bs"
  by (induction bs arbitrary: p rule: first_soi.induct) (auto split: if_splits)

function split_soi :: "u8 list \<Rightarrow> u8 list list" where
  "split_soi T = (if T = [] then [] else case first_soi (drop 2 T) of None \<Rightarrow> [T] | Some p \<Rightarrow> take (p + 2) T # split_soi (drop (p + 2) T))"
  by pat_completeness auto
termination by (relation "measure length") (auto simp: neq_Nil_conv)

declare split_soi.simps [simp del]

lemma first_soi_pad: "first_soi (bs @ [0xFF, 0xD8]) = Some (case first_soi bs of Some p \<Rightarrow> p | None \<Rightarrow> length bs)"
  using soi_found_pad [of 0 bs] by (simp add: soi_found_def split: option.splits)

lemma first_soi_at: "first_soi bs = Some p \<Longrightarrow> take 2 (drop p bs) = [0xFF, 0xD8]"
  by (induction bs arbitrary: p rule: first_soi.induct) (auto split: if_splits)

lemma first_soi_before: "first_soi bs = Some p \<Longrightarrow> first_soi (take p bs) = None"
proof (rule ccontr)
  assume a: "first_soi bs = Some p" and "first_soi (take p bs) \<noteq> None"
  then obtain q where q: "first_soi (take p bs) = Some q" by auto
  then have "soi_found 0 (take p bs @ drop p bs) = Some (q + 2)" by (simp only: soi_found_append) (simp add: soi_found_def)
  then have "q = p" using a by (simp add: soi_found_def)
  then show False using first_soi_less [OF q] by simp
qed

lemma split_soi_pictures:
  assumes "T = [] \<or> take 2 T = [0xFF, 0xD8]"
  shows "concat (split_soi T) = T \<and> (\<forall>c\<in>set (split_soi T). take 2 c = [0xFF, 0xD8] \<and> first_soi (drop 2 c) = None)"
  using assms
proof (induction T rule: split_soi.induct)
  case (1 T)
  show ?case
  proof (cases "T = []")
    case False
    then have T: "take 2 T = [0xFF, 0xD8]" using "1.prems" by simp
    show ?thesis
    proof (cases "first_soi (drop 2 T)")
      case None
      then show ?thesis using False T by (simp add: split_soi.simps [of T])
    next
      case (Some p)
      have "take 2 (drop (p + 2) T) = [0xFF, 0xD8]" using first_soi_at [OF Some] by (simp add: add.commute)
      moreover have "take 2 (take (p + 2) T) = [0xFF, 0xD8]" "drop 2 (take (p + 2) T) = take p (drop 2 T)"
        using T by (simp_all add: drop_take numeral_2_eq_2)
      ultimately show ?thesis using "1.IH" [OF False Some] first_soi_before [OF Some] False Some
        by (simp add: split_soi.simps [of T])
    qed
  qed (simp add: split_soi.simps)
qed

lemma mjpg_clip_from:
  assumes "mj_at s (T @ [0xFF, 0xD8])" and "T = [] \<or> 2 \<le> length T"
    and "\<forall>c\<in>set (split_soi T). length c + 2 + 8192 \<le> length (mjpg_cached_bsbuf s) \<and> length c \<le> length (mj_bs s)"
    and "8194 \<le> length (mjpg_cached_bsbuf s)" and "length (mj_rest s) < fuel"
  shows "mjpg_clip (Suc (length (split_soi T))) fuel s = Done (0, split_soi T)"
  using assms
proof (induction T arbitrary: s rule: measure_induct_rule [of length])
  case (less T)
  have rd: "mjpg_rd_ptr s \<noteq> 0" using less.prems(1) by (auto simp: mj_at_def)
  show ?case
  proof (cases "T = []")
    case True
    obtain s' where "mjpg_read_chunk_till_soi fuel s = Done (0, s')"
      by (rule till_soi_end [where fuel = fuel, OF less.prems(1)]) (use True less.prems in auto)
    then show ?thesis using True rd by (simp add: split_soi.simps mjpg_read_chunk_def)
  next
    case False
    define p where "p = (case first_soi (drop 2 T) of Some p \<Rightarrow> p | None \<Rightarrow> length T - 2)"
    have T2: "2 \<le> length T" using False less.prems(2) by simp
    then have "drop 2 (T @ [0xFF, 0xD8]) = drop 2 T @ [0xFF, 0xD8]" by simp
    then have f: "first_soi (drop 2 (T @ [0xFF, 0xD8])) = Some p" by (simp only: first_soi_pad p_def length_drop)
    have p: "p + 2 \<le> length T" "drop (p + 2) T = [] \<or> 2 \<le> length (drop (p + 2) T)"
      using T2 first_soi_less [of "drop 2 T"] by (auto simp: p_def split: option.splits)
    have split: "split_soi T = take (p + 2) T # split_soi (drop (p + 2) T)"
      using False T2 by (auto simp: split_soi.simps [of T] split_soi.simps [of "[]"] p_def split: option.split)
    obtain s' where s': "mjpg_read_chunk_till_soi fuel s = Done (int (p + 4), s')" "mj_at s' (drop (p + 2) (T @ [0xFF, 0xD8]))"
      "take (p + 2) (mj_bs s') = take (p + 2) (T @ [0xFF, 0xD8])" "length (mj_bs s') = length (mj_bs s)"
      "length (mjpg_cached_bsbuf s') = length (mjpg_cached_bsbuf s)" "length (mj_rest s') \<le> length (mj_rest s)"
      by (rule till_soi_next [where fuel = fuel, OF less.prems(1) f]) (use less.prems(3,5) split p(1) in auto)
    have IH: "mjpg_clip (Suc (length (split_soi (drop (p + 2) T)))) fuel s' = Done (0, split_soi (drop (p + 2) T))"
      by (rule less.IH) (use s' p T2 less.prems(3-5) split in auto)
    have ret: "mjpg_read_chunk fuel s = Done (int (p + 4), s')" using s'(1) rd by (simp add: mjpg_read_chunk_def)
    have chunk: "take (nat (int (p + 4) - 2)) (mj_bs s') = take (p + 2) T" using s'(3) p(1) by (simp add: nat_add_distrib) 
    show ?thesis unfolding split by (simp only: mjpg_clip.simps(2) [of "Suc (length (split_soi (drop (p + 2) T)))" fuel s] ret run_bind.simps prod.case length_Cons chunk IH) simp
  qed
qed

section \<open>Properties\<close>

text \<open>
  C14: A motion JPEG clip is handed to the decoder picture by picture. For a file without read errors, asking for chunks until there
  are none returns exactly the pieces of the file between the starts of image, in order and without a byte missing from the first start
  of image on, although a start code may be cut by the 8 KiB pieces in which the file is read: each chunk begins with
  a start of image and holds no other, and the last one ends with the file. The cache has to hold a chunk and one more piece; the
  fuel is enough, and after the last chunk the result is 0.
\<close>

theorem mjpg_clip_pictures:
  assumes "mjpg_rd_ptr s = 0" and "mjpg_wr_ptr s = 0" and "mjpg_sc_state s = 0" and "mjpg_eof s = 0"
    and "cl_src_scheme (mj_cmd s) \<noteq> PATH_NET" and "None \<notin> set (rf_sched (vw_src (mj_world s)))"
    and "D = rf_data (vw_src (mj_world s))" and "skip = (case first_soi D of Some p \<Rightarrow> p | None \<Rightarrow> length D)"
    and "length (mjpg_cached_bsbuf s) < 2 ^ 31" and "skip + 2 + 8192 \<le> length (mjpg_cached_bsbuf s)" and "skip \<le> length (mj_bs s)"
    and "\<forall>c\<in>set (split_soi (drop skip D)). length c + 2 + 8192 \<le> length (mjpg_cached_bsbuf s) \<and> length c \<le> length (mj_bs s)"
  shows "\<exists>cs. mjpg_clip (length cs + 1) (length D + 3) s = Done (0, cs) \<and> concat cs = drop skip D \<and>
    (\<forall>c\<in>set cs. take 2 c = [0xFF, 0xD8] \<and> first_soi (drop 2 c) = None)"
proof -
  have ok: "mj_ok s" using assms(1-6,9) by (auto simp: mj_ok_def)
  have rest: "mj_rest s = D @ [0xFF, 0xD8]" and str: "mj_stream s = D @ [0xFF, 0xD8]"
    using assms(2,4,7) by (simp_all add: mj_rest_def mj_stream_def)
  have f: "first_soi (mj_stream s) = Some skip" unfolding str first_soi_pad assms(8) ..
  have skip: "skip \<le> length D" "drop skip D = [] \<or> take 2 (drop skip D) = [0xFF, 0xD8]"
    using first_soi_less [of D] first_soi_at [of D] by (auto simp: assms(8) split: option.splits)
  let ?T = "drop skip D" and ?fuel = "length D + 3"
  obtain s1 where s1: "mjpg_read_chunk_till_soi ?fuel s = Done (int (skip + 2), s1)" "mj_at s1 (drop skip (mj_stream s))"
    "length (mj_bs s1) = length (mj_bs s)" "length (mjpg_cached_bsbuf s1) = length (mjpg_cached_bsbuf s)" "length (mj_rest s1) \<le> length (mj_rest s)"
    by (rule till_soi_first [where fuel = ?fuel, OF ok assms(1-3) f assms(10,11)]) (use rest in simp)
  have "mj_at s1 (?T @ [0xFF, 0xD8])" using s1(2) str skip(1) by simp
  moreover have "?T = [] \<or> 2 \<le> length ?T" using skip(2) by (metis length_Cons length_take list.size(3) min.cobounded1 numeral_2_eq_2)
  ultimately have clip: "mjpg_clip (Suc (length (split_soi ?T))) ?fuel s1 = Done (0, split_soi ?T)"
    by (intro mjpg_clip_from) (use s1 assms(10,12) rest in auto)
  have "mjpg_rd_ptr s1 \<noteq> 0" using s1(2) by (auto simp: mj_at_def)
  then have "mjpg_read_chunk ?fuel s = mjpg_read_chunk ?fuel s1" using s1(1) assms(1) by (simp add: mjpg_read_chunk_def)
  then have "mjpg_clip (length (split_soi ?T) + 1) ?fuel s = Done (0, split_soi ?T)" using clip by simp
  then show ?thesis using split_soi_pictures [OF skip(2)] by blast
qed

theorem mjpg_clip_pictures_witness:
  "\<exists>cs. mjpg_clip (length cs + 1) 11
      \<lparr>mjpg_wr_ptr = 0, mjpg_rd_ptr = 0, mjpg_sc_state = 0, mjpg_eof = 0, mjpg_cached_bsbuf = replicate 9000 0, mj_bs = replicate 100 0,
        mj_cmd = cmd_zero, mj_world = demo_world [1, 0xFF, 0xD8, 5, 0xFF, 0xD8, 6, 7]\<rparr> = Done (0, cs) \<and>
    concat cs = [0xFF, 0xD8, 5, 0xFF, 0xD8, 6, 7] \<and> (\<forall>c\<in>set cs. take 2 c = [0xFF, 0xD8] \<and> first_soi (drop 2 c) = None)"
proof -
  let ?D = "[1, 0xFF, 0xD8, 5, 0xFF, 0xD8, 6, 7] :: u8 list"
  let ?s = "\<lparr>mjpg_wr_ptr = 0, mjpg_rd_ptr = 0, mjpg_sc_state = 0, mjpg_eof = 0, mjpg_cached_bsbuf = replicate 9000 0, mj_bs = replicate 100 0,
        mj_cmd = cmd_zero, mj_world = demo_world ?D\<rparr>"
  have "first_soi ?D = Some 1" "split_soi (drop 1 ?D) = [[0xFF, 0xD8, 5], [0xFF, 0xD8, 6, 7]]"
    by (simp_all add: split_soi.simps)
  moreover have "cl_src_scheme (mj_cmd ?s) \<noteq> PATH_NET" "rf_data (vw_src (mj_world ?s)) = ?D" "rf_sched (vw_src (mj_world ?s)) = []"
    by (simp_all add: cmd_zero_def path_defs demo_world_def)
  ultimately show ?thesis using mjpg_clip_pictures [of ?s ?D 1] by simp
qed

end
