(* ===== verification/Loopback.thy ===== *)
theory Loopback
  imports Dec_Bitstream
begin

text \<open>
  The loop-back test (\<^verbatim>\<open>src/test/mxc_vpu_test/loopback.c\<close>): what the encoder produces is copied into the ring of
  the decoder by a \<open>dec_fill_bsbuffer\<close> of its own, first the headers (\<open>encoder_fill_headers\<close>), then each picture. The library is the
  parameter \<open>dec_lib\<close> of the decoder ring, and \<open>hdr_lib\<close> for the commands that produce headers.
\<close>

section \<open>Copying into the decoder's ring\<close>

record 'h lb =
  lb_handle :: 'h
  lb_mem :: "u8 list"

text \<open>The two ways to copy \<open>size\<close> bytes of \<open>buf\<close> to \<open>target_addr\<close>.\<close>

definition loop_copy :: "u32 \<Rightarrow> u32 \<Rightarrow> u32 \<Rightarrow> u8 list \<Rightarrow> int \<Rightarrow> u8 list \<Rightarrow> u8 list option" where
  "loop_copy va va_end target_addr buf sz mem =
     (if target_addr + word_of_int sz > va_end then
        (let room = s32 (va_end - target_addr)
         in case (c_slice buf 0 room, c_slice buf room (sz - room)) of
              (Some as, Some bs) \<Rightarrow>
                (case c_store mem (uint target_addr - uint va) as of None \<Rightarrow> None | Some m \<Rightarrow> c_store m 0 bs)
            | _ \<Rightarrow> None)
      else case c_slice buf 0 sz of None \<Rightarrow> None | Some bs \<Rightarrow> c_store mem (uint target_addr - uint va) bs)"

definition loop_fill_bsbuffer :: "'h dec_lib \<Rightarrow> u32 \<Rightarrow> u32 \<Rightarrow> u32 \<Rightarrow> u8 list \<Rightarrow> int \<Rightarrow> 'h lb \<Rightarrow> (int \<times> 'h lb) run" where
  "loop_fill_bsbuffer lib bs_va_startaddr bs_va_endaddr bs_pa_startaddr buf sz s =
     (let (ok, pa_read_ptr, pa_write_ptr, space) = dl_get lib (lb_handle s)
      in if \<not> ok then Done (-1, s)
         else if space \<le> 0 \<or> sz \<le> 0 then Done (0, s)
         else if space < word_of_int sz then Done (0, s)
         else (case loop_copy bs_va_startaddr bs_va_endaddr (bs_va_startaddr + (pa_write_ptr - bs_pa_startaddr)) buf sz (lb_mem s) of
                 None \<Rightarrow> Undef
               | Some m \<Rightarrow>
                   (let (ok, h) = dl_update lib (lb_handle s) (word_of_int sz); s' = s\<lparr>lb_mem := m, lb_handle := h\<rparr>
                    in if ok then Done (sz, s') else Done (-1, s'))))"

section \<open>The headers\<close>

text \<open>
  \<open>hl_put\<close> is \<open>vpu_EncGiveCommand\<close> for one type of header: the memory at \<open>virt_bsbuf_addr\<close>, and the physical address and
  size it returns. \<open>hl_jpeg\<close> fills the parameter set of the JPEG header.
\<close>

record 'e hdr_lib =
  hl_put :: "int \<Rightarrow> 'e \<Rightarrow> (u8 list \<times> u32 \<times> int) \<times> 'e"
  hl_jpeg :: "'e \<Rightarrow> (u8 list \<times> int) \<times> 'e"
  VOS_HEADER :: int
  VIS_HEADER :: int
  VOL_HEADER :: int
  SPS_RBSP :: int
  PPS_RBSP :: int
  hl_STD_MPEG4 :: int
  hl_STD_AVC :: int
  hl_STD_MJPG :: int
  hl_mx27 :: bool
  hl_mx6x :: bool

record 'h dec_ring =
  dr_lib :: "'h dec_lib"
  dr_va :: u32
  dr_va_end :: u32
  dr_pa :: u32

abbreviation ring_fill :: "'h dec_ring \<Rightarrow> u8 list \<Rightarrow> int \<Rightarrow> 'h lb \<Rightarrow> (int \<times> 'h lb) run" where
  "ring_fill dr \<equiv> loop_fill_bsbuffer (dr_lib dr) (dr_va dr) (dr_va_end dr) (dr_pa dr)"

definition fill_header :: "'h dec_ring \<Rightarrow> 'e hdr_lib \<Rightarrow> u32 \<Rightarrow> int \<Rightarrow> 'e \<times> 'h lb \<Rightarrow> (int \<times> 'e \<times> 'h lb) run" where
  "fill_header dr hl phy_bsbuf headerType x = (case x of (e, s) \<Rightarrow>
     (let ((mem, buf, sz), e') = hl_put hl headerType e
      in run_bind (ring_fill dr (drop (unat (buf - phy_bsbuf)) mem) sz s) (\<lambda>(ret, s'). Done (ret, e', s'))))"

text \<open>One header after the other, until one fails.\<close>

fun fill_header_list :: "'h dec_ring \<Rightarrow> 'e hdr_lib \<Rightarrow> u32 \<Rightarrow> int list \<Rightarrow> 'e \<times> 'h lb \<Rightarrow> (int \<times> 'e \<times> 'h lb) run" where
  "fill_header_list dr hl phy [] x = Done (0, x)"
| "fill_header_list dr hl phy (t # ts) x =
     run_bind (fill_header dr hl phy t x) (\<lambda>(ret, x'). if ret < 0 then Done (-1, x') else fill_header_list dr hl phy ts x')"

text \<open>
  \<open>alloc\<close> says whether \<open>malloc\<close> succeeds. The motion JPEG branch would first free \<open>enc->huffTable\<close> and
  \<open>enc->qMatTable\<close>; no function of the program stores anything there, so both are null and nothing is freed.
\<close>

definition loop_fill_headers :: "'h dec_ring \<Rightarrow> 'e hdr_lib \<Rightarrow> u32 \<Rightarrow> int \<Rightarrow> bool \<Rightarrow> 'e \<times> 'h lb \<Rightarrow> (int \<times> 'e \<times> 'h lb) run" where
  "loop_fill_headers dr hl phy_bsbuf format alloc x =
     (if format = hl_STD_MPEG4 hl then
        fill_header_list dr hl phy_bsbuf ((if hl_mx27 hl then [VOS_HEADER hl, VIS_HEADER hl] else []) @ [VOL_HEADER hl]) x
      else if format = hl_STD_AVC hl then fill_header_list dr hl phy_bsbuf [SPS_RBSP hl, PPS_RBSP hl] x
      else if format = hl_STD_MJPG hl \<and> hl_mx6x hl then
        (if alloc then
           (case x of (e, s) \<Rightarrow>
              (let ((bytes, sz), e') = hl_jpeg hl e
               in run_bind (ring_fill dr bytes sz s) (\<lambda>(ret, s'). Done (if ret < 0 then -1 else 0, e', s'))))
         else Done (-1, x))
      else Done (0, x))"

section \<open>The content of the ring\<close>

definition lb_content :: "nat \<Rightarrow> ('h \<Rightarrow> nat) \<Rightarrow> ('h \<Rightarrow> nat) \<Rightarrow> 'h lb \<Rightarrow> u8 list" where
  "lb_content n rd wr s = ring_bytes (lb_mem s) (rd (lb_handle s)) (ring_used n (rd (lb_handle s)) (wr (lb_handle s)))"

abbreviation lb_room :: "nat \<Rightarrow> ('h \<Rightarrow> nat) \<Rightarrow> ('h \<Rightarrow> nat) \<Rightarrow> 'h lb \<Rightarrow> nat" where
  "lb_room n rd wr s \<equiv> ring_room n (rd (lb_handle s)) (wr (lb_handle s))"

lemma ring_append:
  assumes "r < n" and "w < n" and "length mem = n" and "length bs \<le> ring_room n r w"
  shows "ring_bytes (ring_write mem w bs) r (ring_used n r ((w + length bs) mod n)) = ring_bytes mem r (ring_used n r w) @ bs"
proof -
  let ?u = "ring_used n r w"
  have u: "?u + length bs < n" using assms(1,4) ring_used_less [of n r w] by (auto simp: ring_room_def)
  have "ring_write mem w bs = ring_write mem (r + ?u) bs"
    using assms(1-3) ring_used_pos [of r n w] by (intro ring_write_cong_mod) simp
  then show ?thesis using ring_bytes_write [of ?u bs mem r] ring_used_add [OF assms(1,2) u] u assms(3) by simp
qed

lemma loop_copy_ring:
  assumes "bs_geom va va_end n" and "length mem = n" and "w < n" and "k < n" and "k \<le> length buf"
  shows "loop_copy va va_end (va + of_nat w) buf (int k) mem = Some (ring_write mem w (take k buf))"
proof -
  have "unat (va + of_nat w) = unat va + w" using assms(1,3) by (intro unat_bs_addr) (simp add: bs_geom_def)
  then have off: "uint (va + of_nat w) - uint va = int w" unfolding uint_nat by simp
  have cmp: "va_end < va + of_nat w + word_of_int (int k) \<longleftrightarrow> n < w + k"
    using bs_geom_compare [OF assms(1,3,4)] by simp
  show ?thesis
  proof (cases "n < w + k")
    case False
    then show ?thesis using assms c_store_ring [of "int w" "take k buf" mem] unfolding loop_copy_def cmp off by (simp add: c_slice_def)
  next
    case True
    let ?as = "take (n - w) buf" and ?bs = "take (k - (n - w)) (drop (n - w) buf)"
    have rm: "s32 (va_end - (va + of_nat w)) = int (n - w)" using True assms(4) by (intro bs_geom_room [OF assms(1,3)]) simp
    have cat: "?as @ ?bs = take k buf" using True assms(3) take_add [of "n - w" "k - (n - w)" buf] by simp
    have sl: "c_slice buf 0 (int (n - w)) = Some ?as" "c_slice buf (int (n - w)) (int k - int (n - w)) = Some ?bs"
      using True assms(3,5) by (auto simp: c_slice_def of_nat_diff nat_diff_distrib)
    have st: "c_store mem (int w) ?as = Some (ring_write mem w ?as)" "c_store (ring_write mem w ?as) 0 ?bs = Some (ring_write (ring_write mem w ?as) 0 ?bs)"
      using c_store_ring [of "int w" ?as mem] c_store_ring [of 0 ?bs "ring_write mem w ?as"] True assms(2-5) by auto
    have "w + length ?as = length mem" using True assms(2,3,4,5) by simp
    then show ?thesis
      using True ring_write_two [of w ?as mem ?bs] unfolding cat
      by (simp only: loop_copy_def cmp if_True Let_def rm sl st off option.case prod.case)
  qed
qed

lemma loop_fill_fits:
  assumes "dec_lib_laws (dr_lib dr) (dr_pa dr) n rd wr" and "bs_geom (dr_va dr) (dr_va_end dr) n" and "length (lb_mem s) = n"
    and "0 < k" and "k \<le> lb_room n rd wr s" and "k \<le> length buf"
  obtains s' where "ring_fill dr buf (int k) s = Done (int k, s')" and "lb_content n rd wr s' = lb_content n rd wr s @ take k buf"
    and "length (lb_mem s') = n" and "rd (lb_handle s') = rd (lb_handle s)" and "lb_room n rd wr s' = lb_room n rd wr s - k"
proof -
  let ?h = "lb_handle s" and ?u = "dl_update (dr_lib dr) (lb_handle s) (of_nat k)"
  note get = dec_lib_get [OF assms(1), of ?h]
  have k: "k < n" using get(4) assms(5) by simp
  have room: "(of_nat (lb_room n rd wr s) :: u32) \<noteq> 0" "\<not> (of_nat (lb_room n rd wr s) :: u32) < word_of_int (int k)"
    using bs_geom_less [OF assms(2) get(4)] assms(4,5)
    by (simp_all add: word_unat_eq_iff word_less_nat_alt unat_of_nat take_bit_nat_eq_self)
  have up: "fst ?u" "rd (snd ?u) = rd ?h" "wr (snd ?u) = (wr ?h + k) mod n"
    using assms(1,4,5) by (auto simp: dec_lib_laws_def)
  let ?s' = "s\<lparr>lb_mem := ring_write (lb_mem s) (wr ?h) (take k buf), lb_handle := snd ?u\<rparr>"
  have "ring_fill dr buf (int k) s = Done (int k, ?s')"
    using assms(4) room up(1) loop_copy_ring [OF assms(2,3) get(3) k assms(6)]
    by (simp add: loop_fill_bsbuffer_def get(1) split_beta)
  moreover have "lb_content n rd wr ?s' = lb_content n rd wr s @ take k buf"
    using ring_append [OF get(2,3) assms(3), of "take k buf"] assms(5,6) up by (simp add: lb_content_def min_absorb2)
  moreover have "lb_room n rd wr ?s' = lb_room n rd wr s - k"
    using ring_used_add [OF get(2,3), of k] assms(5) up ring_used_less [of n "rd ?h" "wr ?h"] k by (simp add: ring_room_def)
  ultimately show thesis using up assms(3) by (intro that [of ?s']) simp_all
qed

text \<open>Nothing is copied when there is not enough room; the caller takes this for a success.\<close>

lemma loop_fill_full:
  assumes "dec_lib_laws (dr_lib dr) (dr_pa dr) n rd wr" and "bs_geom (dr_va dr) (dr_va_end dr) n"
    and "lb_room n rd wr s < k" and "k < 2 ^ 31"
  shows "ring_fill dr buf (int k) s = Done (0, s)"
proof -
  note get = dec_lib_get [OF assms(1), of "lb_handle s"]
  have "(of_nat (lb_room n rd wr s) :: u32) < word_of_int (int k)"
    using bs_geom_less [OF assms(2) get(4)] assms(3,4) by (simp add: word_less_nat_alt unat_of_nat take_bit_nat_eq_self)
  then show ?thesis by (simp add: loop_fill_bsbuffer_def get(1))
qed

section \<open>Headers in the ring\<close>

text \<open>What the library produces for a list of header types, and that each header is a part of the encoder's buffer.\<close>

fun hdr_bytes :: "'e hdr_lib \<Rightarrow> u32 \<Rightarrow> int list \<Rightarrow> 'e \<Rightarrow> u8 list" where
  "hdr_bytes hl phy [] e = []"
| "hdr_bytes hl phy (t # ts) e =
     (case hl_put hl t e of ((mem, buf, sz), e') \<Rightarrow> take (nat sz) (drop (unat (buf - phy)) mem) @ hdr_bytes hl phy ts e')"

fun hdr_ok :: "'e hdr_lib \<Rightarrow> u32 \<Rightarrow> int list \<Rightarrow> 'e \<Rightarrow> bool" where
  "hdr_ok hl phy [] e \<longleftrightarrow> True"
| "hdr_ok hl phy (t # ts) e \<longleftrightarrow>
     (case hl_put hl t e of ((mem, buf, sz), e') \<Rightarrow> 0 < sz \<and> nat sz \<le> length (drop (unat (buf - phy)) mem) \<and> hdr_ok hl phy ts e')"

definition hdr_types :: "'e hdr_lib \<Rightarrow> int \<Rightarrow> int list" where
  "hdr_types hl format = (if format = hl_STD_MPEG4 hl then (if hl_mx27 hl then [VOS_HEADER hl, VIS_HEADER hl] else []) @ [VOL_HEADER hl]
     else [SPS_RBSP hl, PPS_RBSP hl])"

lemma fill_header_list_content:
  assumes "dec_lib_laws (dr_lib dr) (dr_pa dr) n rd wr" and "bs_geom (dr_va dr) (dr_va_end dr) n"
    and "length (lb_mem s) = n" and "hdr_ok hl phy ts e" and "length (hdr_bytes hl phy ts e) \<le> lb_room n rd wr s"
  shows "\<exists>e' s'. fill_header_list dr hl phy ts (e, s) = Done (0, e', s') \<and> lb_content n rd wr s' = lb_content n rd wr s @ hdr_bytes hl phy ts e"
  using assms(3-)
proof (induction ts arbitrary: e s)
  case (Cons t ts)
  obtain mem buf sz e1 where put: "hl_put hl t e = ((mem, buf, sz), e1)" by (metis prod.exhaust)
  define k where "k = nat sz"
  let ?bytes = "drop (unat (buf - phy)) mem"
  have k: "sz = int k" "0 < k" "k \<le> length ?bytes" "hdr_ok hl phy ts e1" using Cons.prems(2) put by (auto simp: k_def)
  have fit: "k + length (hdr_bytes hl phy ts e1) \<le> lb_room n rd wr s" using Cons.prems(3) put k by (simp add: min_absorb2)
  then have "k \<le> lb_room n rd wr s" by simp
  then obtain s1 where s1: "ring_fill dr ?bytes (int k) s = Done (int k, s1)" "lb_content n rd wr s1 = lb_content n rd wr s @ take k ?bytes"
    "length (lb_mem s1) = n" "lb_room n rd wr s1 = lb_room n rd wr s - k"
    by (rule loop_fill_fits [OF assms(1,2) Cons.prems(1) k(2) _ k(3)])
  have "length (hdr_bytes hl phy ts e1) \<le> lb_room n rd wr s1" using s1(4) fit by linarith
  then obtain e' s' where "fill_header_list dr hl phy ts (e1, s1) = Done (0, e', s')"
    "lb_content n rd wr s' = lb_content n rd wr s1 @ hdr_bytes hl phy ts e1"
    using Cons.IH [OF s1(3) k(4)] by auto
  then show ?case using put s1 k(1) by (simp add: fill_header_def)
qed simp

section \<open>Encoder, decoder and the ring between them\<close>

text \<open>
  The state, the bytes the decoder has taken and the bytes that were accepted. A copy of \<open>k\<close> bytes is accepted when its result
  is \<open>k\<close>.
\<close>

inductive lb_step :: "'h dec_ring \<Rightarrow> nat \<Rightarrow> ('h \<Rightarrow> nat) \<Rightarrow> ('h \<Rightarrow> nat) \<Rightarrow> 'h lb \<times> u8 list \<times> u8 list \<Rightarrow> 'h lb \<times> u8 list \<times> u8 list \<Rightarrow> bool"
  for dr n rd wr where
  feed: "0 < k \<Longrightarrow> k < 2 ^ 31 \<Longrightarrow> k \<le> length buf \<Longrightarrow> ring_fill dr buf (int k) s = Done (r, s') \<Longrightarrow>
      lb_step dr n rd wr (s, c, a) (s', c, if r = int k then a @ take k buf else a)"
| take: "k \<le> ring_used n (rd (lb_handle s)) (wr (lb_handle s)) \<Longrightarrow>
      rd h' = (rd (lb_handle s) + k) mod n \<Longrightarrow> wr h' = wr (lb_handle s) \<Longrightarrow>
      lb_step dr n rd wr (s, c, a) (s\<lparr>lb_handle := h'\<rparr>, c @ ring_bytes (lb_mem s) (rd (lb_handle s)) k, a)"

inductive_cases lb_stepE: "lb_step dr n rd wr (s, c, a) y"

definition lb_inv :: "nat \<Rightarrow> ('h \<Rightarrow> nat) \<Rightarrow> ('h \<Rightarrow> nat) \<Rightarrow> 'h lb \<times> u8 list \<times> u8 list \<Rightarrow> bool" where
  "lb_inv n rd wr x \<longleftrightarrow> (case x of (s, c, a) \<Rightarrow> length (lb_mem s) = n \<and> c @ lb_content n rd wr s = a)"

lemma lb_step_inv:
  assumes "dec_lib_laws (dr_lib dr) (dr_pa dr) n rd wr" and "bs_geom (dr_va dr) (dr_va_end dr) n"
    and "lb_step dr n rd wr x y" and "lb_inv n rd wr x"
  shows "lb_inv n rd wr y"
  using assms(3)
proof cases
  case (feed k buf s r s' c a)
  have n: "length (lb_mem s) = n" "c @ lb_content n rd wr s = a" using assms(4) feed(1) by (simp_all add: lb_inv_def)
  show ?thesis
  proof (cases "k \<le> lb_room n rd wr s")
    case True
    then show ?thesis
      by (rule loop_fill_fits [OF assms(1,2) n(1) feed(3) _ feed(5)]) (use feed n in \<open>auto simp: lb_inv_def\<close>)
  next
    case False
    then have "ring_fill dr buf (int k) s = Done (0, s)" using feed(4) by (intro loop_fill_full [OF assms(1,2)]) simp_all
    then show ?thesis using feed n by (auto simp: lb_inv_def)
  qed
next
  case (take k s h' c a)
  let ?r = "rd (lb_handle s)" and ?u = "ring_used n (rd (lb_handle s)) (wr (lb_handle s))"
  note get = dec_lib_get [OF assms(1), of "lb_handle s"]
  have n: "length (lb_mem s) = n" "c @ lb_content n rd wr s = a" using assms(4) take(1) by (simp_all add: lb_inv_def)
  have "lb_content n rd wr (s\<lparr>lb_handle := h'\<rparr>) = ring_bytes (lb_mem s) ((?r + k) mod length (lb_mem s)) (?u - k)"
    using ring_used_consume [OF get(2,3) take(3)] take(4,5) n by (simp add: lb_content_def)
  then have "ring_bytes (lb_mem s) ?r k @ lb_content n rd wr (s\<lparr>lb_handle := h'\<rparr>) = lb_content n rd wr s"
    using ring_bytes_add [of "lb_mem s" ?r k "?u - k"] take(3) by (simp add: lb_content_def)
  then show ?thesis using n take(2) by (auto simp: lb_inv_def)
qed

lemma lb_steps_inv:
  assumes "dec_lib_laws (dr_lib dr) (dr_pa dr) n rd wr" and "bs_geom (dr_va dr) (dr_va_end dr) n"
  shows "(lb_step dr n rd wr)\<^sup>*\<^sup>* x y \<Longrightarrow> lb_inv n rd wr x \<Longrightarrow> lb_inv n rd wr y"
  by (induction rule: rtranclp_induct) (auto intro: lb_step_inv [OF assms])

lemma loop_fill_headers_content:
  assumes "dec_lib_laws (dr_lib dr) (dr_pa dr) n rd wr" and "bs_geom (dr_va dr) (dr_va_end dr) n" and "length (lb_mem s) = n"
    and "format = hl_STD_MPEG4 hl \<or> format = hl_STD_AVC hl"
    and "hdr_ok hl phy (hdr_types hl format) e" and "length (hdr_bytes hl phy (hdr_types hl format) e) \<le> lb_room n rd wr s"
  shows "\<exists>e' s'. loop_fill_headers dr hl phy format alloc (e, s) = Done (0, e', s') \<and>
    lb_content n rd wr s' = lb_content n rd wr s @ hdr_bytes hl phy (hdr_types hl format) e"
proof -
  have "loop_fill_headers dr hl phy format alloc (e, s) = fill_header_list dr hl phy (hdr_types hl format) (e, s)"
    using assms(4) by (auto simp: loop_fill_headers_def hdr_types_def)
  then show ?thesis using fill_header_list_content [OF assms(1-3,5,6)] by simp
qed

definition demo_loop :: "(nat \<times> nat) dec_ring" where
  "demo_loop = \<lparr>dr_lib = demo_ring, dr_va = 0x2000, dr_va_end = 0x2008, dr_pa = 0x1000\<rparr>"

section \<open>Properties\<close>

text \<open>
  C7: The ring of the loop-back test is a queue between encoder and decoder. Whatever buffers are copied into it and however the decoder
  takes bytes out in between, what the decoder has taken followed by the content of the ring is what was accepted, in order, across
  the wrap at the end of the ring. A buffer that fits is accepted as a whole, and the headers of an MPEG-4 or H.264 stream, if
  there is room for them, are put behind the content in the order in which the library produces them.
\<close>

theorem loopback_in_order:
  assumes "dec_lib_laws (dr_lib dr) (dr_pa dr) n rd wr" and "bs_geom (dr_va dr) (dr_va_end dr) n"
    and "length (lb_mem s0) = n" and "rd (lb_handle s0) = wr (lb_handle s0)"
    and "(lb_step dr n rd wr)\<^sup>*\<^sup>* (s0, [], []) (s, c, a)"
  shows "c @ lb_content n rd wr s = a \<and>
    (\<forall>buf k. 0 < k \<and> k \<le> lb_room n rd wr s \<and> k \<le> length buf \<longrightarrow>
       (\<exists>s'. loop_fill_bsbuffer (dr_lib dr) (dr_va dr) (dr_va_end dr) (dr_pa dr) buf (int k) s = Done (int k, s') \<and>
         lb_content n rd wr s' = lb_content n rd wr s @ take k buf)) \<and>
    (\<forall>(hl :: 'e hdr_lib) phy format alloc e. (format = hl_STD_MPEG4 hl \<or> format = hl_STD_AVC hl) \<and> hdr_ok hl phy (hdr_types hl format) e \<and>
       length (hdr_bytes hl phy (hdr_types hl format) e) \<le> lb_room n rd wr s \<longrightarrow>
       (\<exists>e' s'. loop_fill_headers dr hl phy format alloc (e, s) = Done (0, e', s') \<and>
         lb_content n rd wr s' = lb_content n rd wr s @ hdr_bytes hl phy (hdr_types hl format) e))"
proof -
  have "lb_inv n rd wr (s0, [], [])"
    using assms(3,4) dec_lib_get(2) [OF assms(1), of "lb_handle s0"] by (simp add: lb_inv_def lb_content_def ring_used_same)
  then have inv: "length (lb_mem s) = n" "c @ lb_content n rd wr s = a"
    using lb_steps_inv [OF assms(1,2,5)] by (auto simp: lb_inv_def)
  show ?thesis
  proof (intro conjI allI impI)
    fix buf :: "u8 list" and k assume "0 < k \<and> k \<le> lb_room n rd wr s \<and> k \<le> length buf"
    then show "\<exists>s'. loop_fill_bsbuffer (dr_lib dr) (dr_va dr) (dr_va_end dr) (dr_pa dr) buf (int k) s = Done (int k, s') \<and>
        lb_content n rd wr s' = lb_content n rd wr s @ take k buf"
      using loop_fill_fits [OF assms(1,2) inv(1), of k buf] by blast
  next
    fix hl :: "'e hdr_lib" and phy format alloc e
    assume "(format = hl_STD_MPEG4 hl \<or> format = hl_STD_AVC hl) \<and> hdr_ok hl phy (hdr_types hl format) e \<and>
       length (hdr_bytes hl phy (hdr_types hl format) e) \<le> lb_room n rd wr s"
    then show "\<exists>e' s'. loop_fill_headers dr hl phy format alloc (e, s) = Done (0, e', s') \<and>
         lb_content n rd wr s' = lb_content n rd wr s @ hdr_bytes hl phy (hdr_types hl format) e"
      by (intro loop_fill_headers_content [OF assms(1,2) inv(1)]) simp_all
  qed (rule inv(2))
qed

theorem loopback_in_order_witness:
  "lb_content 8 (lib_rd 8) (lib_wr 8) \<lparr>lb_handle = (6, 3), lb_mem = [3, 4, 5, 0, 0, 0, 1, 2]\<rparr> = [1, 2, 3, 4, 5]"
proof -
  let ?s0 = "\<lparr>lb_handle = (6, 6), lb_mem = [0, 0, 0, 0, 0, 0, 0, 0]\<rparr> :: (nat \<times> nat) lb"
  let ?s1 = "\<lparr>lb_handle = (6, 3), lb_mem = [3, 4, 5, 0, 0, 0, 1, 2]\<rparr> :: (nat \<times> nat) lb"
  let ?buf = "[1, 2, 3, 4, 5, 6] :: u8 list"
  have "ring_fill demo_loop ?buf (int 5) ?s0 = Done (5, ?s1)"
    by (simp add: loop_fill_bsbuffer_def demo_loop_def demo_ring_def ring_lib_def ring_room_def ring_used_def loop_copy_def c_slice_def c_store_def)
  then have "lb_step demo_loop 8 (lib_rd 8) (lib_wr 8) (?s0, [], []) (?s1, [], if 5 = int 5 then [] @ take 5 ?buf else [])"
    by (intro lb_step.feed) simp_all
  then have reach: "(lb_step demo_loop 8 (lib_rd 8) (lib_wr 8))\<^sup>*\<^sup>* (?s0, [], []) (?s1, [], [1, 2, 3, 4, 5])" by simp
  have laws: "dec_lib_laws (dr_lib demo_loop) (dr_pa demo_loop) 8 (lib_rd 8) (lib_wr 8)" and geom: "bs_geom (dr_va demo_loop) (dr_va_end demo_loop) 8"
    by (simp_all add: demo_loop_def demo_ring_laws demo_geom)
  have "[] @ lb_content 8 (lib_rd 8) (lib_wr 8) ?s1 = [1, 2, 3, 4, 5]"
    by (rule loopback_in_order [OF laws geom _ _ reach, THEN conjunct1]) simp_all
  then show ?thesis by simp
qed

end
