(* ===== verification/Enc_Source.thy ===== *)
theory Enc_Source
  imports Vpu_Io Vpu_Fb Ring_Memory
begin

unbundle bit_operations_syntax

text \<open>
  Loading a source picture into a frame buffer (\<^verbatim>\<open>src/test/mxc_vpu_test/enc.c\<close>: \<open>read_from_file\<close>). The memory is the block of the frame
  buffer from its virtual address on; the addresses of the planes are those \<open>framebuf_alloc\<close> of \<open>Vpu_Fb\<close> computed.
\<close>

section \<open>Reading\<close>

record enc_src =
  src_picwidth :: int
  src_picheight :: int
  src_mjpg_fmt :: int
  src_chromaInterleave :: int

text \<open>\<open>freadn\<close> to an address of the block: the result, the block and the file.\<close>

definition fb_read :: "u32 \<Rightarrow> u32 \<Rightarrow> int \<Rightarrow> u8 list \<times> rfile \<Rightarrow> (int \<times> u8 list \<times> rfile) run" where
  "fb_read va addr n st = (case st of (mem, f) \<Rightarrow>
     (let (r, bs, f') = freadn f n
      in case c_store mem (uint addr - uint va) bs of None \<Rightarrow> Undef | Some m \<Rightarrow> Done (r, m, f')))"

function fb_read_rows ::
    "u32 \<Rightarrow> int \<Rightarrow> int \<Rightarrow> int \<Rightarrow> int \<Rightarrow> u32 \<Rightarrow> int \<times> u8 list \<times> rfile \<Rightarrow> (int \<times> u8 list \<times> rfile) run" where
  "fb_read_rows va stride w n i addr st =
     (if i < n then run_bind (fb_read va addr w (snd st)) (fb_read_rows va stride w n (i + 1) (addr + word_of_int stride))
      else Done st)"
  by pat_completeness auto
termination by (relation "measure (\<lambda>(va, stride, w, n, i, addr, st). nat (n - i))") auto

declare fb_read_rows.simps [simp del]

definition read_from_file :: "enc_src \<Rightarrow> frame_buf \<Rightarrow> u8 list \<times> rfile \<Rightarrow> (int \<times> u8 list \<times> rfile) run" where
  "read_from_file enc pfb st =
     (let divX = div_x (src_mjpg_fmt enc); divY = div_y (src_mjpg_fmt enc);
          w = src_picwidth enc; h = src_picheight enc;
          y_size = w * h; c_size = y_size sdiv divX sdiv divY; img_size = y_size + c_size * 2;
          va = md_virt_uaddr (desc pfb);
          y_addr = addrY pfb + va - md_phy_addr (desc pfb);
          u_addr = addrCb pfb + va - md_phy_addr (desc pfb);
          v_addr = addrCr pfb + va - md_phy_addr (desc pfb)
      in if w = strideY pfb then
           if img_size = md_size (desc pfb) then fb_read va y_addr img_size st
           else run_bind (fb_read va y_addr y_size st) (\<lambda>(r1, st1).
             if src_chromaInterleave enc = 0 then
               run_bind (fb_read va u_addr c_size st1) (\<lambda>(r2, st2). fb_read va v_addr c_size st2)
             else fb_read va u_addr (c_size * 2) st1)
         else
           run_bind (fb_read_rows va (strideY pfb) w h 0 y_addr (0, st)) (\<lambda>st1.
             if src_chromaInterleave enc = 0 then
               run_bind (fb_read_rows va (strideC pfb) (w sdiv divX) (h sdiv divY) 0 u_addr st1)
                 (fb_read_rows va (strideC pfb) (w sdiv divX) (h sdiv divY) 0 v_addr)
             else fb_read_rows va (strideC pfb * 2) (w sdiv divX * 2) (h sdiv divY) 0 u_addr st1))"

section \<open>Planes in memory\<close>

definition plane_at :: "u8 list \<Rightarrow> nat \<Rightarrow> nat \<Rightarrow> nat \<Rightarrow> nat \<Rightarrow> u8 list \<Rightarrow> bool" where
  "plane_at mem off stride w h d \<longleftrightarrow> (\<forall>y<h. \<forall>x<w. mem ! (off + stride * y + x) = d ! (w * y + x))"

definition mem_kept :: "nat \<Rightarrow> nat \<Rightarrow> u8 list \<Rightarrow> u8 list \<Rightarrow> bool" where
  "mem_kept a b mem mem' \<longleftrightarrow> length mem' = length mem \<and> (\<forall>j. j < a \<or> b \<le> j \<longrightarrow> mem' ! j = mem ! j)"

definition src_ok :: "nat \<Rightarrow> rfile \<Rightarrow> bool" where
  "src_ok n f \<longleftrightarrow> n \<le> length (rf_data f) \<and> None \<notin> set (rf_sched f)"

text \<open>A plane of \<open>w\<close> times \<open>h\<close> pixels has been loaded from the front of the file.\<close>

definition loaded :: "nat \<Rightarrow> nat \<Rightarrow> nat \<Rightarrow> nat \<Rightarrow> u8 list \<times> rfile \<Rightarrow> u8 list \<times> rfile \<Rightarrow> bool" where
  "loaded off stride w h st st' \<longleftrightarrow> (case (st, st') of ((mem, f), (mem', f')) \<Rightarrow>
     plane_at mem' off stride w h (rf_data f) \<and> mem_kept off (off + stride * h) mem mem' \<and>
     rf_data f' = drop (w * h) (rf_data f) \<and> None \<notin> set (rf_sched f'))"

lemma freadn_ok:
  assumes "src_ok n f"
  obtains f' where "freadn f (int n) = (int n, take n (rf_data f), f')" and "rf_data f' = drop n (rf_data f)" and "None \<notin> set (rf_sched f')"
proof -
  obtain r bs f' where rd: "freadn_loop f (int n) (int n) [] = (r, bs, f')" by (rule prod_cases3)
  have "r = int n" "bs = take n (rf_data f)" "rf_data f' = drop n (rf_data f)"
    using freadn_loop_correct [OF rd] assms by (auto simp: src_ok_def min_absorb1)
  moreover have "None \<notin> set (rf_sched f')" using freadn_loop_sched [OF rd] assms by (auto simp: src_ok_def)
  ultimately show thesis using rd that by (simp add: freadn_def)
qed

lemma fb_read_block:
  assumes "src_ok n f" and "off + n \<le> length mem" and "unat va + length mem < 2 ^ 32"
  obtains mem' f' where "fb_read va (va + of_nat off) (int n) (mem, f) = Done (int n, mem', f')" and "mem_kept off (off + n) mem mem'"
    and "\<forall>i<n. mem' ! (off + i) = rf_data f ! i" and "rf_data f' = drop n (rf_data f)" and "None \<notin> set (rf_sched f')"
proof -
  obtain f' where f': "freadn f (int n) = (int n, take n (rf_data f), f')" "rf_data f' = drop n (rf_data f)" "None \<notin> set (rf_sched f')"
    by (rule freadn_ok [OF assms(1)])
  have n: "length (take n (rf_data f)) = n" using assms(1) by (simp add: src_ok_def)
  have "unat (va + of_nat off) = unat va + off" using assms(2,3) by (intro unat_bs_addr) simp
  then have off: "uint (va + of_nat off) - uint va = int off" unfolding uint_nat by simp
  let ?m = "take off mem @ take n (rf_data f) @ drop (off + n) mem"
  have "c_store mem (int off) (take n (rf_data f)) = Some ?m" using assms(2) n by (simp add: c_store_def)
  then have "fb_read va (va + of_nat off) (int n) (mem, f) = Done (int n, ?m, f')" by (simp add: fb_read_def f'(1) off)
  moreover have "mem_kept off (off + n) mem ?m" using assms(2) n by (auto simp: mem_kept_def nth_append)
  moreover have "\<forall>i<n. ?m ! (off + i) = rf_data f ! i" using assms(2) n by (simp add: nth_append)
  ultimately show thesis using that f'(2,3) by blast
qed

lemma mem_kept_trans:
  "mem_kept a b m1 m2 \<Longrightarrow> mem_kept a' b' m2 m3 \<Longrightarrow> a \<le> a' \<Longrightarrow> b' \<le> c \<Longrightarrow> b \<le> c \<Longrightarrow> mem_kept a c m1 m3"
  by (auto simp: mem_kept_def)

lemma plane_index: "y < h \<Longrightarrow> x < w \<Longrightarrow> w \<le> stride \<Longrightarrow> stride * y + x < stride * (h :: nat)"
proof -
  assume "y < h" "x < w" "w \<le> stride"
  then have "stride * Suc y \<le> stride * h" by (intro mult_le_mono2) simp
  then show ?thesis using \<open>x < w\<close> \<open>w \<le> stride\<close> by simp
qed

lemma fb_read_plane:
  assumes "src_ok (w * h) f" and "off + w * h \<le> length mem" and "unat va + length mem < 2 ^ 32"
  obtains mem' f' where "fb_read va (va + of_nat off) (int (w * h)) (mem, f) = Done (int (w * h), mem', f')"
    and "loaded off w w h (mem, f) (mem', f')"
proof -
  obtain mem' f' where r: "fb_read va (va + of_nat off) (int (w * h)) (mem, f) = Done (int (w * h), mem', f')" "mem_kept off (off + w * h) mem mem'"
    "\<forall>i<w * h. mem' ! (off + i) = rf_data f ! i" "rf_data f' = drop (w * h) (rf_data f)" "None \<notin> set (rf_sched f')"
    by (rule fb_read_block [OF assms])
  have "plane_at mem' off w w h (rf_data f)"
    unfolding plane_at_def using r(3) plane_index [of _ h _ w w] by (metis add.assoc order_refl)
  then show thesis using r that by (simp add: loaded_def)
qed

lemma fb_rows_plane:
  assumes "src_ok (w * k) f" and "w \<le> stride" and "off + stride * k \<le> length mem" and "unat va + length mem < 2 ^ 32"
  obtains mem' f' where "fb_read_rows va (int stride) (int w) (int (i + k)) (int i) (va + of_nat off) (r0, mem, f) =
      Done (if k = 0 then r0 else int w, mem', f')" and "loaded off stride w k (mem, f) (mem', f')"
  using assms
proof (induction k arbitrary: i off r0 mem f thesis)
  case 0
  show ?case
    by (rule "0.prems"(1) [of mem f]) (use "0.prems"(2) in \<open>simp_all add: fb_read_rows.simps loaded_def plane_at_def mem_kept_def src_ok_def\<close>)
next
  case (Suc k)
  have len: "length (rf_data f) \<ge> w + w * k" "None \<notin> set (rf_sched f)" using Suc.prems(2) by (simp_all add: src_ok_def)
  then have "src_ok w f" by (simp add: src_ok_def)
  moreover have "off + w \<le> length mem" using Suc.prems(3,4) by simp
  ultimately obtain m1 f1 where r1: "fb_read va (va + of_nat off) (int w) (mem, f) = Done (int w, m1, f1)" and k1: "mem_kept off (off + w) mem m1"
    and d1: "\<forall>i<w. m1 ! (off + i) = rf_data f ! i" and f1: "rf_data f1 = drop w (rf_data f)" "None \<notin> set (rf_sched f1)"
    by (rule fb_read_block [OF _ _ Suc.prems(5)])
  have m1: "length m1 = length mem" using k1 by (simp add: mem_kept_def)
  obtain m2 f2 where r2: "fb_read_rows va (int stride) (int w) (int (Suc i + k)) (int (Suc i)) (va + of_nat (off + stride)) (int w, m1, f1) =
      Done (if k = 0 then int w else int w, m2, f2)" and l2: "loaded (off + stride) stride w k (m1, f1) (m2, f2)"
    by (rule Suc.IH [where i = "Suc i" and off = "off + stride" and ?r0.0 = "int w" and mem = m1 and f = f1])
      (use Suc.prems(3-5) f1 len m1 in \<open>simp_all add: src_ok_def\<close>)
  have "fb_read_rows va (int stride) (int w) (int (i + Suc k)) (int i) (va + of_nat off) (r0, mem, f) = Done (int w, m2, f2)"
    using r1 r2 by (subst fb_read_rows.simps) (simp add: ac_simps)
  moreover have "loaded off stride w (Suc k) (mem, f) (m2, f2)"
  proof -
    note l = l2 [unfolded loaded_def prod.case]
    have "m2 ! (off + stride * y + x) = rf_data f ! (w * y + x)" if "y < Suc k" "x < w" for y x
    proof (cases y)
      case 0
      then show ?thesis using l d1 that Suc.prems(3) by (simp add: mem_kept_def)
    next
      case (Suc z)
      then have "m2 ! (off + stride * y + x) = rf_data f1 ! (w * z + x)" using l that by (simp add: plane_at_def add.assoc)
      also have "\<dots> = rf_data f ! (w + (w * z + x))" using f1(1) len(1) by simp
      finally show ?thesis using Suc by (simp add: add.assoc)
    qed
    moreover have "mem_kept off (off + stride * Suc k) mem m2"
      using l by (intro mem_kept_trans [OF k1, of "off + stride" "off + stride + stride * k"]) (use Suc.prems(3) in simp_all)
    ultimately show ?thesis using l f1 by (simp add: loaded_def plane_at_def add.commute)
  qed
  ultimately show ?case using Suc.prems(1) by simp
qed

text \<open>A plane stays where it is while another one is loaded elsewhere.\<close>

lemma plane_kept:
  assumes "plane_at mem off stride w h d" and "mem_kept a b mem mem'" and "w \<le> stride" and "off + stride * h \<le> a"
  shows "plane_at mem' off stride w h d"
  using assms plane_index [of _ h _ w stride]
  unfolding plane_at_def mem_kept_def by (metis add.assoc add_less_cancel_left order_less_le_trans)

section \<open>The frame buffer\<close>

lemma linear_layout:
  assumes "io_laws lib phys virt" and "framebuf_alloc lib (Some fb) m fmt S h 0 io = Done (True, Some pfb, io')"
  shows "addrY pfb = md_phy_addr (desc pfb)" "addrCb pfb = addrY pfb + word_of_int (S * h)"
    "addrCr pfb = addrCb pfb + word_of_int (chroma_bytes fmt S h)" "strideY pfb = S" "strideC pfb = S sdiv div_x fmt"
    "md_size (desc pfb) = S * h + chroma_bytes fmt S h * 2"
proof -
  obtain c where c: "chroma_plane S h (div_x fmt) (div_y fmt) = Done c" and ls: "linear_size fmt S h 0 = Done (S * h, c, S * h + c * 2)"
    using assms(2) by (auto simp: framebuf_alloc_def linear_size_def run_bind_eq_Done)
  obtain e d io1 where p: "IOGetPhyMem lib (desc0\<lparr>md_size := S * h + c * 2\<rparr>) io = (e, d, io1)" by (rule prod_cases3)
  obtain r d' io2 where v: "IOGetVirtMem lib d io1 = (r, d', io2)" by (rule prod_cases3)
  have e: "e = 0" using assms(2) by (auto simp: framebuf_alloc_def ls p split: if_splits)
  note laws = io_laws_getphy [OF assms(1) p] io_laws_getvirt [OF assms(1) v]
  show "addrY pfb = md_phy_addr (desc pfb)" "addrCb pfb = addrY pfb + word_of_int (S * h)"
    "addrCr pfb = addrCb pfb + word_of_int (chroma_bytes fmt S h)" "strideY pfb = S" "strideC pfb = S sdiv div_x fmt"
    "md_size (desc pfb) = S * h + chroma_bytes fmt S h * 2"
    using assms(2) laws e chroma_plane_Done [OF c] unfolding framebuf_alloc_def option.case ls p v e run_bind.simps prod.case Let_def
    by (auto split: if_splits)
qed

text \<open>The planes of a picture in a frame buffer, with the chroma planes apart or interleaved.\<close>

definition planar_at :: "u8 list \<Rightarrow> nat \<Rightarrow> nat \<Rightarrow> nat \<Rightarrow> nat \<Rightarrow> nat \<Rightarrow> nat \<Rightarrow> nat \<Rightarrow> nat \<Rightarrow> u8 list \<Rightarrow> bool" where
  "planar_at mem L C S W H s w h d \<longleftrightarrow> plane_at mem 0 S W H d \<and> plane_at mem L s w h (drop (W * H) d) \<and>
     plane_at mem (L + C) s w h (drop (W * H + w * h) d)"

definition interleaved_at :: "u8 list \<Rightarrow> nat \<Rightarrow> nat \<Rightarrow> nat \<Rightarrow> nat \<Rightarrow> nat \<Rightarrow> nat \<Rightarrow> nat \<Rightarrow> u8 list \<Rightarrow> bool" where
  "interleaved_at mem L S W H s w h d \<longleftrightarrow> plane_at mem 0 S W H d \<and> plane_at mem L (2 * s) (2 * w) h (drop (W * H) d)"

lemma planar_loaded:
  assumes "loaded 0 S W H (mem, f) (m1, f1)" and "loaded L s w h (m1, f1) (m2, f2)" and "loaded (L + C) s w h (m2, f2) (m3, f3)"
    and "S * H \<le> L" and "s * h \<le> C" and "W \<le> S" and "w \<le> s"
  shows "planar_at m3 L C S W H s w h (rf_data f)" and "rf_data f3 = drop (W * H + 2 * (w * h)) (rf_data f)"
proof -
  note l = assms(1-3) [unfolded loaded_def prod.case]
  have "plane_at m2 0 S W H (rf_data f)" using l by (intro plane_kept [of m1 0 S W H _ L "L + s * h" m2]) (use assms(4,6) in simp_all)
  then have "plane_at m3 0 S W H (rf_data f)" using l by (intro plane_kept [of m2 0 S W H _ "L + C" "L + C + s * h" m3]) (use assms(4,6) in simp_all)
  moreover have "plane_at m3 L s w h (rf_data f1)" using l by (intro plane_kept [of m2 L s w h _ "L + C" "L + C + s * h" m3]) (use assms(5,7) in simp_all)
  ultimately show "planar_at m3 L C S W H s w h (rf_data f)" using l by (simp add: planar_at_def add.commute)
  show "rf_data f3 = drop (W * H + 2 * (w * h)) (rf_data f)" using l by (simp add: add.commute add.left_commute mult_2)
qed

lemma interleaved_loaded:
  assumes "loaded 0 S W H (mem, f) (m1, f1)" and "loaded L (2 * s) (2 * w) h (m1, f1) (m2, f2)" and "S * H \<le> L" and "W \<le> S"
  shows "interleaved_at m2 L S W H s w h (rf_data f)" and "rf_data f2 = drop (W * H + 2 * (w * h)) (rf_data f)"
proof -
  note l = assms(1,2) [unfolded loaded_def prod.case]
  have "plane_at m2 0 S W H (rf_data f)"
    using l by (intro plane_kept [of m1 0 S W H _ L "L + 2 * s * h" m2]) (use assms(3,4) in simp_all)
  then show "interleaved_at m2 L S W H s w h (rf_data f)" using l by (simp add: interleaved_at_def)
  show "rf_data f2 = drop (W * H + 2 * (w * h)) (rf_data f)" using l by (simp add: ac_simps)
qed

lemma block_planes:
  assumes "\<forall>i<n. mem ! (0 + i) = d ! i" and "n = W * H + 2 * (w * h)" and "n \<le> length d"
  shows "planar_at mem (W * H) (w * h) W W H w w h d" and "interleaved_at mem (W * H) W W H w w h d"
proof -
  have p: "plane_at mem off k k m (drop off d)" if "off + k * m \<le> n" for off k m
    unfolding plane_at_def
  proof (intro allI impI)
    fix y x assume "y < m" "x < k"
    then have "k * y + x < k * m" by (rule plane_index [OF _ _ order_refl])
    then show "mem ! (off + k * y + x) = drop off d ! (k * y + x)" using that assms(1,3) by (simp add: add.assoc)
  qed
  show "planar_at mem (W * H) (w * h) W W H w w h d" "interleaved_at mem (W * H) W W H w w h d"
    using p [of 0 W H] p [of "W * H" w h] p [of "W * H + w * h" w h] p [of "W * H" "2 * w" h] assms(2)
    by (simp_all add: planar_at_def interleaved_at_def)
qed

section \<open>The picture is loaded\<close>

lemma loaded_src:
  assumes "loaded off stride w h (mem, f) (mem', f')" and "src_ok (w * h + n) f"
  shows "src_ok n f'" "length mem' = length mem"
  using assms by (auto simp: loaded_def src_ok_def mem_kept_def)

lemma src_ok_le: "src_ok n f \<Longrightarrow> k \<le> n \<Longrightarrow> src_ok k f"
  by (simp add: src_ok_def)

lemma read_planar_rows:
  assumes "src_ok (W * H + 2 * (w * h)) f" and "W \<le> S" and "w \<le> s" and "S * H \<le> L" and "s * h \<le> C"
    and "L + 2 * C = length mem" and "unat va + length mem < 2 ^ 32" and "0 < h"
  obtains m3 f3 where "run_bind (fb_read_rows va (int S) (int W) (int H) 0 va (0, mem, f)) (\<lambda>st1.
      run_bind (fb_read_rows va (int s) (int w) (int h) 0 (va + of_nat L) st1) (fb_read_rows va (int s) (int w) (int h) 0 (va + of_nat (L + C)))) =
      Done (int w, m3, f3)" and "planar_at m3 L C S W H s w h (rf_data f)" and "rf_data f3 = drop (W * H + 2 * (w * h)) (rf_data f)"
proof -
  have "src_ok (W * H) f" using assms(1) by (simp add: src_ok_def)
  then obtain m1 f1 where r1: "fb_read_rows va (int S) (int W) (int (0 + H)) (int 0) (va + of_nat 0) (0, mem, f) = Done (if H = 0 then 0 else int W, m1, f1)"
    and l1: "loaded 0 S W H (mem, f) (m1, f1)"
    by (rule fb_rows_plane [where i = 0 and ?r0.0 = 0 and off = 0, OF _ assms(2) _ assms(7)]) (use assms(4,6) in simp_all)
  have 1: "src_ok (w * h + w * h) f1" "length m1 = length mem"
    using loaded_src [OF l1, of "w * h + w * h"] assms(1) by (simp_all add: mult_2)
  obtain m2 f2 where r2: "fb_read_rows va (int s) (int w) (int (0 + h)) (int 0) (va + of_nat L) (if H = 0 then 0 else int W, m1, f1) = Done (int w, m2, f2)"
    and l2: "loaded L s w h (m1, f1) (m2, f2)"
    by (rule fb_rows_plane [where i = 0 and ?r0.0 = "if H = 0 then 0 else int W" and off = L and mem = m1 and va = va, OF src_ok_le [OF 1(1) le_add1] assms(3)])
      (use assms(5-8) 1(2) in simp_all)
  have 2: "src_ok (w * h) f2" "length m2 = length mem"
    using loaded_src [OF l2 1(1)] 1(2) by simp_all
  obtain m3 f3 where r3: "fb_read_rows va (int s) (int w) (int (0 + h)) (int 0) (va + of_nat (L + C)) (int w, m2, f2) = Done (int w, m3, f3)"
    and l3: "loaded (L + C) s w h (m2, f2) (m3, f3)"
    by (rule fb_rows_plane [where i = 0 and ?r0.0 = "int w" and off = "L + C" and mem = m2 and va = va, OF 2(1) assms(3)])
      (use assms(5-8) 2(2) in simp_all)
  show thesis using that [of m3 f3] r1 r2 r3 planar_loaded [OF l1 l2 l3 assms(4,5,2,3)] by simp
qed

lemma read_interleaved_rows:
  assumes "src_ok (W * H + 2 * (w * h)) f" and "W \<le> S" and "w \<le> s" and "S * H \<le> L" and "s * h \<le> C"
    and "L + 2 * C = length mem" and "unat va + length mem < 2 ^ 32" and "0 < h"
  obtains m2 f2 where "run_bind (fb_read_rows va (int S) (int W) (int H) 0 va (0, mem, f))
      (fb_read_rows va (int s * 2) (int w * 2) (int h) 0 (va + of_nat L)) =
      Done (int (2 * w), m2, f2)" and "interleaved_at m2 L S W H s w h (rf_data f)" and "rf_data f2 = drop (W * H + 2 * (w * h)) (rf_data f)"
proof -
  have "src_ok (W * H) f" using assms(1) by (simp add: src_ok_def)
  then obtain m1 f1 where r1: "fb_read_rows va (int S) (int W) (int (0 + H)) (int 0) (va + of_nat 0) (0, mem, f) = Done (if H = 0 then 0 else int W, m1, f1)"
    and l1: "loaded 0 S W H (mem, f) (m1, f1)"
    by (rule fb_rows_plane [where i = 0 and ?r0.0 = 0 and off = 0, OF _ assms(2) _ assms(7)]) (use assms(4,6) in simp_all)
  have 1: "src_ok (2 * w * h) f1" "length m1 = length mem"
    using loaded_src [OF l1, of "2 * w * h"] assms(1) by (simp_all add: mult.assoc)
  have le: "L + 2 * s * h \<le> length m1" "2 * w \<le> 2 * s" using assms(3,5,6) 1(2) by simp_all
  obtain m2 f2 where r2: "fb_read_rows va (int (2 * s)) (int (2 * w)) (int (0 + h)) (int 0) (va + of_nat L) (if H = 0 then 0 else int W, m1, f1) =
      Done (if h = 0 then (if H = 0 then 0 else int W) else int (2 * w), m2, f2)"
    and l2: "loaded L (2 * s) (2 * w) h (m1, f1) (m2, f2)"
    by (rule fb_rows_plane [where i = 0 and ?r0.0 = "if H = 0 then 0 else int W" and off = L and mem = m1 and va = va, OF 1(1) le(2,1)])
      (use assms(7) 1(2) in simp_all)
  have "run_bind (fb_read_rows va (int S) (int W) (int H) 0 va (0, mem, f))
      (fb_read_rows va (int s * 2) (int w * 2) (int h) 0 (va + of_nat L)) = Done (int (2 * w), m2, f2)"
    using r1 r2 assms(8) by (simp add: mult.commute [of 2])
  then show thesis using that interleaved_loaded [OF l1 l2 assms(4,2)] by blast
qed

lemma read_planar_blocks:
  assumes "src_ok (W * H + 2 * (w * h)) f" and "W * H \<le> L" and "w * h \<le> C"
    and "L + 2 * C = length mem" and "unat va + length mem < 2 ^ 32"
  obtains m3 f3 where "run_bind (fb_read va va (int (W * H)) (mem, f)) (\<lambda>(r1, st1).
      run_bind (fb_read va (va + of_nat L) (int (w * h)) st1) (\<lambda>(r2, st2). fb_read va (va + of_nat (L + C)) (int (w * h)) st2)) =
      Done (int (w * h), m3, f3)" and "planar_at m3 L C W W H w w h (rf_data f)" and "rf_data f3 = drop (W * H + 2 * (w * h)) (rf_data f)"
proof -
  obtain m1 f1 where r1: "fb_read va (va + of_nat 0) (int (W * H)) (mem, f) = Done (int (W * H), m1, f1)" and l1: "loaded 0 W W H (mem, f) (m1, f1)"
    by (rule fb_read_plane [OF src_ok_le [OF assms(1) le_add1] _ assms(5), of 0]) (use assms(2,4) in simp_all)
  have 1: "src_ok (w * h + w * h) f1" "length m1 = length mem"
    using loaded_src [OF l1, of "w * h + w * h"] assms(1) by (simp_all add: mult_2)
  obtain m2 f2 where r2: "fb_read va (va + of_nat L) (int (w * h)) (m1, f1) = Done (int (w * h), m2, f2)" and l2: "loaded L w w h (m1, f1) (m2, f2)"
    by (rule fb_read_plane [OF src_ok_le [OF 1(1) le_add1], of L m1 va]) (use assms(3-5) 1(2) in simp_all)
  have 2: "src_ok (w * h) f2" "length m2 = length mem" using loaded_src [OF l2 1(1)] 1(2) by simp_all
  obtain m3 f3 where r3: "fb_read va (va + of_nat (L + C)) (int (w * h)) (m2, f2) = Done (int (w * h), m3, f3)"
    and l3: "loaded (L + C) w w h (m2, f2) (m3, f3)"
    by (rule fb_read_plane [OF 2(1), of "L + C" m2 va]) (use assms(3-5) 2(2) in simp_all)
  show thesis using that [of m3 f3] r1 r2 r3 planar_loaded [OF l1 l2 l3 assms(2,3)] by simp
qed

lemma read_interleaved_blocks:
  assumes "src_ok (W * H + 2 * (w * h)) f" and "W * H \<le> L" and "w * h \<le> C"
    and "L + 2 * C = length mem" and "unat va + length mem < 2 ^ 32"
  obtains m2 f2 where "run_bind (fb_read va va (int (W * H)) (mem, f)) (\<lambda>(r1, st1). fb_read va (va + of_nat L) (int (w * h) * 2) st1) =
      Done (int (2 * (w * h)), m2, f2)" and "interleaved_at m2 L W W H w w h (rf_data f)" and "rf_data f2 = drop (W * H + 2 * (w * h)) (rf_data f)"
proof -
  obtain m1 f1 where r1: "fb_read va (va + of_nat 0) (int (W * H)) (mem, f) = Done (int (W * H), m1, f1)" and l1: "loaded 0 W W H (mem, f) (m1, f1)"
    by (rule fb_read_plane [OF src_ok_le [OF assms(1) le_add1] _ assms(5), of 0]) (use assms(2,4) in simp_all)
  have 1: "src_ok (2 * w * h) f1" "length m1 = length mem"
    using loaded_src [OF l1, of "2 * w * h"] assms(1) by (simp_all add: mult.assoc)
  obtain m2 f2 where r2: "fb_read va (va + of_nat L) (int (2 * w * h)) (m1, f1) = Done (int (2 * w * h), m2, f2)"
    and l2: "loaded L (2 * w) (2 * w) h (m1, f1) (m2, f2)"
    by (rule fb_read_plane [OF 1(1), of L m1 va]) (use assms(3-5) 1(2) in simp_all)
  have e: "int (2 * w * h) = int (w * h) * 2" "int (2 * w * h) = int (2 * (w * h))" by simp_all
  have "run_bind (fb_read va va (int (W * H)) (mem, f)) (\<lambda>(r1, st1). fb_read va (va + of_nat L) (int (w * h) * 2) st1) =
      Done (int (2 * (w * h)), m2, f2)"
    using r1 r2 unfolding e(1) by (simp add: e)
  then show thesis using that interleaved_loaded [OF l1 l2 assms(2)] by blast
qed

text \<open>The function on a buffer of \<open>framebuf_alloc\<close>, with the sizes as natural numbers.\<close>

lemma read_from_file_eq:
  assumes "io_laws lib phys virt" and "framebuf_alloc lib (Some fb) m fmt (int S) (int Hs) 0 io = Done (True, Some pfb, io')"
    and "div_x fmt = int dx" and "div_y fmt = int dy" and "W = dx * w" and "H = dy * h" and "S = dx * s" and "Hs = dy * hs"
    and "va = md_virt_uaddr (desc pfb)"
    and "enc = \<lparr>src_picwidth = int W, src_picheight = int H, src_mjpg_fmt = fmt, src_chromaInterleave = ci\<rparr>"
  shows "md_size (desc pfb) = int (S * Hs + 2 * (s * hs))" and "read_from_file enc pfb st =
    (if W = S then
       if W * H + 2 * (w * h) = S * Hs + 2 * (s * hs) then fb_read va va (int (W * H + 2 * (w * h))) st
       else run_bind (fb_read va va (int (W * H)) st) (\<lambda>(r1, st1).
         if ci = 0 then
           run_bind (fb_read va (va + of_nat (S * Hs)) (int (w * h)) st1) (\<lambda>(r2, st2). fb_read va (va + of_nat (S * Hs + s * hs)) (int (w * h)) st2)
         else fb_read va (va + of_nat (S * Hs)) (int (w * h) * 2) st1)
     else
       run_bind (fb_read_rows va (int S) (int W) (int H) 0 va (0, st)) (\<lambda>st1.
         if ci = 0 then
           run_bind (fb_read_rows va (int s) (int w) (int h) 0 (va + of_nat (S * Hs)) st1)
             (fb_read_rows va (int s) (int w) (int h) 0 (va + of_nat (S * Hs + s * hs)))
         else fb_read_rows va (int s * 2) (int w * 2) (int h) 0 (va + of_nat (S * Hs)) st1))" (is "_ = ?run")
proof -
  have pos: "0 < dx" "0 < dy" using assms(3,4) by (auto simp: div_x_def div_y_def split: if_splits)
  note lay = linear_layout [OF assms(1,2)]
  have cb: "chroma_bytes fmt (int S) (int Hs) = int (s * hs)"
    using pos by (simp add: chroma_bytes_def assms(3,4,7,8) sdiv_nonneg)
  show size: "md_size (desc pfb) = int (S * Hs + 2 * (s * hs))" using lay(6) cb by simp
  have addr: "addrY pfb + va - md_phy_addr (desc pfb) = va" "addrCb pfb + va - md_phy_addr (desc pfb) = va + of_nat (S * Hs)"
    "addrCr pfb + va - md_phy_addr (desc pfb) = va + of_nat (S * Hs + s * hs)"
    using lay(1-3) unfolding cb by simp_all
  have num: "strideY pfb = int S" "strideC pfb = int s" "int W * int H = int (W * H)" "int (W * H) sdiv int dx sdiv int dy = int (w * h)"
    "int W sdiv int dx = int w" "int H sdiv int dy = int h" "int (W * H) + int (w * h) * 2 = int (W * H + 2 * (w * h))"
    using lay(4,5) pos by (simp_all add: assms(3,5-7) sdiv_nonneg mult.assoc mult.left_commute [of _ "int dx"])
  show "read_from_file enc pfb st = ?run"
    unfolding read_from_file_def Let_def assms(9) [symmetric] addr size assms(10) enc_src.simps assms(3,4) num of_nat_eq_iff ..
qed

text \<open>A buffer of exactly the size of the picture is filled by one read.\<close>

lemma read_from_file_whole:
  assumes "io_laws lib phys virt" and "framebuf_alloc lib (Some fb) m fmt (int W) (int H) 0 io = Done (True, Some pfb, io')"
    and "div_x fmt = int dx" and "div_y fmt = int dy" and "W = dx * w" and "H = dy * h"
    and "int (length mem) = md_size (desc pfb)" and "uint (md_virt_uaddr (desc pfb)) + md_size (desc pfb) < 2 ^ 32"
    and "src_ok n f" and "n = W * H + 2 * (w * h)"
    and "enc = \<lparr>src_picwidth = int W, src_picheight = int H, src_mjpg_fmt = fmt, src_chromaInterleave = ci\<rparr>"
  obtains mem' f' where "read_from_file enc pfb (mem, f) = Done (int n, mem', f')" and "mem' = take n (rf_data f)"
    and "length mem = n" and "rf_data f' = drop n (rf_data f)"
proof -
  define va where "va = md_virt_uaddr (desc pfb)"
  note eq = read_from_file_eq [OF assms(1-6) assms(5,6) va_def assms(11)]
  have "int (length mem) = int n" using assms(7,10) eq(1) by simp
  then have len: "length mem = n" by (simp only: of_nat_eq_iff)
  have "int (unat va + length mem) < 2 ^ 32" using assms(7,8) by (simp add: va_def)
  then have fits: "unat va + length mem < 2 ^ 32" by (metis of_nat_less_iff of_nat_numeral of_nat_power)
  obtain m' f' where r: "fb_read va (va + of_nat 0) (int n) (mem, f) = Done (int n, m', f')" and k: "mem_kept 0 (0 + n) mem m'"
    and d: "\<forall>i<n. m' ! (0 + i) = rf_data f ! i" "rf_data f' = drop n (rf_data f)"
    by (rule fb_read_block [OF assms(9) _ fits, of 0]) (use len in simp_all)
  have "m' = take n (rf_data f)"
    using k d(1) len assms(9) by (intro nth_equalityI) (simp_all add: mem_kept_def src_ok_def)
  moreover have "read_from_file enc pfb (mem, f) = Done (int n, m', f')" using r unfolding eq(2) assms(10) by simp
  ultimately show thesis using that len d(2) by blast
qed

section \<open>Properties\<close>

text \<open>A picture without padding is read in one piece, and its planes follow each other.\<close>

lemma read_whole_block:
  assumes src: "src_ok (W * H + 2 * (w * h)) f" and fits: "unat va + length mem < 2 ^ 32" "W * H + 2 * (w * h) \<le> length mem"
    and pos: "0 < W * H + 2 * (w * h)" and data: "W * H + 2 * (w * h) \<le> length (rf_data f)"
  shows "\<exists>r m' f'. fb_read va va (int (W * H + 2 * (w * h))) (mem, f) = Done (r, m', f') \<and> 0 < r \<and>
    rf_data f' = drop (W * H + 2 * (w * h)) (rf_data f) \<and> planar_at m' (W * H) (w * h) W W H w w h (rf_data f) \<and>
    interleaved_at m' (W * H) W W H w w h (rf_data f)"
proof -
  obtain m' f' where r: "fb_read va (va + of_nat 0) (int (W * H + 2 * (w * h))) (mem, f) = Done (int (W * H + 2 * (w * h)), m', f')"
    and d: "\<forall>i<W * H + 2 * (w * h). m' ! (0 + i) = rf_data f ! i" "rf_data f' = drop (W * H + 2 * (w * h)) (rf_data f)"
    by (rule fb_read_block [OF src _ fits(1), of 0]) (use fits(2) in simp_all)
  moreover have "0 < int (W * H + 2 * (w * h))" using pos by (simp only: of_nat_0_less_iff)
  moreover have "planar_at m' (W * H) (w * h) W W H w w h (rf_data f)" "interleaved_at m' (W * H) W W H w w h (rf_data f)"
    using block_planes [OF d(1) refl data] by metis+
  ultimately show ?thesis by (intro exI conjI) (auto simp del: of_nat_add of_nat_mult)
qed

text \<open>
  C8: The source picture arrives in the frame buffer. For a buffer from \<open>framebuf_alloc\<close> whose stride and height are at least those
  of the picture and a file that holds a whole picture, \<open>read_from_file\<close> stays inside the buffer, returns a positive
  number and puts each pixel of each plane at its place (row times stride plus column behind the plane's address), with the chroma planes apart or
  interleaved, whichever of its three ways of reading it takes; the next picture follows in the file.
\<close>

theorem read_from_file_planes:
  assumes "io_laws lib phys virt" and "framebuf_alloc lib (Some fb) m fmt (int S) (int Hs) 0 io = Done (True, Some pfb, io')"
    and "div_x fmt = int dx" and "div_y fmt = int dy" and "W = dx * w" and "H = dy * h" and "S = dx * s" and "Hs = dy * hs"
    and "W \<le> S" and "H \<le> Hs" and "0 < w" and "0 < h" and "int (length mem) = md_size (desc pfb)"
    and "uint (md_virt_uaddr (desc pfb)) + md_size (desc pfb) < 2 ^ 32" and "None \<notin> set (rf_sched f)" and "W * H + 2 * (w * h) \<le> length (rf_data f)"
    and "enc = \<lparr>src_picwidth = int W, src_picheight = int H, src_mjpg_fmt = fmt, src_chromaInterleave = ci\<rparr>"
  shows "\<exists>r mem' f'. read_from_file enc pfb (mem, f) = Done (r, mem', f') \<and> 0 < r \<and>
    rf_data f' = drop (W * H + 2 * (w * h)) (rf_data f) \<and>
    (if ci = 0 then planar_at mem' (S * Hs) (s * hs) S W H s w h (rf_data f)
     else interleaved_at mem' (S * Hs) S W H s w h (rf_data f))"
proof -
  define va where "va = md_virt_uaddr (desc pfb)"
  let ?L = "S * Hs" and ?C = "s * hs"
  note eq = read_from_file_eq [OF assms(1-8) va_def assms(17)]
  have pos: "0 < dx" "0 < dy" using assms(3,4) by (auto simp: div_x_def div_y_def split: if_splits)
  have le: "w \<le> s" "h \<le> hs" using assms(5-10) pos by simp_all
  have "int (length mem) = int (?L + 2 * ?C)" using assms(13) eq(1) by simp
  then have len: "?L + 2 * ?C = length mem" by (simp only: of_nat_eq_iff)
  have "int (unat va + length mem) < 2 ^ 32" using assms(13,14) by (simp add: va_def)
  then have "unat va + length mem < 2 ^ 32" by (metis of_nat_less_iff of_nat_numeral of_nat_power)
  then have fits: "S * H \<le> ?L" "s * h \<le> ?C" "?L + 2 * ?C = length mem" "unat va + length mem < 2 ^ 32" "src_ok (W * H + 2 * (w * h)) f"
    using assms(10,15,16) le(2) len by (simp_all add: src_ok_def)
  consider (planar_rows) "W \<noteq> S" "ci = 0" | (inter_rows) "W \<noteq> S" "ci \<noteq> 0"
    | (whole) "W = S" "W * H + 2 * (w * h) = ?L + 2 * ?C"
    | (planar) "W = S" "W * H + 2 * (w * h) \<noteq> ?L + 2 * ?C" "ci = 0" | (inter) "W = S" "W * H + 2 * (w * h) \<noteq> ?L + 2 * ?C" "ci \<noteq> 0"
    by blast
  then show ?thesis
  proof cases
    case planar_rows
    show ?thesis
      by (rule read_planar_rows [OF fits(5) assms(9) le(1) fits(1-4) assms(12)]) (use planar_rows assms(11) in \<open>simp add: eq(2)\<close>)
  next
    case inter_rows
    show ?thesis
      by (rule read_interleaved_rows [OF fits(5) assms(9) le(1) fits(1-4) assms(12)]) (use inter_rows assms(11) in \<open>simp add: eq(2)\<close>)
  next
    case whole
    have "W * H \<le> ?L" "w * h \<le> ?C" using fits(1) le whole(1) by (simp_all add: mult_le_mono)
    then have same: "W * H = ?L" "w * h = ?C" using whole(2) by linarith+
    have ws: "w = s" using whole(1) assms(5,7) pos by simp
    have "0 < W * H + 2 * (w * h)" using assms(11,12) by simp
    from read_whole_block [OF fits(5) fits(4) eq_imp_le [OF trans [OF whole(2) fits(3)]] this assms(16)] obtain r m' f' where
      "fb_read va va (int (W * H + 2 * (w * h))) (mem, f) = Done (r, m', f')" "0 < r" "rf_data f' = drop (W * H + 2 * (w * h)) (rf_data f)"
      "planar_at m' (W * H) (w * h) W W H w w h (rf_data f)" "interleaved_at m' (W * H) W W H w w h (rf_data f)"
      by blast
    moreover from this have "read_from_file enc pfb (mem, f) = Done (r, m', f')"
      unfolding eq(2) if_P [OF whole(1)] if_P [OF whole(2)] by simp
    ultimately show ?thesis using same whole(1) ws by (intro exI conjI) auto
  next
    case planar
    have ws: "w = s" using planar(1) assms(5,7) pos by simp
    show ?thesis
      by (rule read_planar_blocks [OF fits(5) _ _ fits(3,4)]) (use planar fits(1,2) assms(11,12) ws in \<open>simp_all add: eq(2)\<close>)
  next
    case inter
    have ws: "w = s" using inter(1) assms(5,7) pos by simp
    show ?thesis
      by (rule read_interleaved_blocks [OF fits(5) _ _ fits(3,4)]) (use inter fits(1,2) assms(11,12) ws in \<open>simp_all add: eq(2)\<close>)
  qed
qed

theorem read_from_file_planes_witness:
  "\<exists>r mem' f'. read_from_file \<lparr>src_picwidth = 4, src_picheight = 2, src_mjpg_fmt = 0, src_chromaInterleave = 0\<rparr> fb_demo_lin
      (replicate 1536 0, \<lparr>rf_data = [1, 2, 3, 4, 5, 6, 7, 8, 9, 10, 11, 12, 13], rf_sched = []\<rparr>) = Done (r, mem', f') \<and> 0 < r \<and>
    rf_data f' = [13] \<and> planar_at mem' 1024 256 64 4 2 32 2 1 [1, 2, 3, 4, 5, 6, 7, 8, 9, 10, 11, 12, 13]"
proof -
  let ?f = "\<lparr>rf_data = [1, 2, 3, 4, 5, 6, 7, 8, 9, 10, 11, 12, 13], rf_sched = []\<rparr>"
  have alloc: "framebuf_alloc io_demo (Some fb_demo) 0 0 (int 64) (int 16) 0 ({#}, {#}) = Done (True, Some fb_demo_lin, ({#0x10000800#}, {#0x76000000#}))"
    using fb_demo_alloc by simp
  have dv: "div_x 0 = int 2" "div_y 0 = int 2" by (simp_all add: div_x_def div_y_def mode_defs)
  have "\<exists>r mem' f'. read_from_file \<lparr>src_picwidth = int 4, src_picheight = int 2, src_mjpg_fmt = 0, src_chromaInterleave = 0\<rparr> fb_demo_lin
      (replicate 1536 0, ?f) = Done (r, mem', f') \<and> 0 < r \<and> rf_data f' = drop (4 * 2 + 2 * (2 * 1)) (rf_data ?f) \<and>
    (if (0 :: int) = 0 then planar_at mem' (64 * 16) (32 * 8) 64 4 2 32 2 1 (rf_data ?f) else interleaved_at mem' (64 * 16) 64 4 2 32 2 1 (rf_data ?f))"
    by (rule read_from_file_planes [OF io_demo_laws alloc dv]) (simp_all add: fb_demo_lin_def)
  then show ?thesis by simp
qed

end
