(* ===== verification/Sahara_Run.thy ===== *)
theory Sahara_Run
  imports Prelude
begin

text \<open>
  The interpreter of test strings of the security hardware tests
  (\<^verbatim>\<open>src/test/mxc_sahara_test/run_tests.c\<close>), shared by the user program and the kernel module. A
  string is its bytes with the terminating NUL; reading behind the end of the buffer is undefined
  behaviour. The suites are calls into the security hardware API: a suite is a parameter that gets
  the user context, the two counters and the state of the device. Whether the public key suite is
  compiled in (\<open>FSL_API_TEST_PKC\<close>) is a parameter, too.
\<close>

section \<open>Suites\<close>

datatype suite = Gen_Encrypt | Callback | Capabilities | Dryice | Result | Hash | Hmac1 | Hmac2 | Pkha
  | Random | Symmetric | Wrap | User_Wrap | Smalloc

type_synonym counts = "u32 \<times> u32"

record 'd suite_env =
  se_pkc :: bool
  se_suite :: "suite \<Rightarrow> nat \<Rightarrow> counts \<Rightarrow> 'd \<Rightarrow> counts \<times> 'd"

definition chr8 :: "char \<Rightarrow> u8" where
  "chr8 c = word_of_nat (of_char c)"

definition c_str :: "string \<Rightarrow> u8 list" where
  "c_str cs = map chr8 cs @ [0]"

text \<open>The cases of the \<open>switch\<close> other than the full suite, which calls \<open>run_tests\<close> again.\<close>

definition suites_of :: "bool \<Rightarrow> u8 \<Rightarrow> suite list" where
  "suites_of pkc ch =
     (if ch = chr8 CHR ''a'' then [Gen_Encrypt]
      else if ch = chr8 CHR ''c'' then [Callback]
      else if ch = chr8 CHR ''C'' then [Capabilities]
      else if ch = chr8 CHR ''d'' then [Dryice]
      else if ch = chr8 CHR ''g'' then [Result]
      else if ch = chr8 CHR ''h'' then [Hash]
      else if ch = chr8 CHR ''m'' then [Hmac1, Hmac2]
      else if ch = chr8 CHR ''p'' \<and> pkc then [Pkha]
      else if ch = chr8 CHR ''r'' then [Random]
      else if ch = chr8 CHR ''s'' then [Symmetric]
      else if ch = chr8 CHR ''w'' then [Wrap]
      else if ch = chr8 CHR ''W'' then [User_Wrap]
      else if ch = chr8 CHR ''z'' then [Smalloc]
      else [])"

primrec run_suites :: "'d suite_env \<Rightarrow> nat \<Rightarrow> suite list \<Rightarrow> counts \<Rightarrow> 'd \<Rightarrow> counts \<times> 'd" where
  "run_suites env user_ctx [] cnt d = (cnt, d)"
| "run_suites env user_ctx (x # xs) cnt d =
     (let (cnt', d') = se_suite env x user_ctx cnt d in run_suites env user_ctx xs cnt' d')"

definition full_suite :: "u8 list" where
  "full_suite = c_str ''CagshcmrwWzd''"

text \<open>The number of full-suite characters ahead of the terminating NUL decreases with each nested call.\<close>

fun full_count :: "u8 list \<Rightarrow> nat" where
  "full_count [] = 0"
| "full_count (ch # s) =
     (if ch = 0 then 0 else (if ch = chr8 CHR ''F'' then 1 else 0) + full_count s)"

lemma full_suite_flat: "full_count full_suite = 0"
  by (simp add: full_suite_def c_str_def chr8_def)

section \<open>The interpreter\<close>

function (sequential) run_tests ::
    "'d suite_env \<Rightarrow> nat \<Rightarrow> u8 list \<Rightarrow> counts \<Rightarrow> 'd \<Rightarrow> (counts \<times> 'd) run"
  and run_loop :: "'d suite_env \<Rightarrow> nat \<Rightarrow> u8 list \<Rightarrow> counts \<Rightarrow> 'd \<Rightarrow> (counts \<times> 'd) run" where
  "run_tests env user_ctx test_string totals d =
     run_bind (run_loop env user_ctx test_string (0, 0) d) (\<lambda>(cnt, d').
       Done ((fst totals + fst cnt, snd totals + snd cnt), d'))"
| "run_loop env user_ctx [] cnt d = Undef"
| "run_loop env user_ctx (ch # s) cnt d =
     (if ch = 0 then Done (cnt, d)
      else if ch = chr8 CHR ''F'' then
        run_bind (run_tests env user_ctx full_suite cnt d) (\<lambda>(cnt', d'). run_loop env user_ctx s cnt' d')
      else (let (cnt', d') = run_suites env user_ctx (suites_of (se_pkc env) ch) cnt d
            in run_loop env user_ctx s cnt' d'))"
  by pat_completeness auto
termination
  by (relation "measures [\<lambda>x. case x of Inl (_, _, s, _, _) \<Rightarrow> full_count s | Inr (_, _, s, _, _) \<Rightarrow> full_count s,
                          \<lambda>x. case x of Inl (_, _, s, _, _) \<Rightarrow> Suc (length s) | Inr (_, _, s, _, _) \<Rightarrow> length s]")
    (auto simp: full_suite_flat)

section \<open>What a string means\<close>

text \<open>
  The suites a string names: one character after the other up to the NUL, the full suite standing for
  its twelve characters, every other character for nothing.
\<close>

definition flat_suites :: "bool \<Rightarrow> u8 list \<Rightarrow> suite list" where
  "flat_suites pkc s = concat (map (suites_of pkc) (takeWhile (\<lambda>ch. ch \<noteq> 0) s))"

definition named_suites :: "bool \<Rightarrow> u8 list \<Rightarrow> suite list" where
  "named_suites pkc s =
     concat (map (\<lambda>ch. if ch = chr8 CHR ''F'' then flat_suites pkc full_suite else suites_of pkc ch)
                 (takeWhile (\<lambda>ch. ch \<noteq> 0) s))"

text \<open>The suites only ever add to the counters; what they add and do does not depend on them.\<close>

definition add_counts :: "counts \<Rightarrow> counts \<Rightarrow> counts" where
  "add_counts a b = (fst a + fst b, snd a + snd b)"

definition suites_add :: "'d suite_env \<Rightarrow> bool" where
  "suites_add env \<longleftrightarrow>
     (\<forall>x c cnt d. se_suite env x c cnt d = apfst (add_counts cnt) (se_suite env x c (0, 0) d))"

lemma add_counts_simps [simp]:
  "add_counts (0, 0) a = a" "add_counts a (0, 0) = a" "add_counts (add_counts a b) c = add_counts a (add_counts b c)"
  by (simp_all add: add_counts_def)

lemma run_suites_append [simp]:
  "run_suites env c (xs @ ys) cnt d = (let (cnt', d') = run_suites env c xs cnt d in run_suites env c ys cnt' d')"
  by (induction xs arbitrary: cnt d) (simp_all add: case_prod_beta)

lemma run_suites_add:
  assumes "suites_add env"
  shows "run_suites env c xs (add_counts a b) d = apfst (add_counts a) (run_suites env c xs b d)"
proof (induction xs arbitrary: b d)
  case (Cons x xs)
  have suite: "se_suite env x c e d = apfst (add_counts e) (se_suite env x c (0, 0) d)" for e
    using assms unfolding suites_add_def by blast
  show ?case
    by (subst (1 2) run_suites.simps, subst (1 2) suite) (simp add: case_prod_beta Cons.IH)
qed simp

lemma run_loop_flat:
  assumes "full_count s = 0" and "0 \<in> set s"
  shows "run_loop env c s cnt d = Done (run_suites env c (flat_suites (se_pkc env) s) cnt d)"
  using assms by (induction s arbitrary: cnt d) (auto simp: flat_suites_def case_prod_beta split: if_splits)

lemma full_suite_ends: "0 \<in> set full_suite"
  by (simp add: full_suite_def c_str_def)

lemma run_full:
  assumes "suites_add env"
  shows "run_tests env c full_suite cnt d = Done (run_suites env c (flat_suites (se_pkc env) full_suite) cnt d)"
  using run_suites_add [OF assms, of c "flat_suites (se_pkc env) full_suite" cnt "(0, 0)" d]
  by (simp add: run_loop_flat [OF full_suite_flat full_suite_ends] case_prod_beta add_counts_def prod_eq_iff)

lemma run_loop_named:
  assumes "suites_add env" and "0 \<in> set s"
  shows "run_loop env c s cnt d = Done (run_suites env c (named_suites (se_pkc env) s) cnt d)"
  using assms(2)
proof (induction s arbitrary: cnt d)
  case (Cons ch s)
  have named: "named_suites pkc (ch # s) = (if ch = 0 then []
      else (if ch = chr8 CHR ''F'' then flat_suites pkc full_suite else suites_of pkc ch) @ named_suites pkc s)" for pkc
    by (simp add: named_suites_def)
  consider "ch = 0" | "ch \<noteq> 0" "0 \<in> set s" using Cons.prems by auto
  then show ?case
    unfolding named by cases (simp_all add: case_prod_beta run_full [OF assms(1)] Cons.IH del: run_tests.simps)
qed simp

lemma run_tests_named:
  assumes "suites_add env" and "0 \<in> set s"
  shows "run_tests env c s cnt d = Done (run_suites env c (named_suites (se_pkc env) s) cnt d)"
  using run_suites_add [OF assms(1), of c "named_suites (se_pkc env) s" cnt "(0, 0)" d]
  by (simp add: run_loop_named [OF assms] case_prod_beta add_counts_def prod_eq_iff)

lemma run_loop_unterminated: "0 \<notin> set s \<Longrightarrow> suites_add env \<Longrightarrow> run_loop env c s cnt d = Undef"
  by (induction s arbitrary: cnt d) (auto simp: case_prod_beta run_full simp del: run_tests.simps)

text \<open>A terminated string is interpreted without reading behind its end, whatever the suites do.\<close>

lemma run_loop_returns: "0 \<in> set s \<Longrightarrow> \<exists>r. run_loop env c s cnt d = Done r"
proof (induction s arbitrary: cnt d)
  case (Cons ch s)
  have full: "\<exists>cnt' d'. run_tests env c full_suite cnt d = Done (cnt', d')"
    by (simp add: run_loop_flat [OF full_suite_flat full_suite_ends] case_prod_beta)
  consider "ch = 0" | "ch \<noteq> 0" "0 \<in> set s" using Cons.prems by auto
  then show ?case
    using full Cons.IH by cases (auto simp: case_prod_beta simp del: run_tests.simps)
qed simp

lemma run_tests_returns: "0 \<in> set s \<Longrightarrow> \<exists>r. run_tests env c s cnt d = Done r"
  using run_loop_returns [of s env c "(0, 0)" d] by (auto simp: case_prod_beta)

lemma full_suite_suites:
  "flat_suites pkc full_suite = [Capabilities, Gen_Encrypt, Result, Symmetric, Hash, Callback, Hmac1, Hmac2,
     Random, Wrap, User_Wrap, Smalloc, Dryice]"
  by (simp add: flat_suites_def full_suite_def c_str_def chr8_def suites_of_def)

end
