(* ===== verification/Km_Driver.thy ===== *)
theory Km_Driver
  imports Shw_Env Sahara_Run
begin

text \<open>
  The kernel module that runs the security hardware tests (\<^verbatim>\<open>src/module_test/km_test.c\<close>): a
  write to the device is a test string for \<open>run_tests\<close>. The state is that of the drivers on top of
  the security hardware API; registration with the API and the suites are parameters. A call into
  the API with no context or a dead one is undefined behaviour, and so is a store outside the
  allocated string. The handlers compare an operating system code with \<open>FSL_RETURN_OK_S\<close>; both
  successes are 0, which is \<open>OS_ERROR_OK_S\<close> here.
\<close>

section \<open>Operations\<close>

record 'd km_env =
  ke_register_user :: "'d \<Rightarrow> nat \<Rightarrow> bool \<times> 'd"
  ke_deregister_user :: "'d \<Rightarrow> nat \<Rightarrow> 'd"
  ke_suites :: "'d suite_env"
  ke_uninit :: "nat \<Rightarrow> u8 list"

definition km_test_open :: "'d km_env \<Rightarrow> 'd shw_state \<Rightarrow> nat \<Rightarrow> os_error_code \<times> 'd shw_state" where
  "km_test_open env s f =
     (let (ok, s1) = next_alloc (s\<lparr>rs_private := (rs_private s)(f := None)\<rparr>)
      in if \<not> ok then (OS_ERROR_NO_MEMORY_S, s1)
         else
           (let user_ctx = rs_next s1;
                s2 = s1\<lparr>rs_next := Suc user_ctx, rs_ctx_live := user_ctx # rs_ctx_live s1\<rparr>;
                (code, dev) = ke_register_user env (rs_dev s2) user_ctx;
                s3 = s2\<lparr>rs_dev := dev\<rparr>
            in if code then (OS_ERROR_OK_S, s3\<lparr>rs_ctx_reg := user_ctx # rs_ctx_reg s3,
                                               rs_private := (rs_private s3)(f := Some user_ctx)\<rparr>)
               else (OS_ERROR_FAIL_S, s3\<lparr>rs_ctx_live := remove1 user_ctx (rs_ctx_live s3)\<rparr>)))"

text \<open>
  The count is a \<open>size_t\<close> of 32 bits and \<open>1 + count\<close> wraps. The result is an error code or the
  number of bytes taken.
\<close>

definition km_alloc_size :: "u32 \<Rightarrow> u32" where
  "km_alloc_size count = 1 + count"

definition km_test_write ::
    "'d km_env \<Rightarrow> 'd shw_state \<Rightarrow> nat \<Rightarrow> u32 \<Rightarrow> u32 \<Rightarrow> ((os_error_code + nat) \<times> 'd shw_state) run" where
  "km_test_write env s f buffer count =
     (if count = 0 then Done (Inr 0, s)
      else
        (let (ok, s1) = next_alloc s
         in if \<not> ok then Done (Inl OS_ERROR_NO_MEMORY_S, s1)
            else
              (let s2 = s1\<lparr>rs_bufs_live := Suc (rs_bufs_live s1)\<rparr>;
                   raw = fresh_buf (ke_uninit env) (unat (km_alloc_size count))
               in run_bind (of_option (c_upd raw (uint count) 0)) (\<lambda>test_string.
                    let (code, bs) = os_copy_from_user (rs_user s2) buffer (unat count);
                        test_string' = bs @ drop (unat count) test_string
                    in if code \<noteq> OS_ERROR_OK_S
                       then Done (Inl code, s2\<lparr>rs_bufs_live := rs_bufs_live s2 - 1\<rparr>)
                       else
                         (case rs_private s2 f of
                            None \<Rightarrow> Undef
                          | Some user_ctx \<Rightarrow>
                              if user_ctx \<notin> set (rs_ctx_live s2) then Undef
                              else run_bind (run_tests (ke_suites env) user_ctx test_string' (0, 0) (rs_dev s2)) (\<lambda>(_, dev).
                                     Done (Inr (unat count),
                                           s2\<lparr>rs_dev := dev, rs_bufs_live := rs_bufs_live s2 - 1\<rparr>)))))))"

text \<open>Closing is the release of the file: the kernel drops the file with its private pointer.\<close>

definition km_test_close :: "'d km_env \<Rightarrow> 'd shw_state \<Rightarrow> nat \<Rightarrow> (os_error_code \<times> 'd shw_state) run" where
  "km_test_close env s f =
     (case rs_private s f of
        None \<Rightarrow> Done (OS_ERROR_OK_S, s)
      | Some user_ctx \<Rightarrow>
          (if user_ctx \<notin> set (rs_ctx_live s) \<or> user_ctx \<notin> set (rs_ctx_reg s) then Undef
           else Done (OS_ERROR_OK_S,
                  s\<lparr>rs_dev := ke_deregister_user env (rs_dev s) user_ctx,
                    rs_ctx_reg := remove1 user_ctx (rs_ctx_reg s),
                    rs_ctx_live := remove1 user_ctx (rs_ctx_live s),
                    rs_private := (rs_private s)(f := None)\<rparr>)))"

datatype km_call = KOpen nat | KWrite nat u32 u32 | KClose nat

fun km_step :: "'d km_env \<Rightarrow> 'd shw_state \<Rightarrow> km_call \<Rightarrow> ((os_error_code + nat) \<times> 'd shw_state) run" where
  "km_step env s (KOpen f) = Done (apfst Inl (km_test_open env s f))"
| "km_step env s (KWrite f buffer count) = km_test_write env s f buffer count"
| "km_step env s (KClose f) = run_bind (km_test_close env s f) (\<lambda>r. Done (apfst Inl r))"

section \<open>Loading and unloading\<close>

text \<open>
  The argument is what \<open>os_driver_complete_registration\<close> returns, an error code or the major
  number; the state is \<open>Major\<close> and what is registered. Only \<open>OS_ERROR_FAIL_S\<close> counts as a
  failure.
\<close>

definition km_test_init ::
    "os_error_code + int \<Rightarrow> (os_error_code + int) \<times> devreg \<Rightarrow> os_error_code \<times> (os_error_code + int) \<times> devreg" where
  "km_test_init code st =
     (case st of (Major, r) \<Rightarrow>
        let r' = (case code of Inl _ \<Rightarrow> r | Inr _ \<Rightarrow> r\<lparr>dr_chrdev := True\<rparr>)
        in if code = Inl OS_ERROR_FAIL_S then (OS_ERROR_FAIL_S, Major, r')
           else (OS_ERROR_OK_S, code, r'))"

definition km_test_cleanup :: "(os_error_code + int) \<times> devreg \<Rightarrow> bool \<times> (os_error_code + int) \<times> devreg" where
  "km_test_cleanup st =
     (case st of (Major, r) \<Rightarrow> (True, Major, case Major of Inl _ \<Rightarrow> r | Inr _ \<Rightarrow> r\<lparr>dr_chrdev := False\<rparr>))"

section \<open>Invariant\<close>

text \<open>
  The invariant of the drivers on this API, and every context that is allocated or registered belongs
  to an open file: a failed open leaves nothing behind.
\<close>

definition km_inv :: "'d shw_state \<Rightarrow> bool" where
  "km_inv s \<longleftrightarrow> shw_inv s \<and> (\<forall>c \<in> set (rs_ctx_live s) \<union> set (rs_ctx_reg s). \<exists>f. rs_private s f = Some c)"

text \<open>
  Admissible calls: a file is opened once and written to only when it is open. The kernel cuts a
  count to \<open>MAX_RW_COUNT\<close>, the largest multiple of the page size below \<open>2 ^ 31\<close>.
\<close>

definition MAX_RW_COUNT :: u32 where "MAX_RW_COUNT = 0x7FFFF000"

fun km_adm :: "'d shw_state \<Rightarrow> km_call \<Rightarrow> bool" where
  "km_adm s (KOpen f) = (rs_private s f = None)"
| "km_adm s (KWrite f buffer count) = (rs_private s f \<noteq> None \<and> count \<le> MAX_RW_COUNT)"
| "km_adm s (KClose f) = True"

lemma km_alloc_size_unat: "count \<le> MAX_RW_COUNT \<Longrightarrow> unat (km_alloc_size count) = Suc (unat count)"
  by (simp add: km_alloc_size_def MAX_RW_COUNT_def word_le_nat_alt unat_word_ariths take_bit_nat_eq_self)

lemma km_inv_frame [simp]:
  "km_inv (s\<lparr>rs_dev := d\<rparr>) = km_inv s" "km_inv (snd (next_alloc s)) = km_inv s"
  by (simp_all add: km_inv_def)

lemma km_inv_live: "km_inv s \<Longrightarrow> rs_private s f = Some c \<Longrightarrow> c \<in> set (rs_ctx_live s) \<and> c \<in> set (rs_ctx_reg s)"
  by (auto simp: km_inv_def shw_inv_def)

text \<open>A new context for a file that has none, and a context that goes away with its file.\<close>

lemma km_inv_add:
  assumes inv: "km_inv s" and new: "rs_private s f = None" and n: "n = rs_next s"
  shows "km_inv (s\<lparr>rs_next := Suc n, rs_ctx_live := n # rs_ctx_live s, rs_dev := d, rs_ctx_reg := n # rs_ctx_reg s,
                   rs_private := (rs_private s)(f := Some n)\<rparr>)"
proof -
  have fresh: "n \<notin> set (rs_ctx_live s)" "n \<notin> set (rs_ctx_reg s)" "\<And>g. rs_private s g \<noteq> Some n"
    using inv n by (force simp: km_inv_def shw_inv_def)+
  have "\<exists>g. ((rs_private s)(f := Some n)) g = Some c" if c: "c \<in> insert n (set (rs_ctx_live s) \<union> set (rs_ctx_reg s))" for c
  proof (cases "c = n")
    case False
    then obtain g where "rs_private s g = Some c" using c inv by (auto simp: km_inv_def)
    with new show ?thesis by (intro exI [of _ g]) auto
  qed auto
  then show ?thesis
    using inv fresh n by (auto simp: km_inv_def shw_inv_def less_SucI)
qed

lemma km_inv_remove:
  assumes inv: "km_inv s" and c: "rs_private s f = Some c"
  shows "km_inv (s\<lparr>rs_dev := d, rs_ctx_reg := remove1 c (rs_ctx_reg s), rs_ctx_live := remove1 c (rs_ctx_live s),
                   rs_private := (rs_private s)(f := None)\<rparr>)"
proof -
  have dist: "distinct (rs_ctx_live s)" "distinct (rs_ctx_reg s)" using inv by (simp_all add: km_inv_def shw_inv_def)
  have "\<exists>g. g \<noteq> f \<and> rs_private s g = Some b" if b: "b \<in> set (rs_ctx_live s) \<union> set (rs_ctx_reg s)" "b \<noteq> c" for b
  proof -
    obtain g where "rs_private s g = Some b" using b inv by (auto simp: km_inv_def)
    with b c show ?thesis by (intro exI [of _ g]) auto
  qed
  then show ?thesis using inv c dist by (auto simp: km_inv_def shw_inv_def) blast+
qed

lemma km_open_inv:
  assumes inv: "km_inv s" and new: "rs_private s f = None"
  shows "km_inv (snd (km_test_open env s f))"
proof -
  let ?s1 = "snd (next_alloc s)"
  have same: "s\<lparr>rs_private := (rs_private s)(f := None)\<rparr> = s" using new by (simp add: fun_upd_idem)
  have "km_inv (?s1\<lparr>rs_next := Suc (rs_next s), rs_dev := d, rs_ctx_live := rs_ctx_live s\<rparr>)" for d
    using inv by (auto simp: km_inv_def shw_inv_def less_SucI)
  then show ?thesis
    using inv km_inv_add [of ?s1 f "rs_next s"] new
    by (simp add: km_test_open_def same case_prod_beta Let_def)
qed

lemma km_close_inv:
  assumes "km_inv s"
  shows "\<exists>s'. km_test_close env s f = Done (OS_ERROR_OK_S, s') \<and> km_inv s'"
  using km_inv_remove [OF assms] km_inv_live [OF assms] assms
  by (cases "rs_private s f") (auto simp: km_test_close_def)

section \<open>Writing\<close>

text \<open>The string handed to \<open>run_tests\<close> is the bytes of the caller and a NUL.\<close>

lemma km_write_string:
  assumes "count \<noteq> 0" and "count \<le> MAX_RW_COUNT" and "readable (rs_user s) buffer (unat count)" and "alloc_next s"
    and "rs_private s f = Some c" and "c \<in> set (rs_ctx_live s)"
    and "run_tests (ke_suites env) c (uread (rs_user s) buffer (unat count) @ [0]) (0, 0) (rs_dev s) = Done (cnt, dev)"
  shows "km_test_write env s f buffer count = Done (Inr (unat count), (snd (next_alloc s))\<lparr>rs_dev := dev\<rparr>)"
proof -
  obtain s1 where na: "next_alloc s = (True, s1)" using assms(4) by (cases "next_alloc s") (auto simp: alloc_next_def)
  then have s1: "rs_dev s1 = rs_dev s" "rs_user s1 = rs_user s" "rs_private s1 = rs_private s"
    "rs_ctx_live s1 = rs_ctx_live s" using next_alloc_sel [of s] by auto
  let ?raw = "fresh_buf (ke_uninit env) (Suc (unat count))"
  have upd: "c_upd ?raw (uint count) 0 = Some (?raw[unat count := 0])"
    using c_upd_nat [of "unat count" ?raw 0] by simp
  have last: "drop (unat count) (?raw[unat count := 0]) = [0]"
    by (simp add: drop_update_swap list_eq_iff_nth_eq)
  have cp: "os_copy_from_user (rs_user s) buffer (unat count) = (OS_ERROR_OK_S, uread (rs_user s) buffer (unat count))"
    using assms(3) by (simp add: os_copy_from_user_def copy_from_user_ok)
  show ?thesis
    using assms by (simp add: km_test_write_def na Let_def s1 km_alloc_size_unat upd last cp del: run_tests.simps)
qed

lemma km_write_inv:
  assumes inv: "km_inv s" and adm: "km_adm s (KWrite f buffer count)"
  shows "\<exists>r s'. km_test_write env s f buffer count = Done (r, s') \<and> km_inv s'"
proof -
  obtain c where c: "rs_private s f = Some c" "count \<le> MAX_RW_COUNT" using adm by auto
  have live: "c \<in> set (rs_ctx_live s)" using km_inv_live [OF inv c(1)] by simp
  consider (none) "count = 0 \<or> \<not> alloc_next s" | (fault) "count \<noteq> 0" "alloc_next s" "\<not> readable (rs_user s) buffer (unat count)"
    | (ok) "count \<noteq> 0" "alloc_next s" "readable (rs_user s) buffer (unat count)" by blast
  then show ?thesis
  proof cases
    case none
    then show ?thesis using inv by (auto simp: km_test_write_def alloc_next_def case_prod_beta)
  next
    case fault
    then have "fst (os_copy_from_user (rs_user s) buffer (unat count)) = OS_ERROR_BAD_ADDRESS_S"
      by (auto simp: os_copy_from_user_def case_prod_beta copy_from_user_0_iff)
    moreover have "km_inv (snd (next_alloc s)\<lparr>rs_bufs_live := rs_bufs_live s\<rparr>)"
      using inv by (simp add: km_inv_def shw_inv_def)
    ultimately show ?thesis
      using fault c c_upd_nat [of "unat count" "fresh_buf (ke_uninit env) (Suc (unat count))" 0]
      by (simp add: km_test_write_def alloc_next_def case_prod_beta Let_def km_alloc_size_unat)
  next
    case ok
    obtain cnt dev where "run_tests (ke_suites env) c (uread (rs_user s) buffer (unat count) @ [0]) (0, 0) (rs_dev s) = Done (cnt, dev)"
      using run_tests_returns [of "uread (rs_user s) buffer (unat count) @ [0]"] by fastforce
    from km_write_string [OF ok(1) c(2) ok(3) ok(2) c(1) live this] inv show ?thesis by simp
  qed
qed

interpretation kmd: char_driver "km_step env" km_adm km_inv for env :: "'d km_env"
proof
  fix s :: "'d shw_state" and c
  assume inv: "km_inv s" and adm: "km_adm s c"
  show "\<exists>r s'. km_step env s c = Done (r, s') \<and> km_inv s'"
  proof (cases c)
    case (KOpen f)
    then show ?thesis using km_open_inv [OF inv, of f env] adm by (cases "km_test_open env s f") auto
  next
    case (KWrite f buffer count)
    then show ?thesis using km_write_inv [OF inv, of f buffer count env] adm by simp
  next
    case (KClose f)
    then show ?thesis using km_close_inv [OF inv, of env f] by auto
  qed
qed

lemma km_inv_all_closed: "km_inv s \<Longrightarrow> (\<And>f. rs_private s f = None) \<Longrightarrow> rs_ctx_live s = [] \<and> rs_ctx_reg s = []"
  unfolding km_inv_def by (metis UnI1 UnI2 list.set_intros(1) neq_Nil_conv option.distinct(1))

text \<open>
  An allocation of \<open>1 + count\<close> bytes for the largest count is one of no bytes; the store of the NUL
  leaves it. Only the cut of the count by the kernel keeps this away.
\<close>

lemma km_write_wraps: "alloc_next s \<Longrightarrow> km_test_write env s f buffer 0xFFFFFFFF = Undef"
  by (simp add: km_test_write_def alloc_next_def case_prod_beta Let_def km_alloc_size_def c_upd_def in_arr_def)

lemma km_init_spec:
  "km_test_init (Inr major) (m, r) = (OS_ERROR_OK_S, Inr major, r\<lparr>dr_chrdev := True\<rparr>)"
  "km_test_init (Inl OS_ERROR_FAIL_S) (m, r) = (OS_ERROR_FAIL_S, m, r)"
  "e \<noteq> OS_ERROR_FAIL_S \<Longrightarrow> km_test_init (Inl e) (m, r) = (OS_ERROR_OK_S, Inl e, r)"
  by (simp_all add: km_test_init_def)

lemma km_init_cleanup:
  "\<not> dr_chrdev r \<Longrightarrow> snd (snd (km_test_cleanup (snd (km_test_init code (m, r))))) = r \<or> code = Inl OS_ERROR_FAIL_S"
  by (cases code) (auto simp: km_test_cleanup_def km_test_init_def)

section \<open>Examples\<close>

text \<open>A device that logs the suites it ran; every suite passes once and the random suite fails once.\<close>

definition km_demo_env :: "suite list km_env" where
  "km_demo_env = \<lparr>ke_register_user = (\<lambda>d c. (True, d)), ke_deregister_user = (\<lambda>d c. d),
     ke_suites = \<lparr>se_pkc = False, se_suite = (\<lambda>x c cnt d. (add_counts cnt (1, if x = Random then 1 else 0), d @ [x]))\<rparr>,
     ke_uninit = (\<lambda>n. [])\<rparr>"

definition km_demo_state :: "suite list shw_state" where
  "km_demo_state = \<lparr>rs_private = (\<lambda>f. None), rs_ctx_live = [], rs_ctx_reg = [], rs_next = 0, rs_bufs_live = 0,
     rs_alloc = [], rs_user = \<lparr>um_byte = (\<lambda>a. if a = 0 then chr8 CHR ''r'' else if a = 1 then chr8 CHR ''m'' else 0),
       um_rd = (\<lambda>a. True), um_wr = (\<lambda>a. True)\<rparr>, rs_dev = []\<rparr>"

definition km_demo_open :: "suite list shw_state" where
  "km_demo_open = km_demo_state\<lparr>rs_private := (\<lambda>f. None)(0 := Some 0), rs_ctx_live := [0], rs_ctx_reg := [0], rs_next := 1\<rparr>"

lemma km_demo_inv: "km_inv km_demo_state" "km_inv km_demo_open"
  by (auto simp: km_inv_def shw_inv_def km_demo_state_def km_demo_open_def)

lemma km_demo_facts:
  "rs_private km_demo_open 0 = Some 0" "readable (rs_user km_demo_open) a n" "next_alloc km_demo_open = (True, km_demo_open)"
  "uread (rs_user km_demo_open) 0 2 = map chr8 ''rm''" "rs_dev km_demo_open = []"
  by (simp_all add: km_demo_open_def km_demo_state_def readable_def run_len_all next_alloc_def numeral_2_eq_2)

lemma km_demo_suites:
  "snd (run_suites (ke_suites km_demo_env) 0 (named_suites pkc (map chr8 ''rm'' @ [0])) (0, 0) []) = [Random, Hmac1, Hmac2]"
  by (simp add: km_demo_env_def named_suites_def suites_of_def chr8_def)

lemma km_demo_add: "suites_add (ke_suites km_demo_env)"
  by (simp add: suites_add_def km_demo_env_def)

section \<open>Properties\<close>

text \<open>
  C5: every admissible sequence of open, write and close calls on the module returns without
  undefined behaviour, whatever the security hardware and the test suites do, and keeps the invariant:
  each open file has its own live and registered context, no string buffer outlives a write, and a
  failed open leaves nothing behind. Once no file is open, no context is allocated or registered.
\<close>

theorem km_driver_safe:
  assumes "km_inv s" and "adm_calls (km_step env) km_adm s cs"
  shows "\<exists>rs s'. run_calls (km_step env) s cs = Done (rs, s') \<and> length rs = length cs \<and> km_inv s' \<and>
    ((\<forall>f. rs_private s' f = None) \<longrightarrow> rs_ctx_live s' = [] \<and> rs_ctx_reg s' = [])"
  using kmd.run_calls_ok [OF assms] km_inv_all_closed by blast

theorem km_driver_safe_witness:
  "\<exists>rs s'. run_calls (km_step km_demo_env) km_demo_state [KOpen 0, KOpen 1, KWrite 1 0 2, KClose 0, KClose 1] = Done (rs, s') \<and>
     length rs = 5 \<and> km_inv s'"
  using km_driver_safe [OF km_demo_inv(1), of km_demo_env "[KOpen 0, KOpen 1, KWrite 1 0 2, KClose 0, KClose 1]"]
  by (fastforce simp: km_demo_state_def km_test_open_def km_demo_env_def next_alloc_def MAX_RW_COUNT_def split: run.splits)

text \<open>
  C29: a write of a readable string to an open file runs exactly the suites the string names up to its
  first NUL, in their order and on the file's context, the full suite standing for its thirteen
  suites and unknown characters for none; it takes the whole string, frees its copy and changes
  nothing else of the driver.
\<close>

theorem km_write_runs_suites:
  assumes "km_inv s" and "rs_private s f = Some c" and "count \<noteq> 0" and "count \<le> MAX_RW_COUNT"
    and "readable (rs_user s) buffer (unat count)" and "alloc_next s" and "suites_add (ke_suites env)"
  shows "km_test_write env s f buffer count =
    Done (Inr (unat count), (snd (next_alloc s))\<lparr>rs_dev := snd (run_suites (ke_suites env) c
      (named_suites (se_pkc (ke_suites env)) (uread (rs_user s) buffer (unat count) @ [0])) (0, 0) (rs_dev s))\<rparr>)"
proof -
  let ?r = "run_suites (ke_suites env) c (named_suites (se_pkc (ke_suites env)) (uread (rs_user s) buffer (unat count) @ [0])) (0, 0) (rs_dev s)"
  have live: "c \<in> set (rs_ctx_live s)" using km_inv_live [OF assms(1,2)] by simp
  have "run_tests (ke_suites env) c (uread (rs_user s) buffer (unat count) @ [0]) (0, 0) (rs_dev s) = Done (fst ?r, snd ?r)"
    by (simp add: run_tests_named [OF assms(7)] del: run_tests.simps)
  from km_write_string [OF assms(3,4,5,6,2) live this] show ?thesis .
qed

theorem km_write_runs_suites_witness:
  "km_test_write km_demo_env km_demo_open 0 0 2 = Done (Inr 2, km_demo_open\<lparr>rs_dev := [Random, Hmac1, Hmac2]\<rparr>)"
  using km_write_runs_suites [OF km_demo_inv(2) km_demo_facts(1) _ _ km_demo_facts(2) _ km_demo_add, of 2 0]
  by (simp add: km_demo_facts km_demo_suites MAX_RW_COUNT_def alloc_next_def del: list.map append.simps)

end
