(* ===== verification/Kernel_Heap.thy ===== *)
theory Kernel_Heap
  imports Kernel_Env
begin

text \<open>
  Kernel memory blocks for the DMA test modules: a heap of live blocks, allocation from a schedule of
  successes and failures, \<open>kfree\<close> (of NULL: nothing; of a dead block: undefined behaviour) and the
  two loops the modules run over their buffers, filling and comparing, with every access checked. The modules'
  registration, the same in both, is here, too.
\<close>

section \<open>Blocks\<close>

record 'a kheap =
  kh_block :: "nat \<Rightarrow> 'a list option"
  kh_next :: nat
  kh_alloc :: "bool list"

definition kh_empty :: "'a kheap" where
  "kh_empty = \<lparr>kh_block = (\<lambda>_. None), kh_next = 0, kh_alloc = []\<rparr>"

text \<open>The pointer is \<open>None\<close> when the allocation fails.\<close>

definition kh_new :: "'a list \<Rightarrow> 'a kheap \<Rightarrow> nat option \<times> 'a kheap" where
  "kh_new xs h =
     (let ok = (case kh_alloc h of [] \<Rightarrow> True | b # _ \<Rightarrow> b); h1 = h\<lparr>kh_alloc := tl (kh_alloc h)\<rparr>
      in if ok then (Some (kh_next h), h1\<lparr>kh_block := (kh_block h)(kh_next h \<mapsto> xs), kh_next := Suc (kh_next h)\<rparr>)
         else (None, h1))"

definition kh_free :: "nat option \<Rightarrow> 'a kheap \<Rightarrow> 'a kheap run" where
  "kh_free p h =
     (case p of
        None \<Rightarrow> Done h
      | Some a \<Rightarrow> (case kh_block h a of None \<Rightarrow> Undef | Some _ \<Rightarrow> Done (h\<lparr>kh_block := (kh_block h)(a := None)\<rparr>)))"

definition kh_get :: "'a kheap \<Rightarrow> nat option \<Rightarrow> 'a list run" where
  "kh_get h p = (case p of None \<Rightarrow> Undef | Some a \<Rightarrow> of_option (kh_block h a))"

definition kh_put :: "nat \<Rightarrow> 'a list \<Rightarrow> 'a kheap \<Rightarrow> 'a kheap" where
  "kh_put a xs h = h\<lparr>kh_block := (kh_block h)(a \<mapsto> xs)\<rparr>"

text \<open>Blocks are numbered below the next number.\<close>

definition kh_ok :: "'a kheap \<Rightarrow> bool" where
  "kh_ok h \<longleftrightarrow> (\<forall>a. kh_block h a \<noteq> None \<longrightarrow> a < kh_next h)"

lemma kh_put_sel [simp]:
  "kh_block (kh_put a xs h) = (kh_block h)(a \<mapsto> xs)" "kh_next (kh_put a xs h) = kh_next h"
  "kh_alloc (kh_put a xs h) = kh_alloc h"
  by (simp_all add: kh_put_def)

lemma kh_ok_put [simp]: "kh_ok h \<Longrightarrow> kh_block h a \<noteq> None \<Longrightarrow> kh_ok (kh_put a xs h)"
  by (auto simp: kh_ok_def)

lemma kh_ok_new: "kh_ok h \<Longrightarrow> kh_ok (snd (kh_new xs h))"
  by (auto simp: kh_ok_def kh_new_def Let_def less_SucI)

lemma kh_free_ok: "kh_ok h \<Longrightarrow> kh_free p h = Done h' \<Longrightarrow> kh_ok h'"
  by (auto simp: kh_ok_def kh_free_def split: option.splits if_splits)

section \<open>Loops over a block\<close>

primrec fill_loop :: "'a \<Rightarrow> 'a list \<Rightarrow> nat \<Rightarrow> nat \<Rightarrow> 'a list option" where
  "fill_loop v xs i 0 = Some xs"
| "fill_loop v xs i (Suc k) = Option.bind (c_upd xs (int i) v) (\<lambda>xs'. fill_loop v xs' (Suc i) k)"

primrec cmp_loop :: "'a list \<Rightarrow> 'a list \<Rightarrow> nat \<Rightarrow> nat \<Rightarrow> bool option" where
  "cmp_loop xs ys i 0 = Some True"
| "cmp_loop xs ys i (Suc k) =
     Option.bind (c_nth xs (int i)) (\<lambda>x. Option.bind (c_nth ys (int i)) (\<lambda>y.
       if x \<noteq> y then Some False else cmp_loop xs ys (Suc i) k))"

lemma fill_loop_Some:
  "i + k \<le> length xs \<Longrightarrow> fill_loop v xs i k = Some (take i xs @ replicate k v @ drop (i + k) xs)"
proof (induction k arbitrary: i xs)
  case (Suc k)
  have "take (Suc i) (xs[i := v]) = take i xs @ [v]" using Suc.prems by (simp add: take_Suc_conv_app_nth)
  then show ?case using Suc by (simp add: c_upd_nat)
qed simp

lemma cmp_loop_Some:
  "i + k \<le> length xs \<Longrightarrow> i + k \<le> length ys \<Longrightarrow>
   cmp_loop xs ys i k = Some (take k (drop i xs) = take k (drop i ys))"
proof (induction k arbitrary: i)
  case (Suc k)
  have "drop i xs = xs ! i # drop (Suc i) xs" "drop i ys = ys ! i # drop (Suc i) ys"
    using Suc.prems by (simp_all add: Cons_nth_drop_Suc)
  then show ?case using Suc by (simp add: c_nth_nat)
qed simp

lemma fill_loop_all [simp]: "length xs = k \<Longrightarrow> fill_loop v xs 0 k = Some (replicate k v)"
  by (simp add: fill_loop_Some)

lemma cmp_loop_all [simp]: "length xs = k \<Longrightarrow> length ys = k \<Longrightarrow> cmp_loop xs ys 0 k = Some (xs = ys)"
  by (simp add: cmp_loop_Some)

section \<open>Loading and unloading\<close>

text \<open>
  The two DMA test modules load and unload with the same code.
  \<open>major\<close> is what \<open>register_chrdev\<close> returns, \<open>class_err\<close> is 0 or the error \<open>class_create\<close>
  reports, \<open>device_ok\<close> says whether \<open>device_create\<close> succeeds.
\<close>

definition sdma_init_module :: "int \<Rightarrow> int \<Rightarrow> bool \<Rightarrow> devreg \<Rightarrow> int \<times> devreg" where
  "sdma_init_module major class_err device_ok r =
     (if major < 0 then (major, r)
      else
        (let r1 = r\<lparr>dr_chrdev := True\<rparr>
         in if class_err \<noteq> 0 then (class_err, r1\<lparr>dr_chrdev := False\<rparr>)
            else
              (let r2 = r1\<lparr>dr_class := True\<rparr>
               in if \<not> device_ok then (-1, r2\<lparr>dr_class := False, dr_chrdev := False\<rparr>)
                  else (0, r2\<lparr>dr_device := True\<rparr>))))"

definition sdma_cleanup_module :: "devreg \<Rightarrow> devreg" where
  "sdma_cleanup_module r = r\<lparr>dr_chrdev := False, dr_device := False, dr_class := False\<rparr>"

lemma sdma_init_atomic:
  "case sdma_init_module major class_err device_ok no_reg of (e, r) \<Rightarrow>
     (if 0 \<le> major \<and> class_err = 0 \<and> device_ok then e = 0 \<and> r = all_reg \<and> sdma_cleanup_module r = no_reg
      else e \<noteq> 0 \<and> r = no_reg)"
  by (simp add: sdma_init_module_def sdma_cleanup_module_def no_reg_def all_reg_def Let_def)

end
