(* ===== verification/Sdma_Copy.thy ===== *)
theory Sdma_Copy
  imports Kernel_Heap
begin

text \<open>
  The SDMA copy test module (\<^verbatim>\<open>src/module_test/mxc_sdma_memcopy_test.c\<close>), for kernels after
  3.0.35: four pairs of buffers, three copied by one scatter-gather transfer and one by a memory copy
  transfer. Its buffers and its channel are global variables. The DMA engine is a parameter: whether it
  prepares a descriptor (a NULL descriptor is dereferenced), and what memory holds when it signals
  completion, if it ever does. A file is open from a successful \<open>open\<close> to its \<open>release\<close>. The test
  reports by \<open>printk\<close> only: the log has one entry per message, the number of the buffer and whether it
  passed.
\<close>

section \<open>State\<close>

datatype sbuf = Wbuf | Wbuf2 | Wbuf3 | Wbuf4 | Rbuf | Rbuf2 | Rbuf3 | Rbuf4

definition SDMA_BUF_SIZE :: nat where "SDMA_BUF_SIZE = 1024"

definition buf_bytes :: "sbuf \<Rightarrow> nat" where
  "buf_bytes b = (if b = Wbuf2 \<or> b = Rbuf2 then SDMA_BUF_SIZE div 2 else SDMA_BUF_SIZE)"

abbreviation buf_words :: "sbuf \<Rightarrow> nat" where
  "buf_words b \<equiv> buf_bytes b div 4"

type_synonym sg_list = "(nat \<times> nat) list"

record 'd sdma_env =
  de_prep_sg :: "'d \<Rightarrow> sg_list \<Rightarrow> sg_list \<Rightarrow> bool"
  de_run_sg :: "'d \<Rightarrow> sg_list \<Rightarrow> sg_list \<Rightarrow> u32 kheap \<Rightarrow> (u32 kheap \<times> 'd) option"
  de_prep_memcpy :: "'d \<Rightarrow> nat \<Rightarrow> nat \<Rightarrow> nat \<Rightarrow> bool"
  de_run_memcpy :: "'d \<Rightarrow> nat \<Rightarrow> nat \<Rightarrow> nat \<Rightarrow> u32 kheap \<Rightarrow> (u32 kheap \<times> 'd) option"

record 'd sdma_state =
  sd_ptr :: "sbuf \<Rightarrow> nat option"
  sd_heap :: "u32 kheap"
  sd_chan :: "nat option"
  sd_chans :: "nat list"
  sd_next_chan :: nat
  sd_grants :: "bool list"
  sd_files :: nat
  sd_log :: "(nat \<times> bool) list"
  sd_dev :: 'd

section \<open>Opening and closing\<close>

definition request_channel :: "'d sdma_state \<Rightarrow> nat option \<times> 'd sdma_state" where
  "request_channel s =
     (let ok = (case sd_grants s of [] \<Rightarrow> True | b # _ \<Rightarrow> b); s1 = s\<lparr>sd_grants := tl (sd_grants s)\<rparr>
      in if ok then (Some (sd_next_chan s), s1\<lparr>sd_chans := sd_next_chan s # sd_chans s, sd_next_chan := Suc (sd_next_chan s)\<rparr>)
         else (None, s1))"

text \<open>Eight allocations of zeroed memory in this order; each failure returns at once.\<close>

primrec open_bufs :: "sbuf list \<Rightarrow> 'd sdma_state \<Rightarrow> int \<times> 'd sdma_state" where
  "open_bufs [] s = (0, s)"
| "open_bufs (b # bs) s =
     (let (p, h) = kh_new (replicate (buf_words b) 0) (sd_heap s);
          s' = s\<lparr>sd_ptr := (sd_ptr s)(b := p), sd_heap := h\<rparr>
      in if p = None then (-1, s') else open_bufs bs s')"

definition all_bufs :: "sbuf list" where
  "all_bufs = [Wbuf, Wbuf2, Wbuf3, Wbuf4, Rbuf, Rbuf2, Rbuf3, Rbuf4]"

definition sdma_open :: "'d sdma_state \<Rightarrow> int \<times> 'd sdma_state" where
  "sdma_open s =
     (let (chan, s1) = request_channel s; s2 = s1\<lparr>sd_chan := chan\<rparr>
      in if chan = None then (- EINVAL, s2) else open_bufs all_bufs s2)"

primrec free_bufs :: "sbuf list \<Rightarrow> 'd sdma_state \<Rightarrow> 'd sdma_state run" where
  "free_bufs [] s = Done s"
| "free_bufs (b # bs) s =
     run_bind (kh_free (sd_ptr s b) (sd_heap s)) (\<lambda>h. free_bufs bs (s\<lparr>sd_heap := h\<rparr>))"

definition sdma_release :: "'d sdma_state \<Rightarrow> (int \<times> 'd sdma_state) run" where
  "sdma_release s =
     (case sd_chan s of
        None \<Rightarrow> Undef
      | Some c \<Rightarrow>
          if c \<notin> set (sd_chans s) then Undef
          else run_bind (free_bufs all_bufs (s\<lparr>sd_chans := remove1 c (sd_chans s), sd_chan := None\<rparr>)) (\<lambda>s'. Done (0, s')))"

section \<open>Writing and reading\<close>

definition fill_buf :: "sbuf \<Rightarrow> u32 \<Rightarrow> 'd sdma_state \<Rightarrow> 'd sdma_state run" where
  "fill_buf b v s =
     (case sd_ptr s b of
        None \<Rightarrow> Undef
      | Some a \<Rightarrow> run_bind (kh_get (sd_heap s) (Some a)) (\<lambda>xs.
          run_bind (of_option (fill_loop v xs 0 (buf_words b))) (\<lambda>xs'.
            Done (s\<lparr>sd_heap := kh_put a xs' (sd_heap s)\<rparr>))))"

definition sg_entry :: "'d sdma_state \<Rightarrow> sbuf \<Rightarrow> (nat \<times> nat) run" where
  "sg_entry s b = of_option (map_option (\<lambda>a. (a, buf_bytes b)) (sd_ptr s b))"

primrec sg_table :: "'d sdma_state \<Rightarrow> sbuf list \<Rightarrow> sg_list run" where
  "sg_table s [] = Done []"
| "sg_table s (b # bs) = run_bind (sg_entry s b) (\<lambda>e. run_bind (sg_table s bs) (\<lambda>es. Done (e # es)))"

definition sdma_sg_transfer :: "'d sdma_env \<Rightarrow> 'd sdma_state \<Rightarrow> 'd sdma_state run" where
  "sdma_sg_transfer env s =
     run_bind (sg_table s [Wbuf, Wbuf2, Wbuf3]) (\<lambda>sg.
     run_bind (sg_table s [Rbuf, Rbuf2, Rbuf3]) (\<lambda>sg2.
       if \<not> de_prep_sg env (sd_dev s) sg2 sg then Undef
       else (case de_run_sg env (sd_dev s) sg2 sg (sd_heap s) of
               None \<Rightarrow> Blocked
             | Some (h, d) \<Rightarrow> Done (s\<lparr>sd_heap := h, sd_dev := d\<rparr>))))"

definition sdma_memcpy_transfer :: "'d sdma_env \<Rightarrow> 'd sdma_state \<Rightarrow> 'd sdma_state run" where
  "sdma_memcpy_transfer env s =
     run_bind (sg_entry s Wbuf4) (\<lambda>(dma_src, _). run_bind (sg_entry s Rbuf4) (\<lambda>(dma_dst, _).
       if \<not> de_prep_memcpy env (sd_dev s) dma_dst dma_src SDMA_BUF_SIZE then Undef
       else (case de_run_memcpy env (sd_dev s) dma_dst dma_src SDMA_BUF_SIZE (sd_heap s) of
               None \<Rightarrow> Blocked
             | Some (h, d) \<Rightarrow> Done (s\<lparr>sd_heap := h, sd_dev := d\<rparr>))))"

definition sdma_write :: "'d sdma_env \<Rightarrow> 'd sdma_state \<Rightarrow> (int \<times> 'd sdma_state) run" where
  "sdma_write env s =
     run_bind (fill_buf Wbuf 0x12121212 s) (\<lambda>s1. run_bind (fill_buf Wbuf2 0x34343434 s1) (\<lambda>s2.
     run_bind (fill_buf Wbuf3 0x56565656 s2) (\<lambda>s3. run_bind (fill_buf Wbuf4 0x56565656 s3) (\<lambda>s4.
       if sd_chan s4 = None then Undef
       else run_bind (sdma_sg_transfer env s4) (\<lambda>s5. run_bind (sdma_memcpy_transfer env s5) (\<lambda>s6. Done (0, s6)))))))"

definition pair_same :: "'d sdma_state \<Rightarrow> sbuf \<Rightarrow> sbuf \<Rightarrow> bool run" where
  "pair_same s r w =
     run_bind (kh_get (sd_heap s) (sd_ptr s r)) (\<lambda>xs. run_bind (kh_get (sd_heap s) (sd_ptr s w)) (\<lambda>ys.
       of_option (cmp_loop xs ys 0 (buf_words w))))"

primrec read_pairs :: "(nat \<times> sbuf \<times> sbuf) list \<Rightarrow> 'd sdma_state \<Rightarrow> (int \<times> 'd sdma_state) run" where
  "read_pairs [] s = Done (0, s)"
| "read_pairs (p # ps) s =
     (case p of (k, r, w) \<Rightarrow> run_bind (pair_same s r w) (\<lambda>eq.
        let s' = s\<lparr>sd_log := sd_log s @ [(k, eq)]\<rparr> in if \<not> eq then Done (0, s') else read_pairs ps s'))"

definition buf_pairs :: "(nat \<times> sbuf \<times> sbuf) list" where
  "buf_pairs = [(1, Rbuf, Wbuf), (2, Rbuf2, Wbuf2), (3, Rbuf3, Wbuf3), (4, Rbuf4, Wbuf4)]"

definition sdma_read :: "'d sdma_state \<Rightarrow> (int \<times> 'd sdma_state) run" where
  "sdma_read s = read_pairs buf_pairs s"

datatype sdma_call = SOpen | SWrite | SRead | SRelease

fun sdma_step :: "'d sdma_env \<Rightarrow> 'd sdma_state \<Rightarrow> sdma_call \<Rightarrow> (int \<times> 'd sdma_state) run" where
  "sdma_step env s SOpen = (let (r, s') = sdma_open s in Done (r, if r = 0 then s'\<lparr>sd_files := Suc (sd_files s')\<rparr> else s'))"
| "sdma_step env s SWrite = sdma_write env s"
| "sdma_step env s SRead = sdma_read s"
| "sdma_step env s SRelease = run_bind (sdma_release s) (\<lambda>(r, s'). Done (r, s'\<lparr>sd_files := sd_files s' - 1\<rparr>))"

section \<open>Buffers of an open file\<close>

definition buf_block :: "'d sdma_state \<Rightarrow> sbuf \<Rightarrow> u32 list option" where
  "buf_block s b = Option.bind (sd_ptr s b) (kh_block (sd_heap s))"

definition bufs_ok :: "'d sdma_state \<Rightarrow> bool" where
  "bufs_ok s \<longleftrightarrow> (\<forall>b. \<exists>a xs. sd_ptr s b = Some a \<and> kh_block (sd_heap s) a = Some xs \<and> length xs = buf_words b) \<and> inj (sd_ptr s)"

definition upd_buf :: "sbuf \<Rightarrow> u32 list \<Rightarrow> 'd sdma_state \<Rightarrow> 'd sdma_state" where
  "upd_buf b xs s = s\<lparr>sd_heap := kh_put (the (sd_ptr s b)) xs (sd_heap s)\<rparr>"

lemma upd_buf_sel [simp]:
  "sd_ptr (upd_buf b xs s) = sd_ptr s" "sd_chan (upd_buf b xs s) = sd_chan s" "sd_chans (upd_buf b xs s) = sd_chans s"
  "sd_next_chan (upd_buf b xs s) = sd_next_chan s" "sd_files (upd_buf b xs s) = sd_files s"
  "sd_log (upd_buf b xs s) = sd_log s" "sd_dev (upd_buf b xs s) = sd_dev s"
  by (simp_all add: upd_buf_def)

lemma bufs_okE:
  assumes "bufs_ok s"
  obtains a xs where "sd_ptr s b = Some a" "kh_block (sd_heap s) a = Some xs" "length xs = buf_words b" "buf_block s b = Some xs"
  using assms unfolding bufs_ok_def buf_block_def by (metis Option.bind.bind_lunit)

lemma ptr_eq_iff: "bufs_ok s \<Longrightarrow> the (sd_ptr s b) = the (sd_ptr s c) \<longleftrightarrow> b = c"
  unfolding bufs_ok_def inj_def by (metis option.sel)

lemma buf_block_upd [simp]:
  assumes "bufs_ok s"
  shows "buf_block (upd_buf b xs s) c = (if c = b then Some xs else buf_block s c)"
proof -
  obtain a where "sd_ptr s c = Some a" using assms by (rule bufs_okE)
  moreover obtain a' where "sd_ptr s b = Some a'" using assms by (rule bufs_okE)
  ultimately show ?thesis using ptr_eq_iff [OF assms, of b c] by (auto simp: buf_block_def upd_buf_def)
qed

lemma bufs_ok_upd [simp]:
  assumes "bufs_ok s" and "length xs = buf_words b"
  shows "bufs_ok (upd_buf b xs s)"
proof -
  have "\<exists>a ys. sd_ptr s c = Some a \<and> kh_block (sd_heap (upd_buf b xs s)) a = Some ys \<and> length ys = buf_words c" for c
  proof -
    obtain a ys where a: "sd_ptr s c = Some a" "kh_block (sd_heap s) a = Some ys" "length ys = buf_words c"
      using assms(1) by (rule bufs_okE)
    then show ?thesis using ptr_eq_iff [OF assms(1), of c b] assms(2) by (auto simp: upd_buf_def)
  qed
  then show ?thesis using assms(1) by (simp add: bufs_ok_def)
qed

lemma kh_ok_upd_buf [simp]: "bufs_ok s \<Longrightarrow> kh_ok (sd_heap s) \<Longrightarrow> kh_ok (sd_heap (upd_buf b xs s))"
  by (erule bufs_okE [where b = b]) (simp add: upd_buf_def)

text \<open>Blocks that belong to no buffer of the module stay.\<close>

definition same_others :: "'d sdma_state \<Rightarrow> 'd sdma_state \<Rightarrow> bool" where
  "same_others s s' \<longleftrightarrow> (\<forall>a. Some a \<notin> range (sd_ptr s) \<longrightarrow> kh_block (sd_heap s') a = kh_block (sd_heap s) a)"

lemma same_others_refl [simp]: "same_others s s"
  by (simp add: same_others_def)

lemma same_others_upd: "same_others s s1 \<Longrightarrow> sd_ptr s1 = sd_ptr s \<Longrightarrow> bufs_ok s1 \<Longrightarrow> same_others s (upd_buf b xs s1)"
  by (erule bufs_okE [where b = b]) (auto simp: same_others_def upd_buf_def, metis range_eqI)

lemma same_others_dev [simp]: "same_others s (s'\<lparr>sd_dev := d\<rparr>) = same_others s s'" "same_others (s\<lparr>sd_dev := d\<rparr>) s' = same_others s s'"
  by (simp_all add: same_others_def)

lemma fill_buf_ok:
  assumes "bufs_ok s"
  shows "fill_buf b v s = Done (upd_buf b (replicate (buf_words b) v) s)"
  using assms by (rule bufs_okE [where b = b]) (simp add: fill_buf_def kh_get_def upd_buf_def)

lemma pair_same_ok:
  assumes "bufs_ok s" and "buf_bytes r = buf_bytes w"
  shows "pair_same s r w = Done (buf_block s r = buf_block s w)"
proof -
  obtain a xs where a: "sd_ptr s r = Some a" "kh_block (sd_heap s) a = Some xs" "length xs = buf_words r" "buf_block s r = Some xs"
    using assms(1) by (rule bufs_okE)
  obtain c ys where c: "sd_ptr s w = Some c" "kh_block (sd_heap s) c = Some ys" "length ys = buf_words w" "buf_block s w = Some ys"
    using assms(1) by (rule bufs_okE)
  from a c assms(2) show ?thesis by (simp add: pair_same_def kh_get_def)
qed

section \<open>A DMA engine that copies\<close>

text \<open>
  What the engine's interface documents: for a valid request, that is live and distinct blocks of at
  least the requested sizes, a descriptor is prepared and the transfer completes, having copied each
  source to its destination and nothing else.
\<close>

definition sg_fits :: "u32 kheap \<Rightarrow> nat \<times> nat \<Rightarrow> bool" where
  "sg_fits h e \<longleftrightarrow> (case kh_block h (fst e) of None \<Rightarrow> False | Some xs \<Rightarrow> 4 dvd snd e \<and> snd e \<le> 4 * length xs)"

definition copy_entry :: "(nat \<times> nat) \<times> (nat \<times> nat) \<Rightarrow> u32 kheap \<Rightarrow> u32 kheap" where
  "copy_entry e h =
     (let n = snd (snd e) div 4
      in case (kh_block h (fst (fst e)), kh_block h (fst (snd e))) of
           (Some ds, Some ss) \<Rightarrow> kh_put (fst (fst e)) (take n ss @ drop n ds) h
         | _ \<Rightarrow> h)"

definition dma_copies :: "'d sdma_env \<Rightarrow> bool" where
  "dma_copies env \<longleftrightarrow>
     (\<forall>d dsts srcs h. map snd dsts = map snd srcs \<and> distinct (map fst (dsts @ srcs)) \<and> list_all (sg_fits h) (dsts @ srcs) \<longrightarrow>
        de_prep_sg env d dsts srcs \<and> (\<exists>d'. de_run_sg env d dsts srcs h = Some (fold copy_entry (zip dsts srcs) h, d'))) \<and>
     (\<forall>d dst src n h. dst \<noteq> src \<and> sg_fits h (dst, n) \<and> sg_fits h (src, n) \<longrightarrow>
        de_prep_memcpy env d dst src n \<and> (\<exists>d'. de_run_memcpy env d dst src n h = Some (copy_entry ((dst, n), (src, n)) h, d')))"

lemma copy_entry_buf:
  assumes "bufs_ok s" and "buf_bytes r = buf_bytes w"
  shows "copy_entry ((the (sd_ptr s r), buf_bytes r), (the (sd_ptr s w), buf_bytes w)) (sd_heap s) =
    sd_heap (upd_buf r (the (buf_block s w)) s)"
proof -
  obtain a xs where a: "sd_ptr s r = Some a" "kh_block (sd_heap s) a = Some xs" "length xs = buf_words r"
    using assms(1) by (rule bufs_okE)
  obtain c ys where c: "sd_ptr s w = Some c" "kh_block (sd_heap s) c = Some ys" "length ys = buf_words w" "buf_block s w = Some ys"
    using assms(1) by (rule bufs_okE)
  from a c assms(2) show ?thesis by (simp add: copy_entry_def upd_buf_def)
qed

lemma sg_entry_ok: "bufs_ok s \<Longrightarrow> sg_entry s b = Done (the (sd_ptr s b), buf_bytes b)"
  by (erule bufs_okE [where b = b]) (simp add: sg_entry_def)

lemma sg_fits_buf:
  assumes "bufs_ok s"
  shows "sg_fits (sd_heap s) (the (sd_ptr s b), buf_bytes b)"
  using assms by (rule bufs_okE [where b = b]) (simp add: sg_fits_def buf_bytes_def SDMA_BUF_SIZE_def)

text \<open>One buffer copied to another, on the state.\<close>

definition copy_buf :: "sbuf \<Rightarrow> sbuf \<Rightarrow> 'd sdma_state \<Rightarrow> 'd sdma_state" where
  "copy_buf r w s = upd_buf r (the (buf_block s w)) s"

lemma copy_buf_sel [simp]:
  "sd_ptr (copy_buf r w s) = sd_ptr s" "sd_chan (copy_buf r w s) = sd_chan s" "sd_chans (copy_buf r w s) = sd_chans s"
  "sd_next_chan (copy_buf r w s) = sd_next_chan s" "sd_files (copy_buf r w s) = sd_files s"
  "sd_log (copy_buf r w s) = sd_log s" "sd_dev (copy_buf r w s) = sd_dev s"
  by (simp_all add: copy_buf_def)

lemma copy_buf_ok:
  assumes "bufs_ok s" and "buf_bytes r = buf_bytes w"
  shows "bufs_ok (copy_buf r w s)" and "buf_block (copy_buf r w s) c = (if c = r then buf_block s w else buf_block s c)"
    and "kh_ok (sd_heap s) \<Longrightarrow> kh_ok (sd_heap (copy_buf r w s))"
proof -
  obtain xs where "buf_block s w = Some xs" "length xs = buf_words w" using assms(1) by (rule bufs_okE)
  with assms show "bufs_ok (copy_buf r w s)" "buf_block (copy_buf r w s) c = (if c = r then buf_block s w else buf_block s c)"
    "kh_ok (sd_heap s) \<Longrightarrow> kh_ok (sd_heap (copy_buf r w s))"
    by (simp_all add: copy_buf_def)
qed

lemma same_others_copy: "same_others s s1 \<Longrightarrow> sd_ptr s1 = sd_ptr s \<Longrightarrow> bufs_ok s1 \<Longrightarrow> same_others s (copy_buf r w s1)"
  by (simp add: copy_buf_def same_others_upd)

lemma copy_entry_copy_buf:
  "bufs_ok s \<Longrightarrow> buf_bytes r = buf_bytes w \<Longrightarrow>
   copy_entry ((the (sd_ptr s r), buf_bytes r), (the (sd_ptr s w), buf_bytes w)) (sd_heap s) = sd_heap (copy_buf r w s)"
  unfolding copy_buf_def by (rule copy_entry_buf)

lemma pair_bytes:
  "buf_bytes Rbuf = buf_bytes Wbuf" "buf_bytes Rbuf2 = buf_bytes Wbuf2" "buf_bytes Rbuf3 = buf_bytes Wbuf3"
  "buf_bytes Rbuf4 = buf_bytes Wbuf4" "buf_bytes Wbuf4 = SDMA_BUF_SIZE"
  by (simp_all add: buf_bytes_def)

lemma sg_transfer_ok:
  assumes env: "dma_copies env" and ok: "bufs_ok s"
  shows "\<exists>d. sdma_sg_transfer env s =
    Done ((copy_buf Rbuf3 Wbuf3 (copy_buf Rbuf2 Wbuf2 (copy_buf Rbuf Wbuf s)))\<lparr>sd_dev := d\<rparr>)"
proof -
  let ?e = "\<lambda>b. (the (sd_ptr s b), buf_bytes b)" and ?s1 = "copy_buf Rbuf Wbuf s"
  let ?s2 = "copy_buf Rbuf2 Wbuf2 ?s1"
  let ?dsts = "[?e Rbuf, ?e Rbuf2, ?e Rbuf3]" and ?srcs = "[?e Wbuf, ?e Wbuf2, ?e Wbuf3]"
  have ok1: "bufs_ok ?s1" and ok2: "bufs_ok ?s2" using ok by (simp_all add: copy_buf_ok pair_bytes)
  have "map snd ?dsts = map snd ?srcs" by (simp add: pair_bytes)
  moreover have "distinct (map fst (?dsts @ ?srcs))" by (simp add: ptr_eq_iff [OF ok])
  moreover have "list_all (sg_fits (sd_heap s)) (?dsts @ ?srcs)" using sg_fits_buf [OF ok] by simp
  ultimately obtain d h where run: "de_prep_sg env (sd_dev s) ?dsts ?srcs" "de_run_sg env (sd_dev s) ?dsts ?srcs (sd_heap s) = Some (h, d)"
      and h: "h = fold copy_entry (zip ?dsts ?srcs) (sd_heap s)"
    using env unfolding dma_copies_def by blast
  have fold: "h = sd_heap (copy_buf Rbuf3 Wbuf3 ?s2)"
    using copy_entry_copy_buf [OF ok pair_bytes(1)] copy_entry_copy_buf [OF ok1 pair_bytes(2)]
      copy_entry_copy_buf [OF ok2 pair_bytes(3)] by (simp add: h)
  have "s\<lparr>sd_heap := sd_heap (copy_buf Rbuf3 Wbuf3 ?s2), sd_dev := d\<rparr> = (copy_buf Rbuf3 Wbuf3 ?s2)\<lparr>sd_dev := d\<rparr>"
    by (simp add: copy_buf_def upd_buf_def)
  then show ?thesis
    using run fold by (auto simp: sdma_sg_transfer_def sg_entry_ok [OF ok])
qed

lemma memcpy_transfer_ok:
  assumes env: "dma_copies env" and ok: "bufs_ok s"
  shows "\<exists>d. sdma_memcpy_transfer env s = Done ((copy_buf Rbuf4 Wbuf4 s)\<lparr>sd_dev := d\<rparr>)"
proof -
  let ?dst = "the (sd_ptr s Rbuf4)" and ?src = "the (sd_ptr s Wbuf4)"
  have "?dst \<noteq> ?src" "sg_fits (sd_heap s) (?dst, SDMA_BUF_SIZE)" "sg_fits (sd_heap s) (?src, SDMA_BUF_SIZE)"
    using ok sg_fits_buf [OF ok, of Rbuf4] sg_fits_buf [OF ok, of Wbuf4] by (simp_all add: ptr_eq_iff pair_bytes)
  then obtain d where "de_prep_memcpy env (sd_dev s) ?dst ?src SDMA_BUF_SIZE"
      "de_run_memcpy env (sd_dev s) ?dst ?src SDMA_BUF_SIZE (sd_heap s) =
         Some (copy_entry ((?dst, SDMA_BUF_SIZE), (?src, SDMA_BUF_SIZE)) (sd_heap s), d)"
    using env unfolding dma_copies_def by blast
  then show ?thesis
    using copy_entry_copy_buf [OF ok pair_bytes(4)] pair_bytes(4,5)
    by (auto simp: sdma_memcpy_transfer_def sg_entry_ok [OF ok] copy_buf_def upd_buf_def)
qed

section \<open>Writing and reading an open file\<close>

definition passes :: "(nat \<times> bool) list" where
  "passes = [(1, True), (2, True), (3, True), (4, True)]"

definition pairs_equal :: "'d sdma_state \<Rightarrow> bool" where
  "pairs_equal s \<longleftrightarrow> list_all (\<lambda>(k, r, w). buf_block s r = buf_block s w) buf_pairs"

text \<open>The fields an operation on an open file leaves alone.\<close>

definition sdma_frame :: "'d sdma_state \<Rightarrow> 'd sdma_state \<Rightarrow> bool" where
  "sdma_frame s s' \<longleftrightarrow> sd_ptr s' = sd_ptr s \<and> sd_chan s' = sd_chan s \<and> sd_chans s' = sd_chans s \<and>
     sd_next_chan s' = sd_next_chan s \<and> sd_files s' = sd_files s"

lemma buf_block_dev [simp]: "buf_block (s\<lparr>sd_dev := d\<rparr>) = buf_block s" "bufs_ok (s\<lparr>sd_dev := d\<rparr>) = bufs_ok s"
  "buf_block (s\<lparr>sd_log := l\<rparr>) = buf_block s" "bufs_ok (s\<lparr>sd_log := l\<rparr>) = bufs_ok s"
  by (simp_all add: buf_block_def bufs_ok_def fun_eq_iff)

lemma sdma_write_ok:
  assumes env: "dma_copies env" and ok: "bufs_ok s" and ch: "sd_chan s \<noteq> None"
  shows "\<exists>s'. sdma_write env s = Done (0, s') \<and> bufs_ok s' \<and> sdma_frame s s' \<and> sd_log s' = sd_log s \<and>
    (kh_ok (sd_heap s) \<longrightarrow> kh_ok (sd_heap s')) \<and> same_others s s' \<and> pairs_equal s' \<and>
    buf_block s' Rbuf = Some (replicate 256 0x12121212) \<and> buf_block s' Rbuf2 = Some (replicate 128 0x34343434) \<and>
    buf_block s' Rbuf3 = Some (replicate 256 0x56565656) \<and> buf_block s' Rbuf4 = Some (replicate 256 0x56565656)"
proof -
  define s1 where "s1 = upd_buf Wbuf (replicate (buf_words Wbuf) 0x12121212) s"
  define s2 where "s2 = upd_buf Wbuf2 (replicate (buf_words Wbuf2) 0x34343434) s1"
  define s3 where "s3 = upd_buf Wbuf3 (replicate (buf_words Wbuf3) 0x56565656) s2"
  define s4 where "s4 = upd_buf Wbuf4 (replicate (buf_words Wbuf4) 0x56565656) s3"
  have oks: "bufs_ok s1" "bufs_ok s2" "bufs_ok s3" "bufs_ok s4" using ok by (simp_all add: s1_def s2_def s3_def s4_def)
  define s5 where "s5 = copy_buf Rbuf3 Wbuf3 (copy_buf Rbuf2 Wbuf2 (copy_buf Rbuf Wbuf s4))"
  obtain d5 where d5: "sdma_sg_transfer env s4 = Done (s5\<lparr>sd_dev := d5\<rparr>)"
    using sg_transfer_ok [OF env oks(4)] by (auto simp: s5_def)
  note cb = copy_buf_ok pair_bytes(1-4)
  have ok5: "bufs_ok (s5\<lparr>sd_dev := d5\<rparr>)" using oks(4) by (simp add: s5_def cb)
  obtain d6 where d6: "sdma_memcpy_transfer env (s5\<lparr>sd_dev := d5\<rparr>) = Done ((copy_buf Rbuf4 Wbuf4 (s5\<lparr>sd_dev := d5\<rparr>))\<lparr>sd_dev := d6\<rparr>)"
    using memcpy_transfer_ok [OF env ok5] by auto
  have run: "sdma_write env s = Done (0, (copy_buf Rbuf4 Wbuf4 (s5\<lparr>sd_dev := d5\<rparr>))\<lparr>sd_dev := d6\<rparr>)"
    using ch oks d5 d6
    by (simp add: sdma_write_def fill_buf_ok [OF ok] fill_buf_ok [OF oks(1)] fill_buf_ok [OF oks(2)] fill_buf_ok [OF oks(3)]
        flip: s1_def s2_def s3_def s4_def) (simp add: s1_def s2_def s3_def s4_def)
  have w: "buf_block s4 Wbuf = Some (replicate 256 0x12121212)" "buf_block s4 Wbuf2 = Some (replicate 128 0x34343434)"
    "buf_block s4 Wbuf3 = Some (replicate 256 0x56565656)" "buf_block s4 Wbuf4 = Some (replicate 256 0x56565656)"
    using ok oks by (simp_all add: s4_def s3_def s2_def s1_def buf_bytes_def SDMA_BUF_SIZE_def)
  have fr: "sd_ptr s4 = sd_ptr s" "sd_chan s4 = sd_chan s" "sd_chans s4 = sd_chans s" "sd_next_chan s4 = sd_next_chan s"
    "sd_files s4 = sd_files s" "sd_log s4 = sd_log s" by (simp_all add: s4_def s3_def s2_def s1_def)
  have "same_others s s4" using ok by (simp add: s4_def s3_def s2_def s1_def same_others_upd)
  then have oth: "same_others s (copy_buf Rbuf4 Wbuf4 (s5\<lparr>sd_dev := d5\<rparr>))"
    using oks(4) fr(1) by (simp add: s5_def same_others_copy cb)
  have kh: "kh_ok (sd_heap s) \<Longrightarrow> kh_ok (sd_heap s4)" using ok oks by (simp add: s4_def s3_def s2_def s1_def)
  show ?thesis
  proof (intro exI conjI)
    show "sdma_write env s = Done (0, (copy_buf Rbuf4 Wbuf4 (s5\<lparr>sd_dev := d5\<rparr>))\<lparr>sd_dev := d6\<rparr>)" by (fact run)
  qed (use w ok oks(4) ok5 fr kh oth in \<open>simp_all add: s5_def cb pairs_equal_def buf_pairs_def sdma_frame_def\<close>)
qed

text \<open>Reading reports the pairs in order up to the first that differs; all four pass exactly if all are equal.\<close>

primrec verdict :: "'d sdma_state \<Rightarrow> (nat \<times> sbuf \<times> sbuf) list \<Rightarrow> (nat \<times> bool) list" where
  "verdict s [] = []"
| "verdict s (p # ps) =
     (let eq = (buf_block s (fst (snd p)) = buf_block s (snd (snd p))) in (fst p, eq) # (if eq then verdict s ps else []))"

lemma verdict_log [simp]: "verdict (s\<lparr>sd_log := l\<rparr>) ps = verdict s ps"
  by (induction ps) (simp_all add: Let_def)

lemma read_pairs_verdict:
  assumes "bufs_ok s" and "list_all (\<lambda>(k, r, w). buf_bytes r = buf_bytes w) ps"
  shows "read_pairs ps s = Done (0, s\<lparr>sd_log := sd_log s @ verdict s ps\<rparr>)"
  using assms by (induction ps arbitrary: s) (auto simp: pair_same_ok Let_def split: prod.splits)

lemma sdma_read_verdict: "bufs_ok s \<Longrightarrow> sdma_read s = Done (0, s\<lparr>sd_log := sd_log s @ verdict s buf_pairs\<rparr>)"
  unfolding sdma_read_def by (rule read_pairs_verdict) (simp_all add: buf_pairs_def pair_bytes)

lemma verdict_passes: "verdict s buf_pairs = passes \<longleftrightarrow> pairs_equal s"
  by (auto simp: buf_pairs_def passes_def pairs_equal_def Let_def)

section \<open>Opening and closing\<close>

definition sdma_same_log :: "'d sdma_state \<Rightarrow> 'd sdma_state \<Rightarrow> bool" where
  "sdma_same_log s s' \<longleftrightarrow> sd_log s' = sd_log s \<and> sd_files s' = sd_files s \<and> sd_chan s' = sd_chan s \<and>
     sd_chans s' = sd_chans s \<and> sd_next_chan s' = sd_next_chan s"

text \<open>What the allocations do to the heap: old blocks stay, new blocks are those the pointers name.\<close>

definition open_post :: "sbuf list \<Rightarrow> 'd sdma_state \<Rightarrow> int \<Rightarrow> 'd sdma_state \<Rightarrow> bool" where
  "open_post bs s r s' \<longleftrightarrow>
     kh_ok (sd_heap s') \<and> sdma_same_log s s' \<and> kh_next (sd_heap s) \<le> kh_next (sd_heap s') \<and>
     (\<forall>a < kh_next (sd_heap s). kh_block (sd_heap s') a = kh_block (sd_heap s) a) \<and>
     (\<forall>b. b \<notin> set bs \<longrightarrow> sd_ptr s' b = sd_ptr s b) \<and>
     (\<forall>a \<ge> kh_next (sd_heap s). kh_block (sd_heap s') a \<noteq> None \<longrightarrow> (\<exists>b \<in> set bs. sd_ptr s' b = Some a)) \<and>
     (r = 0 \<longrightarrow> inj_on (sd_ptr s') (set bs) \<and>
        (\<forall>b \<in> set bs. \<exists>a \<ge> kh_next (sd_heap s). sd_ptr s' b = Some a \<and> kh_block (sd_heap s') a = Some (replicate (buf_words b) 0)))"

lemma open_post_Cons:
  assumes post: "open_post bs s1 r s'" and s1: "s1 = s\<lparr>sd_ptr := q, sd_heap := h\<rparr>"
    and a: "a = kh_next (sd_heap s)" "kh_next h = Suc a" "kh_block h = (kh_block (sd_heap s))(a \<mapsto> replicate (buf_words b) 0)"
    and q: "q = (sd_ptr s)(b := Some a)"
    and dist: "distinct (b # bs)" and b: "sd_ptr s' b = Some a" and blk: "kh_block (sd_heap s') a = Some (replicate (buf_words b) 0)"
  shows "open_post (b # bs) s r s'"
  unfolding open_post_def
proof (intro conjI impI)
  show "kh_ok (sd_heap s')" "sdma_same_log s s'" "kh_next (sd_heap s) \<le> kh_next (sd_heap s')"
    using post by (simp_all add: open_post_def sdma_same_log_def s1 a)
  show "\<forall>x < kh_next (sd_heap s). kh_block (sd_heap s') x = kh_block (sd_heap s) x"
    using post by (auto simp: open_post_def s1 a)
  show "\<forall>x. x \<notin> set (b # bs) \<longrightarrow> sd_ptr s' x = sd_ptr s x"
    using post by (simp add: open_post_def s1 q)
  show "\<forall>x \<ge> kh_next (sd_heap s). kh_block (sd_heap s') x \<noteq> None \<longrightarrow> (\<exists>c \<in> set (b # bs). sd_ptr s' c = Some x)"
  proof (intro allI impI)
    fix x
    assume "kh_next (sd_heap s) \<le> x" "kh_block (sd_heap s') x \<noteq> None"
    then consider "x = a" | "Suc a \<le> x" using a(1) by linarith
    then show "\<exists>c \<in> set (b # bs). sd_ptr s' c = Some x"
      using b post \<open>kh_block (sd_heap s') x \<noteq> None\<close> by cases (simp_all add: open_post_def s1 a(2))
  qed
  assume r: "r = 0"
  have new: "\<exists>x \<ge> Suc a. sd_ptr s' c = Some x \<and> kh_block (sd_heap s') x = Some (replicate (buf_words c) 0)" if "c \<in> set bs" for c
    using post r that by (simp add: open_post_def s1 a(2))
  have "sd_ptr s' c \<noteq> Some a" if "c \<in> set bs" for c using new [OF that] by auto
  moreover have "inj_on (sd_ptr s') (set bs)" using post r by (simp add: open_post_def)
  ultimately show "inj_on (sd_ptr s') (set (b # bs))" using b dist by (force simp: inj_on_insert)
  show "\<forall>c \<in> set (b # bs). \<exists>x \<ge> kh_next (sd_heap s). sd_ptr s' c = Some x \<and> kh_block (sd_heap s') x = Some (replicate (buf_words c) 0)"
    using new b blk a(1) by (auto; metis Suc_leD)
qed

lemma open_bufs_post:
  assumes "kh_ok (sd_heap s)" and "distinct bs" and "open_bufs bs s = (r, s')"
  shows "open_post bs s r s' \<and> (r = 0 \<or> r = -1)"
  using assms
proof (induction bs arbitrary: s)
  case Nil
  then show ?case by (auto simp: open_post_def sdma_same_log_def kh_ok_def)
next
  case (Cons b bs)
  obtain p h where new: "kh_new (replicate (buf_words b) 0) (sd_heap s) = (p, h)" by fastforce
  let ?s1 = "s\<lparr>sd_ptr := (sd_ptr s)(b := p), sd_heap := h\<rparr>"
  have h: "kh_ok h" using kh_ok_new [OF Cons.prems(1)] new by (metis snd_conv)
  show ?case
  proof (cases p)
    case None
    have "kh_block (sd_heap s) a = None" if "kh_next (sd_heap s) \<le> a" for a
      using Cons.prems(1) that unfolding kh_ok_def by (metis linorder_not_less)
    with None show ?thesis using Cons.prems new h
      by (auto simp: open_post_def sdma_same_log_def kh_new_def kh_ok_def Let_def split: if_splits)
  next
    case (Some a)
    have a: "a = kh_next (sd_heap s)" "kh_next h = Suc a" "kh_block h = (kh_block (sd_heap s))(a \<mapsto> replicate (buf_words b) 0)"
      using new Some by (auto simp: kh_new_def Let_def split: if_splits)
    have rest: "open_bufs bs ?s1 = (r, s')" using Cons.prems(3) new Some by simp
    have post: "open_post bs ?s1 r s'" "r = 0 \<or> r = -1" using Cons.IH [of ?s1] Cons.prems(2) rest h by auto
    have b: "sd_ptr s' b = Some a" using post(1) Cons.prems(2) Some by (auto simp: open_post_def)
    have blk: "kh_block (sd_heap s') a = Some (replicate (buf_words b) 0)" using post(1) a by (simp add: open_post_def)
    have "open_post (b # bs) s r s'" by (rule open_post_Cons [OF post(1) refl a _ Cons.prems(2) b blk]) (simp add: Some)
    then show ?thesis using post(2) by simp
  qed
qed

lemma all_bufs_UNIV: "set all_bufs = UNIV" "distinct all_bufs"
  by (auto simp: all_bufs_def intro: sbuf.exhaust)

lemma open_post_ok:
  assumes "open_post all_bufs s 0 s'"
  shows "bufs_ok s' \<and> pairs_equal s'"
proof -
  have "\<exists>a. sd_ptr s' b = Some a \<and> kh_block (sd_heap s') a = Some (replicate (buf_words b) 0)" for b
    using assms by (auto simp: open_post_def all_bufs_UNIV)
  then have blk: "\<exists>a. sd_ptr s' b = Some a \<and> kh_block (sd_heap s') a = Some (replicate (buf_words b) 0)"
      "buf_block s' b = Some (replicate (buf_words b) 0)" for b
    unfolding buf_block_def by (auto, metis Option.bind.bind_lunit)
  have "inj (sd_ptr s')" using assms by (simp add: open_post_def all_bufs_UNIV)
  then have "bufs_ok s'" unfolding bufs_ok_def using blk(1) by (metis length_replicate)
  then show ?thesis using blk(2) by (simp add: pairs_equal_def buf_pairs_def pair_bytes)
qed

lemma open_post_blocks:
  assumes post: "open_post all_bufs s 0 s'" and ok: "kh_ok (sd_heap s)"
  shows "Some a \<in> range (sd_ptr s') \<Longrightarrow> kh_block (sd_heap s) a = None"
    and "Some a \<notin> range (sd_ptr s') \<Longrightarrow> kh_block (sd_heap s') a = kh_block (sd_heap s) a"
proof -
  have old: "kh_block (sd_heap s) x = None" if "kh_next (sd_heap s) \<le> x" for x
    using ok that unfolding kh_ok_def by (metis linorder_not_less)
  show "kh_block (sd_heap s) a = None" if a: "Some a \<in> range (sd_ptr s')"
  proof -
    obtain b where "sd_ptr s' b = Some a" using a by (metis imageE)
    moreover have "\<exists>x \<ge> kh_next (sd_heap s). sd_ptr s' b = Some x"
      using post unfolding open_post_def all_bufs_UNIV by blast
    ultimately show ?thesis using old by auto
  qed
  show "kh_block (sd_heap s') a = kh_block (sd_heap s) a" if "Some a \<notin> range (sd_ptr s')"
  proof (cases "a < kh_next (sd_heap s)")
    case True
    then show ?thesis using post by (simp add: open_post_def)
  next
    case False
    have "kh_block (sd_heap s') a \<noteq> None \<longrightarrow> (\<exists>b \<in> set all_bufs. sd_ptr s' b = Some a)"
      using post False unfolding open_post_def linorder_not_less by blast
    then have "kh_block (sd_heap s') a = None" using that by (metis rangeI)
    then show ?thesis using old False by simp
  qed
qed

text \<open>The invariant of the module; without open file it says nothing about the pointers.\<close>

definition sdma_base :: "'d sdma_state \<Rightarrow> bool" where
  "sdma_base s \<longleftrightarrow> kh_ok (sd_heap s) \<and> distinct (sd_chans s) \<and> (\<forall>c \<in> set (sd_chans s). c < sd_next_chan s)"

definition sdma_inv :: "'d sdma_state \<Rightarrow> bool" where
  "sdma_inv s \<longleftrightarrow> sdma_base s \<and> (\<exists>n. sd_log s = concat (replicate n passes)) \<and>
     (sd_files s = 0 \<or>
      sd_files s = 1 \<and> bufs_ok s \<and> pairs_equal s \<and> (\<exists>c. sd_chan s = Some c \<and> c \<in> set (sd_chans s)))"

lemma request_channel_spec:
  assumes "request_channel s = (ch, s')" and "sdma_base s"
  shows "sdma_base s' \<and> sd_heap s' = sd_heap s \<and> sd_log s' = sd_log s \<and> sd_files s' = sd_files s \<and> sd_ptr s' = sd_ptr s \<and>
    (case ch of None \<Rightarrow> sd_chans s' = sd_chans s | Some c \<Rightarrow> sd_chans s' = c # sd_chans s)"
  using assms by (auto simp: request_channel_def sdma_base_def Let_def less_SucI split: if_splits)

lemma sdma_open_spec:
  assumes op: "sdma_open s = (r, s')" and base: "sdma_base s"
  shows "sdma_base s' \<and> sd_log s' = sd_log s \<and> sd_files s' = sd_files s \<and>
    (r = - EINVAL \<and> sd_chans s' = sd_chans s \<and> kh_block (sd_heap s') = kh_block (sd_heap s) \<or>
     (r = 0 \<or> r = -1) \<and> (\<exists>c. sd_chan s' = Some c \<and> sd_chans s' = c # sd_chans s) \<and>
       (\<exists>s2. sd_heap s2 = sd_heap s \<and> open_post all_bufs s2 r s'))"
proof -
  obtain ch s1 where rc: "request_channel s = (ch, s1)" by fastforce
  note spec = request_channel_spec [OF rc base]
  show ?thesis
  proof (cases ch)
    case None
    then show ?thesis using op rc spec by (auto simp: sdma_open_def sdma_base_def)
  next
    case (Some c)
    let ?s2 = "s1\<lparr>sd_chan := Some c\<rparr>"
    have "open_bufs all_bufs ?s2 = (r, s')" using op rc Some by (simp add: sdma_open_def)
    then have post: "open_post all_bufs ?s2 r s'" "r = 0 \<or> r = -1"
      using open_bufs_post [of ?s2 all_bufs r s'] spec all_bufs_UNIV(2) by (auto simp: sdma_base_def)
    then have "sd_chans s' = c # sd_chans s \<and> sd_chan s' = Some c \<and> sd_next_chan s' = sd_next_chan s1 \<and> kh_ok (sd_heap s') \<and>
        sd_log s' = sd_log s \<and> sd_files s' = sd_files s"
      using spec Some by (simp add: open_post_def sdma_same_log_def)
    moreover from this have "sdma_base s'" using spec Some by (auto simp: sdma_base_def)
    moreover have "sd_heap ?s2 = sd_heap s" using spec by simp
    ultimately show ?thesis using post by blast
  qed
qed

lemma free_bufs_ok:
  assumes "distinct bs" and "inj (sd_ptr s)" and "\<forall>b \<in> set bs. \<exists>a xs. sd_ptr s b = Some a \<and> kh_block (sd_heap s) a = Some xs"
  shows "free_bufs bs s = Done (s\<lparr>sd_heap := (sd_heap s)\<lparr>kh_block := \<lambda>a. if Some a \<in> sd_ptr s ` set bs then None else kh_block (sd_heap s) a\<rparr>\<rparr>)"
  using assms
proof (induction bs arbitrary: s)
  case (Cons b bs)
  obtain a xs where a: "sd_ptr s b = Some a" "kh_block (sd_heap s) a = Some xs" using Cons.prems(3) by auto
  let ?s1 = "s\<lparr>sd_heap := (sd_heap s)\<lparr>kh_block := (kh_block (sd_heap s))(a := None)\<rparr>\<rparr>"
  have "\<exists>x xs. sd_ptr ?s1 c = Some x \<and> kh_block (sd_heap ?s1) x = Some xs" if c: "c \<in> set bs" for c
  proof -
    obtain x ys where x: "sd_ptr s c = Some x" "kh_block (sd_heap s) x = Some ys" using Cons.prems(3) c by (auto simp: ball_Un)
    have "b \<noteq> c" using Cons.prems(1) c by auto
    then have "x \<noteq> a" using Cons.prems(2) a(1) x(1) by (metis injD)
    then show ?thesis using x by simp
  qed
  then have "free_bufs bs ?s1 = Done (?s1\<lparr>sd_heap := (sd_heap ?s1)\<lparr>kh_block := \<lambda>x. if Some x \<in> sd_ptr ?s1 ` set bs then None else kh_block (sd_heap ?s1) x\<rparr>\<rparr>)"
    using Cons.IH [of ?s1] Cons.prems by simp
  then show ?case using a by (auto simp: kh_free_def image_iff intro!: arg_cong [where f = "\<lambda>h. s\<lparr>sd_heap := (sd_heap s)\<lparr>kh_block := h\<rparr>\<rparr>"])
qed simp

lemma sdma_release_ok:
  assumes ok: "bufs_ok s" and ch: "sd_chan s = Some c" "c \<in> set (sd_chans s)"
  shows "sdma_release s = Done (0, s\<lparr>sd_chans := remove1 c (sd_chans s), sd_chan := None,
    sd_heap := (sd_heap s)\<lparr>kh_block := \<lambda>a. if Some a \<in> range (sd_ptr s) then None else kh_block (sd_heap s) a\<rparr>\<rparr>)"
proof -
  let ?s1 = "s\<lparr>sd_chans := remove1 c (sd_chans s), sd_chan := None\<rparr>"
  have inj: "inj (sd_ptr ?s1)" using ok by (simp add: bufs_ok_def)
  have live: "\<forall>b \<in> set all_bufs. \<exists>a xs. sd_ptr ?s1 b = Some a \<and> kh_block (sd_heap ?s1) a = Some xs"
    using ok by (force simp: bufs_ok_def)
  show ?thesis
    using free_bufs_ok [OF all_bufs_UNIV(2) inj live] ch by (simp add: sdma_release_def all_bufs_UNIV(1) cong: if_cong)
qed

fun sdma_adm :: "'d sdma_state \<Rightarrow> sdma_call \<Rightarrow> bool" where
  "sdma_adm s SOpen = (sd_files s = 0)"
| "sdma_adm s c = (sd_files s \<noteq> 0)"

lemma sdma_open_inv:
  assumes "sdma_inv s" and "sd_files s = 0"
  shows "\<exists>r s'. sdma_step env s SOpen = Done (r, s') \<and> sdma_inv s'"
proof -
  obtain r s' where op: "sdma_open s = (r, s')" by fastforce
  have spec: "sdma_base s'" "sd_log s' = sd_log s" "sd_files s' = 0"
    using sdma_open_spec [OF op] assms by (auto simp: sdma_inv_def)
  have opened: "bufs_ok s' \<and> pairs_equal s' \<and> (\<exists>c. sd_chan s' = Some c \<and> c \<in> set (sd_chans s'))" if "r = 0"
    using sdma_open_spec [OF op] assms open_post_ok that by (force simp: sdma_inv_def EINVAL_def)
  have "bufs_ok (s'\<lparr>sd_files := n\<rparr>) = bufs_ok s'" "pairs_equal (s'\<lparr>sd_files := n\<rparr>) = pairs_equal s'" for n
    by (simp_all add: bufs_ok_def pairs_equal_def buf_block_def buf_pairs_def)
  then show ?thesis
    using op spec opened assms by (auto simp: sdma_inv_def sdma_base_def)
qed

lemma sdma_write_inv:
  assumes env: "dma_copies env" and inv: "sdma_inv s" and files: "sd_files s \<noteq> 0"
  shows "\<exists>r s'. sdma_write env s = Done (r, s') \<and> sdma_inv s'"
proof -
  have ok: "bufs_ok s" "sd_chan s \<noteq> None" using inv files by (auto simp: sdma_inv_def)
  obtain s' where s': "sdma_write env s = Done (0, s')" "bufs_ok s'" "sdma_frame s s'" "sd_log s' = sd_log s"
      "kh_ok (sd_heap s) \<longrightarrow> kh_ok (sd_heap s')" "pairs_equal s'"
    using sdma_write_ok [OF env ok] by auto
  then show ?thesis using inv files by (auto simp: sdma_inv_def sdma_base_def sdma_frame_def)
qed

lemma rounds_snoc: "concat (replicate n xs) @ xs = xs @ concat (replicate n xs)"
  by (induction n) simp_all

lemma sdma_read_inv:
  assumes inv: "sdma_inv s" and files: "sd_files s \<noteq> 0"
  shows "\<exists>r s'. sdma_read s = Done (r, s') \<and> sdma_inv s'"
proof -
  have ok: "bufs_ok s" "pairs_equal s" using inv files by (auto simp: sdma_inv_def)
  have run: "sdma_read s = Done (0, s\<lparr>sd_log := sd_log s @ passes\<rparr>)"
    using sdma_read_verdict [OF ok(1)] ok(2) verdict_passes [of s] by simp
  obtain n where "sd_log s = concat (replicate n passes)" using inv by (auto simp: sdma_inv_def)
  then have "sd_log s @ passes = concat (replicate (Suc n) passes)"
    by (simp add: rounds_snoc)
  then have "sdma_inv (s\<lparr>sd_log := sd_log s @ passes\<rparr>)"
    using inv by (auto simp: sdma_inv_def sdma_base_def pairs_equal_def buf_pairs_def simp del: replicate_Suc)
  then show ?thesis using run by blast
qed

lemma sdma_release_inv:
  assumes inv: "sdma_inv s" and files: "sd_files s \<noteq> 0"
  shows "\<exists>r s'. sdma_step env s SRelease = Done (r, s') \<and> sdma_inv s'"
proof -
  obtain c where c: "sd_chan s = Some c" "c \<in> set (sd_chans s)" and ok: "bufs_ok s" "sd_files s = 1"
    using inv files by (auto simp: sdma_inv_def)
  have "kh_ok ((sd_heap s)\<lparr>kh_block := \<lambda>a. if Some a \<in> range (sd_ptr s) then None else kh_block (sd_heap s) a\<rparr>)"
    using inv by (auto simp: sdma_inv_def sdma_base_def kh_ok_def)
  then show ?thesis
    using sdma_release_ok [OF ok(1) c] inv ok(2) by (auto simp: sdma_inv_def sdma_base_def dest: notin_set_remove1)
qed

text \<open>
  The interface needs an engine that copies; a broken one, for which nothing is claimed, makes no call
  admissible.
\<close>

definition sdma_adm_in :: "'d sdma_env \<Rightarrow> 'd sdma_state \<Rightarrow> sdma_call \<Rightarrow> bool" where
  "sdma_adm_in env s c \<longleftrightarrow> dma_copies env \<and> sdma_adm s c"

interpretation sdc: char_driver "sdma_step env" "sdma_adm_in env" sdma_inv for env :: "'d sdma_env"
proof
  fix s :: "'d sdma_state" and c
  assume inv: "sdma_inv s" and adm: "sdma_adm_in env s c"
  show "\<exists>r s'. sdma_step env s c = Done (r, s') \<and> sdma_inv s'"
    using adm sdma_open_inv [OF inv, of env] sdma_write_inv [OF _ inv, of env] sdma_read_inv [OF inv]
      sdma_release_inv [OF inv, of env]
    by (cases c) (simp_all add: sdma_adm_in_def del: sdma_step.simps(1) sdma_step.simps(4))
qed

lemma adm_calls_in: "dma_copies env \<Longrightarrow> adm_calls step sdma_adm s cs \<Longrightarrow> adm_calls step (sdma_adm_in env) s cs"
  by (induction cs arbitrary: s) (auto simp: sdma_adm_in_def split: run.splits)

section \<open>What goes wrong\<close>

text \<open>
  A failed allocation returns without giving back the channel and the buffers allocated before: with
  the third allocation failing, one channel and two blocks are lost.
\<close>

definition sdma_init_state :: "'d \<Rightarrow> bool list \<Rightarrow> 'd sdma_state" where
  "sdma_init_state d al = \<lparr>sd_ptr = (\<lambda>_. None), sd_heap = kh_empty\<lparr>kh_alloc := al\<rparr>, sd_chan = None, sd_chans = [], sd_next_chan = 0,
     sd_grants = [], sd_files = 0, sd_log = [], sd_dev = d\<rparr>"

lemma sdma_open_leaks:
  "case sdma_open (sdma_init_state d [True, True, False]) of (r, s) \<Rightarrow>
     r = -1 \<and> sd_chans s = [0] \<and> kh_block (sd_heap s) 0 \<noteq> None \<and> kh_block (sd_heap s) 1 \<noteq> None"
  by (simp add: sdma_open_def sdma_init_state_def request_channel_def all_bufs_def kh_new_def kh_empty_def)

text \<open>
  The buffers and the channel are global: with two open files the second \<open>release\<close> passes a NULL
  channel to \<open>dma_release_channel\<close>.
\<close>

lemma sdma_release_twice: "sdma_release s = Done (r, s') \<Longrightarrow> sdma_release s' = Undef"
proof -
  have keep: "free_bufs bs s1 = Done s2 \<Longrightarrow> sd_chan s2 = sd_chan s1" for bs and s1 s2 :: "'a sdma_state"
    by (induction bs arbitrary: s1) (auto simp: run_bind_eq_Done)
  assume "sdma_release s = Done (r, s')"
  then have "sd_chan s' = None" by (auto simp: sdma_release_def run_bind_eq_Done dest: keep split: option.splits if_splits)
  then show ?thesis by (simp add: sdma_release_def)
qed

text \<open>An engine without a descriptor for the request is reported and then dereferenced.\<close>

lemma sdma_prep_null:
  "bufs_ok s \<Longrightarrow> \<not> de_prep_memcpy env (sd_dev s) (the (sd_ptr s Rbuf4)) (the (sd_ptr s Wbuf4)) SDMA_BUF_SIZE \<Longrightarrow>
   sdma_memcpy_transfer env s = Undef"
  by (simp add: sdma_memcpy_transfer_def sg_entry_ok)

text \<open>Reading a file that was never written passes, too: all buffers are zero after \<open>open\<close>.\<close>

lemma sdma_read_unwritten:
  assumes "sdma_open s = (0, s')" and "sdma_base s"
  shows "sdma_read s' = Done (0, s'\<lparr>sd_log := sd_log s' @ passes\<rparr>)"
proof -
  have "bufs_ok s'" "pairs_equal s'" using sdma_open_spec [OF assms] open_post_ok by (auto simp: EINVAL_def)
  then show ?thesis using sdma_read_verdict verdict_passes by metis
qed

section \<open>Examples\<close>

definition copy_engine :: "nat sdma_env" where
  "copy_engine = \<lparr>de_prep_sg = (\<lambda>_ _ _. True), de_run_sg = (\<lambda>d dsts srcs h. Some (fold copy_entry (zip dsts srcs) h, Suc d)),
     de_prep_memcpy = (\<lambda>_ _ _ _. True), de_run_memcpy = (\<lambda>d dst src n h. Some (copy_entry ((dst, n), (src, n)) h, Suc d))\<rparr>"

lemma copy_engine_copies: "dma_copies copy_engine"
  by (simp add: dma_copies_def copy_engine_def)

lemma sdma_init_inv: "sdma_inv (sdma_init_state d al)"
  unfolding sdma_inv_def by (auto simp: sdma_base_def sdma_init_state_def kh_ok_def kh_empty_def intro: exI [of _ 0])

lemma sdma_init_open: "fst (sdma_open (sdma_init_state d [])) = 0"
  by (simp add: sdma_open_def sdma_init_state_def request_channel_def all_bufs_def kh_new_def kh_empty_def)

section \<open>Properties\<close>

text \<open>
  C34: with an engine that copies, a run of the test from a successful \<open>open\<close> fills the four
  destination buffers with the patterns of the sources, reports exactly that the four buffers passed,
  and \<open>release\<close> returns the channel and every block: kernel memory and channels are as before the
  \<open>open\<close>.
\<close>

theorem sdma_copy_test_run:
  assumes env: "dma_copies env" and base: "sdma_base s" and op: "sdma_open s = (0, s1)"
  shows "\<exists>s2 s3 s4. sdma_write env s1 = Done (0, s2) \<and>
    map (buf_block s2) [Rbuf, Rbuf2, Rbuf3, Rbuf4] =
      [Some (replicate 256 0x12121212), Some (replicate 128 0x34343434), Some (replicate 256 0x56565656), Some (replicate 256 0x56565656)] \<and>
    sdma_read s2 = Done (0, s3) \<and> sd_log s3 = sd_log s @ [(1, True), (2, True), (3, True), (4, True)] \<and>
    sdma_release s3 = Done (0, s4) \<and> kh_block (sd_heap s4) = kh_block (sd_heap s) \<and> sd_chans s4 = sd_chans s"
proof -
  obtain c s0 where c: "sd_chan s1 = Some c" "sd_chans s1 = c # sd_chans s" and h0: "sd_heap s0 = sd_heap s"
      and post: "open_post all_bufs s0 0 s1" and log: "sd_log s1 = sd_log s"
    using sdma_open_spec [OF op base] by (auto simp: EINVAL_def)
  have ok1: "bufs_ok s1" using open_post_ok [OF post] by simp
  obtain s2 where s2: "sdma_write env s1 = Done (0, s2)" "bufs_ok s2" "sdma_frame s1 s2" "sd_log s2 = sd_log s1" "same_others s1 s2"
      "pairs_equal s2" and pats: "map (buf_block s2) [Rbuf, Rbuf2, Rbuf3, Rbuf4] =
        [Some (replicate 256 0x12121212), Some (replicate 128 0x34343434), Some (replicate 256 0x56565656), Some (replicate 256 0x56565656)]"
    using sdma_write_ok [OF env ok1] c(1) by auto
  define s3 where "s3 = s2\<lparr>sd_log := sd_log s2 @ passes\<rparr>"
  have read: "sdma_read s2 = Done (0, s3)"
    using sdma_read_verdict [OF s2(2)] verdict_passes [of s2] s2(6) by (simp add: s3_def)
  have s3: "bufs_ok s3" "sd_chan s3 = Some c" "sd_chans s3 = c # sd_chans s" "sd_ptr s3 = sd_ptr s1" "sd_heap s3 = sd_heap s2"
    using s2(2,3) c by (simp_all add: s3_def sdma_frame_def)
  have blk: "(\<lambda>a. if Some a \<in> range (sd_ptr s3) then None else kh_block (sd_heap s3) a) = kh_block (sd_heap s)"
    using open_post_blocks [OF post] base s2(5) h0 s3(4,5) by (auto simp: fun_eq_iff same_others_def sdma_base_def)
  have "c \<in> set (sd_chans s3)" by (simp add: s3)
  from sdma_release_ok [OF s3(1,2) this, unfolded blk] obtain s4 where "sdma_release s3 = Done (0, s4)"
      "kh_block (sd_heap s4) = kh_block (sd_heap s)" "sd_chans s4 = sd_chans s" by (simp add: s3)
  moreover have "sd_log s3 = sd_log s @ [(1, True), (2, True), (3, True), (4, True)]" by (simp add: s3_def passes_def s2(4) log)
  ultimately show ?thesis using s2(1) pats read by (intro exI conjI)
qed

theorem sdma_copy_test_run_witness:
  "\<exists>s1 s2 s3 s4. sdma_open (sdma_init_state 0 []) = (0, s1) \<and> sdma_write copy_engine s1 = Done (0, s2) \<and>
     sdma_read s2 = Done (0, s3) \<and> sd_log s3 = [(1, True), (2, True), (3, True), (4, True)] \<and>
     sdma_release s3 = Done (0, s4) \<and> sd_chans s4 = []"
proof -
  obtain s1 where s1: "sdma_open (sdma_init_state (0::nat) []) = (0, s1)" using sdma_init_open [of "0::nat"] by (metis prod.collapse)
  have "sdma_base (sdma_init_state (0::nat) [])" by (rule sdma_init_inv [unfolded sdma_inv_def, THEN conjunct1])
  from sdma_copy_test_run [OF copy_engine_copies this s1] s1 show ?thesis
    by (fastforce simp: sdma_init_state_def)
qed

text \<open>
  C6: with an engine that copies and one open file at a time, every sequence of \<open>open\<close>,
  \<open>write\<close>, \<open>read\<close> and \<open>release\<close> calls returns, whatever allocations and channel requests fail:
  no dead or missing buffer is used or freed, and the log is only ever extended by complete rounds in
  which all four buffers pass.
\<close>

theorem sdma_copy_driver_safe:
  assumes "dma_copies env" and "sdma_inv s" and "adm_calls (sdma_step env) sdma_adm s cs"
  shows "\<exists>rs s'. run_calls (sdma_step env) s cs = Done (rs, s') \<and> length rs = length cs \<and> sdma_inv s' \<and>
    (\<exists>n. sd_log s' = concat (replicate n [(1, True), (2, True), (3, True), (4, True)]))"
proof -
  obtain rs s' where "run_calls (sdma_step env) s cs = Done (rs, s')" "length rs = length cs" and inv: "sdma_inv s'"
    using sdc.run_calls_ok [OF assms(2) adm_calls_in [OF assms(1,3)]] by auto
  moreover have "\<exists>n. sd_log s' = concat (replicate n [(1, True), (2, True), (3, True), (4, True)])"
    using inv by (simp add: sdma_inv_def passes_def)
  ultimately show ?thesis by blast
qed

theorem sdma_copy_driver_safe_witness:
  "\<exists>rs s'. run_calls (sdma_step copy_engine) (sdma_init_state 0 [True, False]) [SOpen] = Done (rs, s') \<and> length rs = 1 \<and> sdma_inv s'"
  using sdma_copy_driver_safe [OF copy_engine_copies sdma_init_inv, of 0 "[True, False]" "[SOpen]"]
  by (auto simp: sdma_init_state_def case_prod_beta Let_def)

end
