(* ===== verification/Sdma_Mem.thy ===== *)
theory Sdma_Mem
  imports Kernel_Heap "HOL-Library.Signed_Division"
begin

unbundle bit_operations_syntax

text \<open>
  The SDMA memory test module (\<^verbatim>\<open>src/module_test/mxc_sdma_mem_test.c\<close>): \<open>write\<close> fills a buffer
  with the bytes of a pseudo-random generator and starts a transfer, \<open>read\<close> compares the other buffer
  with the same bytes. The generator works on a signed \<open>int\<close>; the kernel is compiled so that signed
  arithmetic wraps, and division truncates towards zero. The transfer is a step of its own, which the
  hardware takes at some time after \<open>write\<close>: \<open>write\<close> does not wait for it. What it does to memory is
  a parameter. \<open>dma_alloc_coherent\<close> may fail, which \<open>open\<close> does not check; using or freeing a NULL
  buffer is undefined behaviour. The log has one entry per verdict, true for PASSED.
\<close>

section \<open>The generator\<close>

definition rand_next :: "u32 \<Rightarrow> u32" where
  "rand_next g_sand = word_of_int (sint (g_sand * 12357) sdiv 1103)"

definition rand :: "u32 \<Rightarrow> u8 \<times> u32" where
  "rand g_sand = (ucast (rand_next g_sand), rand_next g_sand)"

definition sand :: "u32 \<Rightarrow> u32" where
  "sand rd = rd"

primrec fill_rand :: "u8 list \<Rightarrow> nat \<Rightarrow> nat \<Rightarrow> u32 \<Rightarrow> (u8 list \<times> u32) option" where
  "fill_rand p i 0 g = Some (p, g)"
| "fill_rand p i (Suc k) g =
     (let (x, g') = rand g in Option.bind (c_upd p (int i) x) (\<lambda>p'. fill_rand p' (Suc i) k g'))"

definition FillMem :: "u8 list \<Rightarrow> nat \<Rightarrow> u32 \<Rightarrow> (u8 list \<times> u32) option" where
  "FillMem p n rd = fill_rand p 0 n (sand rd)"

primrec verify_loop :: "u8 list \<Rightarrow> nat \<Rightarrow> nat \<Rightarrow> u32 \<Rightarrow> (nat \<times> u32) option" where
  "verify_loop p i 0 g = Some (0, g)"
| "verify_loop p i (Suc k) g =
     (let (x, g') = rand g
      in Option.bind (c_nth p (int i)) (\<lambda>y. if x \<noteq> y then Some (1, g') else verify_loop p (Suc i) k g'))"

definition Verify :: "u8 list \<Rightarrow> nat \<Rightarrow> u32 \<Rightarrow> (int \<times> u32) option" where
  "Verify p n rd = map_option (\<lambda>(j, g). (if j > 0 then 1 else 0, g)) (verify_loop p 0 n (sand rd))"

text \<open>The first bytes of the generator, as a list.\<close>

primrec rand_bytes :: "u32 \<Rightarrow> nat \<Rightarrow> u8 list" where
  "rand_bytes g 0 = []"
| "rand_bytes g (Suc k) = ucast (rand_next g) # rand_bytes (rand_next g) k"

lemma length_rand_bytes [simp]: "length (rand_bytes g k) = k"
  by (induction k arbitrary: g) simp_all

lemma fill_rand_bytes:
  "i + k \<le> length p \<Longrightarrow> fill_rand p i k g = Some (take i p @ rand_bytes g k @ drop (i + k) p, (rand_next ^^ k) g)"
proof (induction k arbitrary: p i g)
  case (Suc k)
  have "take (Suc i) (p[i := ucast (rand_next g)]) = take i p @ [ucast (rand_next g)]"
    using Suc.prems by (simp add: take_Suc_conv_app_nth)
  then show ?case using Suc by (simp add: rand_def c_upd_nat funpow_swap1)
qed simp

lemma verify_loop_bytes:
  "i + k \<le> length p \<Longrightarrow> \<exists>j g'. verify_loop p i k g = Some (j, g') \<and> (j = 0 \<longleftrightarrow> take k (drop i p) = rand_bytes g k)"
proof (induction k arbitrary: i g)
  case (Suc k)
  have "drop i p = p ! i # drop (Suc i) p" using Suc.prems by (simp add: Cons_nth_drop_Suc)
  then show ?case using Suc.IH [of "Suc i" "rand_next g"] Suc.prems by (auto simp: rand_def c_nth_nat)
qed simp

lemma FillMem_bytes: "length p = n \<Longrightarrow> \<exists>g. FillMem p n rd = Some (rand_bytes rd n, g)"
  by (simp add: FillMem_def fill_rand_bytes sand_def)

lemma Verify_bytes: "length p = n \<Longrightarrow> \<exists>g. Verify p n rd = Some (if p = rand_bytes rd n then 0 else 1, g)"
  using verify_loop_bytes [of 0 n p rd] by (auto simp: Verify_def sand_def)

section \<open>State\<close>

definition SDMA_MEM_SIZE :: nat where "SDMA_MEM_SIZE = 1024"

definition ENODEV :: int where "ENODEV = 19"

record smem_state =
  sm_wbuf :: "nat option"
  sm_rbuf :: "nat option"
  sm_heap :: "u8 kheap"
  sm_channel :: int
  sm_channels :: "int list"
  sm_grants :: "int list"
  sm_pending :: "(nat \<times> nat \<times> nat) option"
  sm_sand :: u32
  sm_log :: "bool list"
  sm_regs :: "(u32 \<times> u32) list"
  sm_files :: nat

record smem_env =
  me_dma :: "nat \<Rightarrow> nat \<Rightarrow> nat \<Rightarrow> u8 kheap \<Rightarrow> u8 kheap"
  me_uninit :: "nat \<Rightarrow> u8 list"
  me_once_enb :: u32

text \<open>The writes of \<open>mxc_printSDMAcontext\<close> to the debug registers, as offset and value.\<close>

definition sdma_ctx_offset :: "int \<Rightarrow> u32" where
  "sdma_ctx_offset channel = word_of_int (0x800 + 32 * channel)"

definition ctx_word_ops :: "u32 \<Rightarrow> nat \<Rightarrow> (u32 \<times> u32) list" where
  "ctx_word_ops offset i =
     [(0x48, (push_bit 8 0x08 OR (drop_bit 8 offset AND 0xFF)) AND 0xFFFF), (0x50, 0x02),
      (0x48, 0x0011), (0x50, 0x02),
      (0x48, ((push_bit 8 0x18 OR (offset AND 0xFF)) + of_nat i) AND 0xFFFF), (0x50, 0x02),
      (0x48, 0x5100), (0x50, 0x02), (0x50, 0x01)]"

definition mxc_printSDMAcontext :: "smem_env \<Rightarrow> int \<Rightarrow> (u32 \<times> u32) list" where
  "mxc_printSDMAcontext env channel =
     [(0x40, me_once_enb env OR 1), (0x50, 0x05)] @
     concat (map (ctx_word_ops (sdma_ctx_offset channel)) [0..<32]) @ [(0x50, 0x03)]"

section \<open>Operations\<close>

definition smem_open :: "smem_env \<Rightarrow> smem_state \<Rightarrow> int \<times> smem_state" where
  "smem_open env s =
     (let ch = (case sm_grants s of [] \<Rightarrow> -1 | c # _ \<Rightarrow> c); s1 = s\<lparr>sm_channel := ch, sm_grants := tl (sm_grants s)\<rparr>
      in if ch < 0 then (- ENODEV, s1)
         else
           (let (w, h1) = kh_new (fresh_buf (me_uninit env) SDMA_MEM_SIZE) (sm_heap s1);
                (r, h2) = kh_new (fresh_buf (me_uninit env) SDMA_MEM_SIZE) h1
            in (0, s1\<lparr>sm_channels := ch # sm_channels s1, sm_wbuf := w, sm_rbuf := r, sm_heap := h2\<rparr>)))"

definition free_coherent :: "nat option \<Rightarrow> u8 kheap \<Rightarrow> u8 kheap run" where
  "free_coherent p h = (if p = None then Undef else kh_free p h)"

text \<open>Freeing the channel ends a transfer that is still under way.\<close>

definition smem_release :: "smem_state \<Rightarrow> (int \<times> smem_state) run" where
  "smem_release s =
     (if sm_channel s \<notin> set (sm_channels s) then Undef
      else run_bind (free_coherent (sm_wbuf s) (sm_heap s)) (\<lambda>h1. run_bind (free_coherent (sm_rbuf s) h1) (\<lambda>h2.
        Done (0, s\<lparr>sm_channels := remove1 (sm_channel s) (sm_channels s), sm_pending := None, sm_heap := h2\<rparr>))))"

definition smem_write :: "smem_env \<Rightarrow> smem_state \<Rightarrow> (int \<times> smem_state) run" where
  "smem_write env s =
     (let (req, h1) = kh_new [] (sm_heap s)
      in if req = None then Done (- ENOMEM, s\<lparr>sm_heap := h1\<rparr>)
         else
           run_bind (kh_get h1 (sm_wbuf s)) (\<lambda>p.
           run_bind (of_option (FillMem p SDMA_MEM_SIZE 100)) (\<lambda>(p', g).
             (case (sm_wbuf s, sm_rbuf s) of
                (Some w, Some r) \<Rightarrow>
                  if sm_channel s \<notin> set (sm_channels s) then Undef
                  else run_bind (kh_free req (kh_put w p' h1)) (\<lambda>h2.
                    Done (0, s\<lparr>sm_heap := h2, sm_sand := g, sm_pending := Some (r, w, SDMA_MEM_SIZE)\<rparr>))
              | _ \<Rightarrow> Undef))))"

definition smem_dma :: "smem_env \<Rightarrow> smem_state \<Rightarrow> smem_state" where
  "smem_dma env s =
     (case sm_pending s of
        None \<Rightarrow> s
      | Some (dst, src, n) \<Rightarrow> s\<lparr>sm_heap := me_dma env dst src n (sm_heap s), sm_pending := None\<rparr>)"

definition smem_read :: "smem_env \<Rightarrow> smem_state \<Rightarrow> (int \<times> smem_state) run" where
  "smem_read env s =
     run_bind (kh_get (sm_heap s) (sm_rbuf s)) (\<lambda>p. run_bind (of_option (Verify p SDMA_MEM_SIZE 100)) (\<lambda>(v, g).
       let s1 = s\<lparr>sm_sand := g\<rparr>
       in Done (0, if v = 0 then s1\<lparr>sm_log := sm_log s1 @ [True]\<rparr>
                   else s1\<lparr>sm_log := sm_log s1 @ [False], sm_regs := sm_regs s1 @ mxc_printSDMAcontext env (sm_channel s1)\<rparr>)))"

datatype smem_call = MOpen | MWrite | MDma | MRead | MRelease

fun smem_step :: "smem_env \<Rightarrow> smem_state \<Rightarrow> smem_call \<Rightarrow> (int \<times> smem_state) run" where
  "smem_step env s MOpen = (let (r, s') = smem_open env s in Done (r, if r = 0 then s'\<lparr>sm_files := Suc (sm_files s')\<rparr> else s'))"
| "smem_step env s MWrite = smem_write env s"
| "smem_step env s MDma = Done (0, smem_dma env s)"
| "smem_step env s MRead = smem_read env s"
| "smem_step env s MRelease = run_bind (smem_release s) (\<lambda>(r, s'). Done (r, s'\<lparr>sm_files := sm_files s' - 1\<rparr>))"

section \<open>An open file\<close>

definition smem_bufs :: "smem_state \<Rightarrow> u8 list \<Rightarrow> u8 list \<Rightarrow> bool" where
  "smem_bufs s p q \<longleftrightarrow>
     (\<exists>w r. sm_wbuf s = Some w \<and> sm_rbuf s = Some r \<and> w \<noteq> r \<and> kh_block (sm_heap s) w = Some p \<and> kh_block (sm_heap s) r = Some q \<and>
        length p = SDMA_MEM_SIZE \<and> length q = SDMA_MEM_SIZE \<and>
        (sm_pending s = None \<or> sm_pending s = Some (r, w, SDMA_MEM_SIZE))) \<and>
     sm_channel s \<in> set (sm_channels s) \<and> kh_ok (sm_heap s)"

text \<open>A transfer that copies: the destination gets the bytes of the source and nothing else changes.\<close>

definition dma_mem_copies :: "smem_env \<Rightarrow> bool" where
  "dma_mem_copies env \<longleftrightarrow>
     (\<forall>dst src n h ds ss. dst \<noteq> src \<and> kh_block h dst = Some ds \<and> kh_block h src = Some ss \<and> n \<le> length ds \<and> n \<le> length ss \<longrightarrow>
        me_dma env dst src n h = kh_put dst (take n ss @ drop n ds) h)"

definition can_alloc :: "'a kheap \<Rightarrow> bool" where
  "can_alloc h = (case kh_alloc h of [] \<Rightarrow> True | b # _ \<Rightarrow> b)"

lemma kh_new_ok: "can_alloc h \<Longrightarrow> kh_new xs h = (Some (kh_next h),
    h\<lparr>kh_alloc := tl (kh_alloc h), kh_block := (kh_block h)(kh_next h \<mapsto> xs), kh_next := Suc (kh_next h)\<rparr>)"
  by (simp add: kh_new_def can_alloc_def Let_def)

lemma kh_new_fail: "\<not> can_alloc h \<Longrightarrow> kh_new xs h = (None, h\<lparr>kh_alloc := tl (kh_alloc h)\<rparr>)"
  by (simp add: kh_new_def can_alloc_def Let_def)

lemma kh_ok_next: "kh_ok h \<Longrightarrow> kh_block h (kh_next h) = None"
  unfolding kh_ok_def by blast

lemma smem_write_ok:
  assumes bufs: "smem_bufs s p q" and al: "can_alloc (sm_heap s)"
  shows "\<exists>s' w r. smem_write env s = Done (0, s') \<and> smem_bufs s' (rand_bytes 100 SDMA_MEM_SIZE) q \<and>
    sm_pending s' = Some (r, w, SDMA_MEM_SIZE) \<and> sm_log s' = sm_log s \<and> sm_files s' = sm_files s \<and> sm_regs s' = sm_regs s"
proof -
  obtain w r where ptr: "sm_wbuf s = Some w" "sm_rbuf s = Some r" "w \<noteq> r" and blk: "kh_block (sm_heap s) w = Some p" "kh_block (sm_heap s) r = Some q"
      and len: "length p = SDMA_MEM_SIZE" "length q = SDMA_MEM_SIZE" and ch: "sm_channel s \<in> set (sm_channels s)" and ok: "kh_ok (sm_heap s)"
    using bufs unfolding smem_bufs_def by blast
  let ?n = "kh_next (sm_heap s)"
  have ne: "w < ?n" "r < ?n" using ok blk by (auto simp: kh_ok_def)
  obtain g where fill: "FillMem p SDMA_MEM_SIZE 100 = Some (rand_bytes 100 SDMA_MEM_SIZE, g)" using FillMem_bytes [OF len(1)] by blast
  let ?h = "(sm_heap s)\<lparr>kh_alloc := tl (kh_alloc (sm_heap s)), kh_next := Suc ?n,
      kh_block := (kh_block (sm_heap s))(w \<mapsto> rand_bytes 100 SDMA_MEM_SIZE)\<rparr>"
  have free: "kh_free (Some ?n) (kh_put w xs ((sm_heap s)\<lparr>kh_alloc := al, kh_block := (kh_block (sm_heap s))(?n \<mapsto> []), kh_next := Suc ?n\<rparr>)) =
      Done ((sm_heap s)\<lparr>kh_alloc := al, kh_next := Suc ?n, kh_block := (kh_block (sm_heap s))(w \<mapsto> xs)\<rparr>)" for xs al
    using ne kh_ok_next [OF ok] by (auto simp: kh_free_def kh_put_def fun_eq_iff)
  have "smem_write env s = Done (0, s\<lparr>sm_heap := ?h, sm_sand := g, sm_pending := Some (r, w, SDMA_MEM_SIZE)\<rparr>)"
    using ptr blk ne ch fill free by (simp add: smem_write_def kh_new_ok [OF al] kh_get_def)
  moreover have "smem_bufs (s\<lparr>sm_heap := ?h, sm_sand := g, sm_pending := Some (r, w, SDMA_MEM_SIZE)\<rparr>) (rand_bytes 100 SDMA_MEM_SIZE) q"
    using ptr blk len ch ok ne by (auto simp: smem_bufs_def kh_ok_def less_SucI)
  ultimately show ?thesis by auto
qed

lemma smem_dma_ok:
  assumes env: "dma_mem_copies env" and bufs: "smem_bufs s p q"
  shows "smem_bufs (smem_dma env s) p (if sm_pending s = None then q else p) \<and> sm_log (smem_dma env s) = sm_log s \<and>
    sm_files (smem_dma env s) = sm_files s"
proof -
  obtain w r where ptr: "sm_wbuf s = Some w" "sm_rbuf s = Some r" "w \<noteq> r" and blk: "kh_block (sm_heap s) w = Some p" "kh_block (sm_heap s) r = Some q"
      and len: "length p = SDMA_MEM_SIZE" "length q = SDMA_MEM_SIZE" and pend: "sm_pending s = None \<or> sm_pending s = Some (r, w, SDMA_MEM_SIZE)"
      and ch: "sm_channel s \<in> set (sm_channels s)" and ok: "kh_ok (sm_heap s)"
    using bufs unfolding smem_bufs_def by blast
  have "me_dma env r w SDMA_MEM_SIZE (sm_heap s) = kh_put r (take SDMA_MEM_SIZE p @ drop SDMA_MEM_SIZE q) (sm_heap s)"
    using env ptr(3) blk len unfolding dma_mem_copies_def by (metis le_refl)
  then have run: "me_dma env r w SDMA_MEM_SIZE (sm_heap s) = kh_put r p (sm_heap s)" using len by simp
  from pend show ?thesis
  proof
    assume "sm_pending s = None"
    then show ?thesis using bufs by (simp add: smem_dma_def)
  next
    assume "sm_pending s = Some (r, w, SDMA_MEM_SIZE)"
    then show ?thesis using run ptr blk len ch ok by (auto simp: smem_dma_def smem_bufs_def)
  qed
qed

lemma smem_read_ok:
  assumes bufs: "smem_bufs s p q"
  shows "\<exists>s'. smem_read env s = Done (0, s') \<and> smem_bufs s' p q \<and> sm_log s' = sm_log s @ [q = rand_bytes 100 SDMA_MEM_SIZE] \<and>
    sm_files s' = sm_files s \<and> (q = rand_bytes 100 SDMA_MEM_SIZE \<longrightarrow> sm_regs s' = sm_regs s)"
proof -
  obtain r where r: "sm_rbuf s = Some r" "kh_block (sm_heap s) r = Some q" "length q = SDMA_MEM_SIZE"
    using bufs unfolding smem_bufs_def by blast
  obtain g where "Verify q SDMA_MEM_SIZE 100 = Some (if q = rand_bytes 100 SDMA_MEM_SIZE then 0 else 1, g)"
    using Verify_bytes [OF r(3)] by blast
  then show ?thesis using r bufs by (auto simp: smem_read_def kh_get_def smem_bufs_def Let_def)
qed

lemma smem_open_ok:
  assumes ok: "kh_ok (sm_heap s)" and al: "can_alloc (sm_heap s)" "can_alloc (sm_heap s\<lparr>kh_alloc := tl (kh_alloc (sm_heap s))\<rparr>)"
    and pend: "sm_pending s = None" and op: "smem_open env s = (0, s')"
  shows "(\<exists>p q. smem_bufs s' p q) \<and> sm_log s' = sm_log s \<and> sm_files s' = sm_files s"
proof -
  have al2: "can_alloc (snd (kh_new xs (sm_heap s)))" for xs using al by (simp add: kh_new_ok can_alloc_def)
  have "\<not> (case sm_grants s of [] \<Rightarrow> -1 | c # _ \<Rightarrow> c) < 0" using op by (auto simp: smem_open_def Let_def ENODEV_def case_prod_beta split: if_splits)
  then show ?thesis
    using op ok pend al kh_new_ok [OF al2]
    by (auto simp: smem_open_def Let_def kh_new_ok case_prod_beta smem_bufs_def kh_ok_def less_SucI split: if_splits)
qed

lemma smem_open_fails:
  assumes "smem_open env s = (r, s')" and "r \<noteq> 0"
  shows "sm_heap s' = sm_heap s \<and> sm_pending s' = sm_pending s \<and> sm_files s' = sm_files s \<and> sm_log s' = sm_log s"
  using assms by (auto simp: smem_open_def Let_def case_prod_beta split: if_splits)

lemma smem_release_ok:
  assumes "smem_bufs s p q"
  shows "\<exists>s'. smem_release s = Done (0, s') \<and> kh_ok (sm_heap s') \<and> sm_pending s' = None \<and> sm_files s' = sm_files s"
proof -
  obtain w r where ptr: "sm_wbuf s = Some w" "sm_rbuf s = Some r" "w \<noteq> r" "kh_block (sm_heap s) w = Some p" "kh_block (sm_heap s) r = Some q"
      "sm_channel s \<in> set (sm_channels s)" "kh_ok (sm_heap s)"
    using assms unfolding smem_bufs_def by blast
  then show ?thesis by (auto simp: smem_release_def free_coherent_def kh_free_def kh_ok_def)
qed

text \<open>
  The invariant, and the calls it needs: one file at a time, buffers that can be allocated when it is
  opened, and a transfer that copies.
\<close>

definition smem_inv :: "smem_state \<Rightarrow> bool" where
  "smem_inv s \<longleftrightarrow> (sm_files s = 0 \<and> kh_ok (sm_heap s) \<and> sm_pending s = None) \<or> (sm_files s = 1 \<and> (\<exists>p q. smem_bufs s p q))"

fun smem_adm :: "smem_env \<Rightarrow> smem_state \<Rightarrow> smem_call \<Rightarrow> bool" where
  "smem_adm env s MOpen = (sm_files s = 0 \<and> can_alloc (sm_heap s) \<and> can_alloc (sm_heap s\<lparr>kh_alloc := tl (kh_alloc (sm_heap s))\<rparr>))"
| "smem_adm env s MDma = dma_mem_copies env"
| "smem_adm env s c = (sm_files s \<noteq> 0)"

lemma smem_bufs_frame [simp]: "smem_bufs (s\<lparr>sm_files := n\<rparr>) = smem_bufs s"
  by (simp add: smem_bufs_def fun_eq_iff)

lemma smem_write_nomem:
  "smem_bufs s p q \<Longrightarrow> \<not> can_alloc (sm_heap s) \<Longrightarrow>
   \<exists>s'. smem_write env s = Done (- ENOMEM, s') \<and> smem_bufs s' p q \<and> sm_files s' = sm_files s \<and> sm_log s' = sm_log s"
  by (auto simp: smem_write_def kh_new_fail smem_bufs_def kh_ok_def)

lemma smem_open_inv:
  assumes inv: "smem_inv s" and adm: "smem_adm env s MOpen"
  shows "\<exists>r s'. smem_step env s MOpen = Done (r, s') \<and> smem_inv s'"
proof -
  obtain r s' where op: "smem_open env s = (r, s')" by fastforce
  have closed: "sm_files s = 0" "kh_ok (sm_heap s)" "sm_pending s = None" using adm inv by (auto simp: smem_inv_def)
  show ?thesis
  proof (cases "r = 0")
    case True
    with op have "smem_open env s = (0, s')" by simp
    from smem_open_ok [OF closed(2) _ _ closed(3) this] adm closed op True show ?thesis by (auto simp: smem_inv_def)
  next
    case False
    then show ?thesis using smem_open_fails [OF op False] op closed by (auto simp: smem_inv_def)
  qed
qed

interpretation smd: char_driver "smem_step env" "smem_adm env" smem_inv for env
proof
  fix s c
  assume inv: "smem_inv s" and adm: "smem_adm env s c"
  have opened: "sm_files s = 1 \<and> (\<exists>p q. smem_bufs s p q)" if "sm_files s \<noteq> 0" using inv that by (auto simp: smem_inv_def)
  show "\<exists>r s'. smem_step env s c = Done (r, s') \<and> smem_inv s'"
  proof (cases c)
    case MOpen
    then show ?thesis using smem_open_inv [OF inv, of env] adm by (simp del: smem_step.simps)
  next
    case MWrite
    then obtain p q where bufs: "smem_bufs s p q" "sm_files s = 1" using adm opened by auto
    then show ?thesis
      using MWrite smem_write_ok [OF bufs(1)] smem_write_nomem [OF bufs(1), of env]
      by (cases "can_alloc (sm_heap s)") (fastforce simp: smem_inv_def)+
  next
    case MDma
    show ?thesis
    proof (cases "sm_files s = 0")
      case True
      then show ?thesis using MDma inv by (auto simp: smem_inv_def smem_dma_def smem_bufs_def)
    next
      case False
      then obtain p q where "smem_bufs s p q" "sm_files s = 1" using opened by auto
      then show ?thesis using MDma adm smem_dma_ok by (fastforce simp: smem_inv_def)
    qed
  next
    case MRead
    then obtain p q where bufs: "smem_bufs s p q" "sm_files s = 1" using adm opened by auto
    then show ?thesis using MRead smem_read_ok [OF bufs(1), of env] by (auto simp: smem_inv_def)
  next
    case MRelease
    then obtain p q where bufs: "smem_bufs s p q" "sm_files s = 1" using adm opened by auto
    then show ?thesis using MRelease smem_release_ok [OF bufs(1)] by (auto simp: smem_inv_def)
  qed
qed

lemmas smem_driver_safe = smd.run_calls_ok

section \<open>What goes wrong\<close>

text \<open>An allocation that fails is not noticed: \<open>open\<close> succeeds and the first \<open>write\<close> uses a NULL buffer.\<close>

lemma smem_open_unchecked:
  assumes "0 \<le> c" and "sm_grants s = c # cs" and "\<not> can_alloc (sm_heap s)" and "smem_open env s = (r, s')" and "can_alloc (sm_heap s')"
  shows "r = 0 \<and> sm_wbuf s' = None \<and> smem_write env s' = Undef"
proof -
  have "r = 0 \<and> sm_wbuf s' = None" using assms by (auto simp: smem_open_def kh_new_fail Let_def case_prod_beta)
  then show ?thesis using assms(5) by (simp add: smem_write_def kh_new_ok kh_get_def)
qed

section \<open>The context dump\<close>

text \<open>
  The instructions of the dump load the high and the low byte of an address: for each of the 32
  channels word \<open>i\<close> of its context, at \<open>0x800 + 32 * channel + i\<close>. The sum of the low byte and
  \<open>i\<close> never runs into the operation code.
\<close>

lemma ctx_parts:
  assumes "0 \<le> ch" and "ch < 32"
  shows "(push_bit 8 0x08 OR (drop_bit 8 (sdma_ctx_offset ch) AND 0xFF)) AND 0xFFFF = word_of_int (0x800 + (0x800 + 32 * ch) div 256)"
    and "push_bit 8 0x18 OR (sdma_ctx_offset ch AND 0xFF) = word_of_int (0x1800 + (0x800 + 32 * ch) mod 256)"
proof -
  have "ch \<in> set [0..31]" using assms by simp
  moreover have "list_all (\<lambda>ch. (push_bit 8 0x08 OR (drop_bit 8 (sdma_ctx_offset ch) AND 0xFF)) AND 0xFFFF = word_of_int (0x800 + (0x800 + 32 * ch) div 256) \<and>
      push_bit 8 0x18 OR (sdma_ctx_offset ch AND 0xFF) = word_of_int (0x1800 + (0x800 + 32 * ch) mod 256)) [0..31]"
    by code_simp
  ultimately show "(push_bit 8 0x08 OR (drop_bit 8 (sdma_ctx_offset ch) AND 0xFF)) AND 0xFFFF = word_of_int (0x800 + (0x800 + 32 * ch) div 256)"
    "push_bit 8 0x18 OR (sdma_ctx_offset ch AND 0xFF) = word_of_int (0x1800 + (0x800 + 32 * ch) mod 256)"
    unfolding list_all_iff by blast+
qed

lemma split256: "(a :: int) = 256 * q + x \<Longrightarrow> x < 256 \<Longrightarrow> 0 \<le> x \<Longrightarrow> a mod 256 = x \<and> a div 256 = q"
  by simp

lemma and_low16:
  assumes "0 \<le> z" and "z < 2 ^ 16"
  shows "(word_of_int z :: u32) AND 0xFFFF = word_of_int z"
proof -
  have "(word_of_int z :: u32) AND 0xFFFF = take_bit 16 (word_of_int z)"
    by (simp add: take_bit_eq_mask mask_eq_exp_minus_1)
  also have "\<dots> = word_of_int (take_bit 16 z)" by (simp add: take_bit_of_int [symmetric])
  also have "\<dots> = word_of_int z" using assms by (simp add: take_bit_int_eq_self)
  finally show ?thesis .
qed

lemma ctx_word_address:
  assumes "0 \<le> ch" and "ch < 32" and "i < 32" and "a = 0x800 + 32 * ch + int i"
  shows "(0x48, word_of_int (0x800 + a div 256)) = ctx_word_ops (sdma_ctx_offset ch) i ! 0"
    and "(0x48, word_of_int (0x1800 + a mod 256)) = ctx_word_ops (sdma_ctx_offset ch) i ! 4"
proof -
  let ?q = "(0x800 + 32 * ch) div 256" and ?m = "(0x800 + 32 * ch) mod 256"
  have "?m = 32 * (ch mod 8)" using mult_mod_right [of 32 "64 + ch" 8] by (simp add: mod_add_eq [symmetric, of 64])
  moreover have "ch mod 8 < 8" by simp
  ultimately have m: "?m + int i < 256" "0 \<le> ?m + int i" using assms(3) by simp_all
  have "a = 256 * ?q + (?m + int i)" using mult_div_mod_eq [of 256 "0x800 + 32 * ch"] assms(4) by simp
  then have "a mod 256 = ?m + int i" "a div 256 = ?q" using split256 m by blast+
  moreover have "word_of_int (0x1800 + ?m) + of_nat i AND 0xFFFF = (word_of_int (0x1800 + ?m + int i) :: u32)"
    using and_low16 [of "0x1800 + ?m + int i"] m by simp
  ultimately show "(0x48, word_of_int (0x800 + a div 256)) = ctx_word_ops (sdma_ctx_offset ch) i ! 0"
    "(0x48, word_of_int (0x1800 + a mod 256)) = ctx_word_ops (sdma_ctx_offset ch) i ! 4"
    unfolding ctx_word_ops_def ctx_parts [OF assms(1,2)]
    by (simp_all add: add.assoc)
qed

section \<open>Examples\<close>

definition smem_demo_env :: smem_env where
  "smem_demo_env = \<lparr>me_dma = (\<lambda>dst src n h. case (kh_block h dst, kh_block h src) of
       (Some ds, Some ss) \<Rightarrow> kh_put dst (take n ss @ drop n ds) h | _ \<Rightarrow> h), me_uninit = (\<lambda>n. []), me_once_enb = 0\<rparr>"

definition smem_demo_state :: smem_state where
  "smem_demo_state = \<lparr>sm_wbuf = Some 0, sm_rbuf = Some 1,
     sm_heap = \<lparr>kh_block = [0 \<mapsto> replicate SDMA_MEM_SIZE 0, 1 \<mapsto> replicate SDMA_MEM_SIZE 0], kh_next = 2, kh_alloc = []\<rparr>,
     sm_channel = 3, sm_channels = [3], sm_grants = [], sm_pending = None, sm_sand = 0, sm_log = [], sm_regs = [], sm_files = 1\<rparr>"

lemma smem_demo_copies: "dma_mem_copies smem_demo_env"
  by (simp add: dma_mem_copies_def smem_demo_env_def)

lemma smem_demo_bufs: "smem_bufs smem_demo_state (replicate SDMA_MEM_SIZE 0) (replicate SDMA_MEM_SIZE 0)"
  by (auto simp: smem_bufs_def smem_demo_state_def kh_ok_def)

lemma zeros_not_rand: "replicate SDMA_MEM_SIZE 0 \<noteq> rand_bytes 100 SDMA_MEM_SIZE"
proof -
  have "ucast (rand_next 100) = (96 :: u8)" by (simp add: rand_next_def)
  then have "replicate (Suc k) 0 \<noteq> rand_bytes 100 (Suc k)" for k by simp
  from this [of 1023] show ?thesis by (simp add: SDMA_MEM_SIZE_def del: replicate_Suc rand_bytes.simps)
qed

section \<open>Properties\<close>

text \<open>
  C28: on an open file, \<open>write\<close>, then a transfer that copies, then \<open>read\<close> report PASSED, for any
  earlier content of the buffers. When \<open>read\<close> comes before the transfer, for which \<open>write\<close> does not
  wait, the verdict says instead whether the receive buffer had these bytes before: PASSED is left over
  from an earlier run, and a first run is FAILED although nothing is wrong.
\<close>

theorem smem_verdict:
  assumes env: "dma_mem_copies env" and bufs: "smem_bufs s p q" and al: "can_alloc (sm_heap s)"
  shows "\<exists>s1 s2. run_calls (smem_step env) s [MWrite, MDma, MRead] = Done ([0, 0, 0], s1) \<and> sm_log s1 = sm_log s @ [True] \<and>
    run_calls (smem_step env) s [MWrite, MRead] = Done ([0, 0], s2) \<and>
    sm_log s2 = sm_log s @ [q = rand_bytes 100 SDMA_MEM_SIZE]"
proof -
  obtain s1 x where w: "smem_write env s = Done (0, s1)" "smem_bufs s1 (rand_bytes 100 SDMA_MEM_SIZE) q" "sm_pending s1 = Some x"
      "sm_log s1 = sm_log s"
    using smem_write_ok [OF bufs al, of env] by blast
  have d: "smem_bufs (smem_dma env s1) (rand_bytes 100 SDMA_MEM_SIZE) (rand_bytes 100 SDMA_MEM_SIZE)" "sm_log (smem_dma env s1) = sm_log s"
    using smem_dma_ok [OF env w(2)] w(3,4) by simp_all
  from smem_read_ok [OF d(1), of env] smem_read_ok [OF w(2), of env] w(1,4) d(2) show ?thesis by auto
qed

theorem smem_verdict_witness:
  "\<exists>s1 s2. run_calls (smem_step smem_demo_env) smem_demo_state [MWrite, MDma, MRead] = Done ([0, 0, 0], s1) \<and> sm_log s1 = [True] \<and>
    run_calls (smem_step smem_demo_env) smem_demo_state [MWrite, MRead] = Done ([0, 0], s2) \<and> sm_log s2 = [False]"
proof -
  have "can_alloc (sm_heap smem_demo_state)" "sm_log smem_demo_state = []" by (simp_all add: can_alloc_def smem_demo_state_def)
  then show ?thesis
    using smem_verdict [OF smem_demo_copies smem_demo_bufs] zeros_not_rand by (simp del: run_calls.simps)
qed

end
