(* ===== verification/Dryice_Test.thy ===== *)
theory Dryice_Test
  imports Prelude
begin

unbundle bit_operations_syntax

text \<open>
  The DryIce test module (\<^verbatim>\<open>src/module_test/dryice_test.c\<close>): named tests with numbered cases, each
  a script of calls into the DryIce driver with the return code it expects (the macro \<open>UNLESS\<close>
  returns FAIL on any other). The driver is a parameter, with a device state of any type; a completion
  callback runs while a test sleeps, so sleeping returns the callbacks that ran. A script is a list of
  steps; a step either goes on or returns from the test. Messages are not modelled. The module parameters
  \<open>test\<close> and \<open>nr\<close> are arguments. \<open>MAX_KEY_LEN\<close> and \<open>MAX_KEY_BYTES\<close> are the 256 bits and
  32 bytes the tests themselves take them for.
\<close>

section \<open>Driver interface and state\<close>

datatype di_return = DI_SUCCESS | DI_ERR_BUSY | DI_ERR_STATE | DI_ERR_INUSE | DI_ERR_UNSET | DI_ERR_WRITE
  | DI_ERR_INVAL | DI_ERR_FAIL | DI_ERR_HLOCK | DI_ERR_SLOCK | DI_ERR_NOMEM

datatype di_flag = DI_FUNC_FLAG_ASYNC | DI_FUNC_FLAG_READ_LOCK | DI_FUNC_FLAG_WRITE_LOCK | DI_FUNC_FLAG_HARD_LOCK
  | DI_FUNC_FLAG_WORD_KEY

datatype di_cb = Setp_Cb | Setr_Cb | Sel_Cb | Busy_Cb

text \<open>A key pointer: NULL, or the offset of its address from a multiple of four and the bytes there.\<close>

datatype key_ptr = Null_Key | Key nat "u8 list"

record 'd di_api =
  set_programmed_key :: "key_ptr \<Rightarrow> int \<Rightarrow> di_flag list \<Rightarrow> 'd \<Rightarrow> di_return \<times> 'd"
  get_programmed_key :: "bool \<Rightarrow> int \<Rightarrow> 'd \<Rightarrow> di_return \<times> u8 list \<times> 'd"
  release_programmed_key :: "'d \<Rightarrow> di_return \<times> 'd"
  set_random_key :: "di_flag list \<Rightarrow> 'd \<Rightarrow> di_return \<times> 'd"
  select_key :: "int \<Rightarrow> di_flag list \<Rightarrow> 'd \<Rightarrow> di_return \<times> 'd"
  release_key_selection :: "'d \<Rightarrow> di_return \<times> 'd"
  check_key :: "bool \<Rightarrow> 'd \<Rightarrow> di_return \<times> int \<times> 'd"
  get_tamper_event :: "bool \<Rightarrow> 'd \<Rightarrow> di_return \<times> u32 \<times> 'd"
  register_callback :: "di_cb option \<Rightarrow> u32 \<Rightarrow> 'd \<Rightarrow> di_return \<times> 'd"
  msleep :: "nat \<Rightarrow> 'd \<Rightarrow> (di_cb \<times> di_return \<times> u32) list \<times> 'd"
  DI_KEY_FK :: int
  DI_KEY_FRK :: int

text \<open>
  The module's variables: \<open>None\<close> is the \<open>-1\<close> of \<open>setp_callback_state\<close>. \<open>dt_key_store\<close> and
  \<open>dt_key_ret\<close> are the local arrays of the test that runs (36 and 32 bytes).
\<close>

record 'd dt_state =
  dt_dev :: 'd
  dt_rand16 :: u16
  dt_setp_state :: "di_return option"
  dt_setr_done :: int
  dt_sel_done :: int
  dt_busy_done :: int
  dt_key_store :: "u8 list"
  dt_key_ret :: "u8 list"

definition PASS :: int where "PASS = 0"
definition FAIL :: int where "FAIL = 1"
definition INVAL :: int where "INVAL = 2"

definition MAX_KEY_LEN :: int where "MAX_KEY_LEN = 256"
definition MAX_KEY_BYTES :: nat where "MAX_KEY_BYTES = 32"

section \<open>The pseudo-random generator\<close>

definition rand16_next :: "u16 \<Rightarrow> u16" where
  "rand16_next s =
     (let t1 = (if bit s 15 then 0 else 1); t2 = (if bit s 13 then 1 else 0);
          t3 = (if bit s 7 then 0 else 1); t4 = (if bit s 2 then 1 else 0)
      in push_bit 1 s OR (t1 XOR t2 XOR t3 XOR t4))"

definition rand16 :: "'d dt_state \<Rightarrow> u16 \<times> 'd dt_state" where
  "rand16 s = (rand16_next (dt_rand16 s), s\<lparr>dt_rand16 := rand16_next (dt_rand16 s)\<rparr>)"

section \<open>Scripts\<close>

type_synonym 'd tstep = "'d dt_state \<Rightarrow> int option \<times> 'd dt_state"

primrec script :: "'d tstep list \<Rightarrow> 'd tstep" where
  "script [] s = (None, s)"
| "script (f # fs) s = (case f s of (None, s') \<Rightarrow> script fs s' | (Some rc, s') \<Rightarrow> (Some rc, s'))"

type_synonym 'd dcall = "'d dt_state \<Rightarrow> di_return \<times> 'd dt_state"

definition UNLESS :: "di_return \<Rightarrow> 'd dcall \<Rightarrow> 'd tstep" where
  "UNLESS expect call s = (let (rc, s') = call s in (if rc \<noteq> expect then Some FAIL else None, s'))"

definition ignoring :: "'d dcall \<Rightarrow> 'd tstep" where
  "ignoring call s = (None, snd (call s))"

definition fail_if :: "('d dt_state \<Rightarrow> bool) \<Rightarrow> 'd tstep" where
  "fail_if bad s = (if bad s then Some FAIL else None, s)"

definition assign :: "('d dt_state \<Rightarrow> 'd dt_state) \<Rightarrow> 'd tstep" where
  "assign f s = (None, f s)"

definition ret :: "int \<Rightarrow> 'd tstep" where
  "ret rc s = (Some rc, s)"

text \<open>The value a test function returns; \<open>default\<close> is its last \<open>return\<close> statement.\<close>

definition returned :: "int \<Rightarrow> int option \<times> 'd dt_state \<Rightarrow> int \<times> 'd dt_state" where
  "returned rc r = (case r of (None, s) \<Rightarrow> (rc, s) | (Some v, s) \<Rightarrow> (v, s))"

section \<open>Driver calls on the module's state\<close>

definition on_dev :: "('d \<Rightarrow> di_return \<times> 'd) \<Rightarrow> 'd dcall" where
  "on_dev f s = (let (rc, d) = f (dt_dev s) in (rc, s\<lparr>dt_dev := d\<rparr>))"

definition setk :: "'d di_api \<Rightarrow> nat \<Rightarrow> int \<Rightarrow> di_flag list \<Rightarrow> 'd dcall" where
  "setk api off bits flags s = on_dev (set_programmed_key api (Key off (drop off (dt_key_store s))) bits flags) s"

definition setk_null :: "'d di_api \<Rightarrow> int \<Rightarrow> 'd dcall" where
  "setk_null api bits = on_dev (set_programmed_key api Null_Key bits [])"

definition getk :: "'d di_api \<Rightarrow> int \<Rightarrow> 'd dcall" where
  "getk api bits s =
     (let (rc, bs, d) = get_programmed_key api True bits (dt_dev s)
      in (rc, s\<lparr>dt_dev := d, dt_key_ret := bs @ drop (length bs) (dt_key_ret s)\<rparr>))"

definition getk_null :: "'d di_api \<Rightarrow> int \<Rightarrow> 'd dcall" where
  "getk_null api bits = on_dev (\<lambda>d. let (rc, _, d') = get_programmed_key api False bits d in (rc, d'))"

definition relk :: "'d di_api \<Rightarrow> 'd dcall" where
  "relk api = on_dev (release_programmed_key api)"

text \<open>The callbacks, in the order in which they ran during the sleep.\<close>

fun run_callback :: "di_cb \<times> di_return \<times> u32 \<Rightarrow> 'd dt_state \<Rightarrow> 'd dt_state" where
  "run_callback (Setp_Cb, rc, _) s = s\<lparr>dt_setp_state := Some rc\<rparr>"
| "run_callback (Setr_Cb, _, _) s = s\<lparr>dt_setr_done := dt_setr_done s + 1\<rparr>"
| "run_callback (Sel_Cb, _, _) s = s\<lparr>dt_sel_done := dt_sel_done s + 1\<rparr>"
| "run_callback (Busy_Cb, _, _) s = s\<lparr>dt_busy_done := dt_busy_done s + 1\<rparr>"

definition sleep :: "'d di_api \<Rightarrow> nat \<Rightarrow> 'd tstep" where
  "sleep api ms s = (let (cbs, d) = msleep api ms (dt_dev s) in (None, fold run_callback cbs (s\<lparr>dt_dev := d\<rparr>)))"

section \<open>Tests of the programmed key\<close>

definition locals :: "'d tstep" where
  "locals = assign (\<lambda>s. s\<lparr>dt_key_store := replicate 36 0, dt_key_ret := replicate MAX_KEY_BYTES 0\<rparr>)"

text \<open>The loop that fills the key at byte \<open>off\<close> of \<open>key_store\<close> with pseudo-random bytes.\<close>

primrec fill_key :: "nat \<Rightarrow> nat \<Rightarrow> nat \<Rightarrow> 'd dt_state \<Rightarrow> 'd dt_state" where
  "fill_key off r 0 s = s"
| "fill_key off r (Suc k) s =
     (let (x, s1) = rand16 s
      in fill_key off (Suc r) k (s1\<lparr>dt_key_store := (dt_key_store s1)[off + r := ucast (x AND 0xff)]\<rparr>))"

definition key_mismatch :: "nat \<Rightarrow> int \<Rightarrow> 'd dt_state \<Rightarrow> bool" where
  "key_mismatch off bits s =
     (take (nat (bits div 8)) (drop off (dt_key_store s)) \<noteq> take (nat (bits div 8)) (dt_key_ret s))"

definition key_round :: "'d di_api \<Rightarrow> nat \<Rightarrow> int \<Rightarrow> 'd tstep" where
  "key_round api off bits = script
     [assign (fill_key off 0 MAX_KEY_BYTES),
      UNLESS DI_SUCCESS (setk api off bits []),
      assign (\<lambda>s. s\<lparr>dt_key_ret := replicate MAX_KEY_BYTES 0\<rparr>),
      UNLESS DI_SUCCESS (getk api bits),
      UNLESS DI_SUCCESS (relk api),
      fail_if (key_mismatch off bits)]"

definition key_lengths :: "int list" where
  "key_lengths = map (\<lambda>k. 8 * int k) [1..<33]"

definition test_setp_0 :: "'d di_api \<Rightarrow> 'd tstep" where
  "test_setp_0 api = script (
     [locals,
      ignoring (relk api),
      UNLESS DI_SUCCESS (setk api 0 MAX_KEY_LEN []),
      UNLESS DI_ERR_INUSE (setk api 0 MAX_KEY_LEN []),
      UNLESS DI_SUCCESS (relk api),
      UNLESS DI_ERR_INVAL (setk_null api MAX_KEY_LEN),
      UNLESS DI_ERR_INVAL (setk api 0 (MAX_KEY_LEN + 8) []),
      UNLESS DI_ERR_INVAL (setk api 0 1 []),
      UNLESS DI_SUCCESS (setk api 0 0 []),
      UNLESS DI_SUCCESS (relk api),
      fail_if (\<lambda>_. (0 :: nat) mod 4 \<noteq> 0),
      assign (\<lambda>s. s\<lparr>dt_rand16 := 0x1234\<rparr>)] @
     map (key_round api 0) key_lengths @
     [fail_if (\<lambda>_. (1 :: nat) mod 4 = 0),
      assign (\<lambda>s. s\<lparr>dt_rand16 := 0x4321\<rparr>)] @
     map (key_round api 1) key_lengths @
     [ret PASS])"

definition store_words :: "u32 list \<Rightarrow> 'd dt_state \<Rightarrow> 'd dt_state" where
  "store_words ws s = s\<lparr>dt_key_store := concat (map le32 ws) @ drop (4 * length ws) (dt_key_store s)\<rparr>"

definition setp_words :: "u32 list" where
  "setp_words = [0x01020304, 0x05060708, 0x09101112, 0x13141516, 0x17181920, 0x21222324, 0x25262728, 0x29303132]"

definition bcd_mismatch :: "nat \<Rightarrow> 'd dt_state \<Rightarrow> bool" where
  "bcd_mismatch n s =
     (\<not> list_all (\<lambda>i. unat (dt_key_ret s ! i) = (i + 1) div 10 * 16 + (i + 1) mod 10) [0..<n])"

definition test_setp_1 :: "'d di_api \<Rightarrow> 'd tstep" where
  "test_setp_1 api = script
     [locals,
      ignoring (relk api),
      UNLESS DI_SUCCESS (setk api 0 MAX_KEY_LEN []),
      UNLESS DI_SUCCESS (relk api),
      assign (store_words setp_words),
      UNLESS DI_SUCCESS (setk api 0 MAX_KEY_LEN [DI_FUNC_FLAG_WORD_KEY]),
      UNLESS DI_SUCCESS (getk api MAX_KEY_LEN),
      UNLESS DI_SUCCESS (relk api),
      fail_if (bcd_mismatch MAX_KEY_BYTES),
      UNLESS DI_SUCCESS (setk api 0 32 [DI_FUNC_FLAG_WORD_KEY]),
      UNLESS DI_SUCCESS (getk api 32),
      UNLESS DI_SUCCESS (relk api),
      fail_if (bcd_mismatch 4),
      UNLESS DI_ERR_INVAL (setk api 1 32 [DI_FUNC_FLAG_WORD_KEY]),
      UNLESS DI_ERR_INVAL (setk api 1 33 [DI_FUNC_FLAG_WORD_KEY]),
      ret PASS]"

definition test_setp_2 :: "'d di_api \<Rightarrow> 'd tstep" where
  "test_setp_2 api = script
     [locals,
      ignoring (relk api),
      UNLESS DI_SUCCESS (setk api 0 MAX_KEY_LEN []),
      UNLESS DI_SUCCESS (relk api),
      assign (\<lambda>s. s\<lparr>dt_setp_state := None\<rparr>),
      UNLESS DI_SUCCESS (on_dev (register_callback api (Some Setp_Cb) 0xdead2bad)),
      UNLESS DI_SUCCESS (setk api 0 MAX_KEY_LEN [DI_FUNC_FLAG_ASYNC]),
      sleep api 10,
      fail_if (\<lambda>s. dt_setp_state s = None),
      fail_if (\<lambda>s. dt_setp_state s \<noteq> Some DI_SUCCESS),
      UNLESS DI_SUCCESS (relk api),
      UNLESS DI_SUCCESS (on_dev (register_callback api None 0)),
      ret PASS]"

text \<open>Cases 3 and 4 differ in the lock: soft, with the error of a soft lock, or hard.\<close>

definition test_setp_lock :: "'d di_api \<Rightarrow> di_flag list \<Rightarrow> di_return \<Rightarrow> 'd tstep" where
  "test_setp_lock api hard lock_err = script
     [locals,
      ignoring (relk api),
      UNLESS DI_SUCCESS (setk api 0 MAX_KEY_LEN []),
      UNLESS DI_SUCCESS (relk api),
      UNLESS DI_SUCCESS (setk api 0 MAX_KEY_LEN (DI_FUNC_FLAG_READ_LOCK # hard)),
      UNLESS lock_err (getk api MAX_KEY_LEN),
      UNLESS DI_SUCCESS (relk api),
      UNLESS DI_SUCCESS (setk api 0 MAX_KEY_LEN (DI_FUNC_FLAG_WRITE_LOCK # hard)),
      UNLESS lock_err (relk api),
      ret PASS]"

definition test_setp :: "'d di_api \<Rightarrow> int \<Rightarrow> 'd dt_state \<Rightarrow> int \<times> 'd dt_state" where
  "test_setp api nr s = returned PASS (
     (if nr = 0 then test_setp_0 api else if nr = 1 then test_setp_1 api else if nr = 2 then test_setp_2 api
      else if nr = 3 then test_setp_lock api [] DI_ERR_SLOCK
      else if nr = 4 then test_setp_lock api [DI_FUNC_FLAG_HARD_LOCK] DI_ERR_HLOCK else ret INVAL) s)"

definition test_relp :: "'d di_api \<Rightarrow> int \<Rightarrow> 'd dt_state \<Rightarrow> int \<times> 'd dt_state" where
  "test_relp api nr s = returned PASS (
     (if nr = 0 then script
        [locals,
         ignoring (relk api),
         UNLESS DI_SUCCESS (setk api 0 MAX_KEY_LEN []),
         UNLESS DI_SUCCESS (relk api),
         UNLESS DI_ERR_UNSET (relk api),
         ret PASS]
      else ret INVAL) s)"

definition test_getp :: "'d di_api \<Rightarrow> int \<Rightarrow> 'd dt_state \<Rightarrow> int \<times> 'd dt_state" where
  "test_getp api nr s = returned PASS (
     (if nr = 0 then script
        [locals,
         ignoring (relk api),
         UNLESS DI_ERR_UNSET (getk api MAX_KEY_LEN),
         UNLESS DI_SUCCESS (setk api 0 MAX_KEY_LEN []),
         UNLESS DI_SUCCESS (getk api MAX_KEY_LEN),
         UNLESS DI_ERR_INVAL (getk_null api MAX_KEY_LEN),
         UNLESS DI_ERR_INVAL (getk api (MAX_KEY_LEN + 8)),
         UNLESS DI_ERR_INVAL (getk api 1),
         UNLESS DI_SUCCESS (getk api 0),
         UNLESS DI_SUCCESS (relk api),
         ret PASS]
      else ret INVAL) s)"

section \<open>Tests of the random key and of key selection\<close>

definition sel :: "'d di_api \<Rightarrow> int \<Rightarrow> di_flag list \<Rightarrow> 'd dcall" where
  "sel api key flags = on_dev (select_key api key flags)"

definition relsel :: "'d di_api \<Rightarrow> 'd dcall" where
  "relsel api = on_dev (release_key_selection api)"

definition setr :: "'d di_api \<Rightarrow> di_flag list \<Rightarrow> 'd dcall" where
  "setr api flags = on_dev (set_random_key api flags)"

definition regcb :: "'d di_api \<Rightarrow> di_cb option \<Rightarrow> 'd dcall" where
  "regcb api cb = on_dev (register_callback api cb 0)"

definition test_setr :: "'d di_api \<Rightarrow> int \<Rightarrow> 'd dt_state \<Rightarrow> int \<times> 'd dt_state" where
  "test_setr api nr s = returned FAIL (
     (if nr = 0 then script [UNLESS DI_SUCCESS (setr api []), ret PASS]
      else if nr = 1 then ret PASS
      else if nr = 2 then script
        [assign (\<lambda>s. s\<lparr>dt_setr_done := 0\<rparr>),
         UNLESS DI_SUCCESS (regcb api (Some Setr_Cb)),
         UNLESS DI_SUCCESS (sel api (DI_KEY_FK api) [DI_FUNC_FLAG_ASYNC]),
         UNLESS DI_ERR_BUSY (setr api []),
         sleep api 2,
         fail_if (\<lambda>s. dt_setr_done s = 0),
         ret PASS]
      else if nr = 3 then script
        [assign (\<lambda>s. s\<lparr>dt_setr_done := 0\<rparr>),
         UNLESS DI_SUCCESS (regcb api (Some Setr_Cb)),
         UNLESS DI_SUCCESS (setr api [DI_FUNC_FLAG_ASYNC]),
         sleep api 2,
         fail_if (\<lambda>s. dt_setr_done s = 0),
         ret PASS]
      else if nr = 4 then script
        [UNLESS DI_SUCCESS (setr api [DI_FUNC_FLAG_WRITE_LOCK]),
         UNLESS DI_ERR_SLOCK (setr api []),
         ret PASS]
      else ret INVAL) s)"

text \<open>One iteration of the loop over key indices from -10 to 19.\<close>

definition sel_index :: "'d di_api \<Rightarrow> int \<Rightarrow> 'd tstep" where
  "sel_index api i =
     (if DI_KEY_FK api \<le> i \<and> i \<le> DI_KEY_FRK api
      then script [UNLESS DI_SUCCESS (sel api i []), UNLESS DI_SUCCESS (relsel api)]
      else UNLESS DI_ERR_INVAL (sel api i []))"

text \<open>Cases 4 and 5: selection with a soft or a hard write lock.\<close>

definition test_sel_lock :: "'d di_api \<Rightarrow> di_flag list \<Rightarrow> di_return \<Rightarrow> 'd tstep" where
  "test_sel_lock api hard lock_err = script
     [ignoring (relsel api),
      UNLESS DI_SUCCESS (sel api (DI_KEY_FK api) (DI_FUNC_FLAG_WRITE_LOCK # hard)),
      UNLESS lock_err (relsel api),
      UNLESS DI_ERR_INUSE (sel api (DI_KEY_FK api) []),
      ret PASS]"

definition test_sel :: "'d di_api \<Rightarrow> int \<Rightarrow> 'd dt_state \<Rightarrow> int \<times> 'd dt_state" where
  "test_sel api nr s = returned FAIL (
     (if nr = 0 then script
        [ignoring (relsel api),
         UNLESS DI_SUCCESS (sel api (DI_KEY_FK api) []),
         UNLESS DI_SUCCESS (relsel api),
         ret PASS]
      else if nr = 1 then script
        ([ignoring (relsel api)] @ map (sel_index api) [-10..19] @ [ret PASS])
      else if nr = 2 then script
        [ignoring (relsel api),
         assign (\<lambda>s. s\<lparr>dt_sel_done := 0\<rparr>),
         UNLESS DI_SUCCESS (regcb api (Some Sel_Cb)),
         UNLESS DI_SUCCESS (sel api (DI_KEY_FK api) [DI_FUNC_FLAG_ASYNC]),
         UNLESS DI_ERR_BUSY (sel api (DI_KEY_FK api) []),
         sleep api 2,
         fail_if (\<lambda>s. dt_sel_done s = 0),
         ret PASS]
      else if nr = 3 then script
        [ignoring (relsel api),
         assign (\<lambda>s. s\<lparr>dt_sel_done := 0\<rparr>),
         UNLESS DI_SUCCESS (regcb api (Some Sel_Cb)),
         UNLESS DI_SUCCESS (sel api (DI_KEY_FK api) [DI_FUNC_FLAG_ASYNC]),
         sleep api 2,
         fail_if (\<lambda>s. dt_sel_done s = 0),
         ret PASS]
      else if nr = 4 then test_sel_lock api [] DI_ERR_SLOCK
      else if nr = 5 then test_sel_lock api [DI_FUNC_FLAG_HARD_LOCK] DI_ERR_HLOCK
      else ret INVAL) s)"

definition test_rel :: "'d dt_state \<Rightarrow> int \<times> 'd dt_state" where
  "test_rel s = (PASS, s)"

text \<open>\<open>chk_is\<close> is the call with a key variable and the comparison of its value after a success.\<close>

definition chk_code :: "'d di_api \<Rightarrow> bool \<Rightarrow> 'd dcall" where
  "chk_code api ptr = on_dev (\<lambda>d. let (rc, _, d') = check_key api ptr d in (rc, d'))"

definition chk_is :: "'d di_api \<Rightarrow> int \<Rightarrow> 'd tstep" where
  "chk_is api key s =
     (let (rc, k, d) = check_key api True (dt_dev s)
      in (if rc \<noteq> DI_SUCCESS \<or> k \<noteq> key then Some FAIL else None, s\<lparr>dt_dev := d\<rparr>))"

definition test_chk :: "'d di_api \<Rightarrow> int \<Rightarrow> 'd dt_state \<Rightarrow> int \<times> 'd dt_state" where
  "test_chk api nr s = returned FAIL (
     (if nr = 0 then script
        [ignoring (relsel api),
         UNLESS DI_SUCCESS (sel api (DI_KEY_FK api) []),
         chk_is api (DI_KEY_FK api),
         ret PASS]
      else if nr = 1 then script [UNLESS DI_ERR_INVAL (chk_code api False), ret PASS]
      else if nr = 2 then script
        [assign (\<lambda>s. s\<lparr>dt_sel_done := 0\<rparr>),
         ignoring (relsel api),
         UNLESS DI_SUCCESS (regcb api (Some Sel_Cb)),
         UNLESS DI_SUCCESS (sel api (DI_KEY_FK api) [DI_FUNC_FLAG_ASYNC]),
         UNLESS DI_ERR_BUSY (chk_code api True),
         sleep api 2,
         fail_if (\<lambda>s. dt_sel_done s = 0),
         UNLESS DI_SUCCESS (relsel api),
         ret PASS]
      else ret INVAL) s)"

section \<open>Waiting for a tamper event\<close>

definition poll :: "'d di_api \<Rightarrow> 'd dt_state \<Rightarrow> di_return \<times> u32 \<times> 'd dt_state" where
  "poll api s = (let (rc, events, d) = get_tamper_event api True (dt_dev s) in (rc, events, s\<lparr>dt_dev := d\<rparr>))"

text \<open>The endless loop leaves by its \<open>return\<close> statements; \<open>tries++ > 10 * 100\<close> bounds it.\<close>

function tamp_loop :: "'d di_api \<Rightarrow> nat \<Rightarrow> 'd dt_state \<Rightarrow> int \<times> 'd dt_state" where
  "tamp_loop api tries s =
     (let (rc, events, s1) = poll api s
      in if rc = DI_SUCCESS then (if events = 0 then (FAIL, s1) else (PASS, s1))
         else if rc \<noteq> DI_ERR_STATE then (FAIL, s1)
         else if tries > 10 * 100 then (FAIL, s1)
         else tamp_loop api (Suc tries) (snd (sleep api 10 s1)))"
  by pat_completeness auto
termination
  by (relation "measure (\<lambda>(api, tries, s). 1002 - tries)") auto

definition test_tamp :: "'d di_api \<Rightarrow> 'd dt_state \<Rightarrow> int \<times> 'd dt_state" where
  "test_tamp api s = (let (rc, _, s1) = poll api s in if rc = DI_SUCCESS then (FAIL, s1) else tamp_loop api 0 s1)"

section \<open>All interfaces while busy, and the table of tests\<close>

definition tamper_null :: "'d di_api \<Rightarrow> 'd dcall" where
  "tamper_null api = on_dev (\<lambda>d. let (rc, _, d') = get_tamper_event api False d in (rc, d'))"

definition test_busy :: "'d di_api \<Rightarrow> int \<Rightarrow> 'd dt_state \<Rightarrow> int \<times> 'd dt_state" where
  "test_busy api nr s = returned FAIL (
     (if nr = 0 then script
        [ignoring (relsel api),
         assign (\<lambda>s. s\<lparr>dt_busy_done := 0\<rparr>),
         UNLESS DI_SUCCESS (regcb api (Some Busy_Cb)),
         UNLESS DI_SUCCESS (sel api (DI_KEY_FK api) [DI_FUNC_FLAG_ASYNC]),
         UNLESS DI_ERR_BUSY (setk_null api 0),
         UNLESS DI_ERR_BUSY (getk_null api 0),
         UNLESS DI_ERR_BUSY (relk api),
         UNLESS DI_ERR_BUSY (setr api []),
         UNLESS DI_ERR_BUSY (sel api 0 []),
         UNLESS DI_ERR_BUSY (chk_code api False),
         UNLESS DI_ERR_BUSY (relsel api),
         UNLESS DI_ERR_BUSY (tamper_null api),
         UNLESS DI_ERR_BUSY (regcb api None),
         sleep api 2,
         fail_if (\<lambda>s. dt_busy_done s = 0),
         UNLESS DI_SUCCESS (relsel api),
         ret PASS]
      else ret INVAL) s)"

definition help_list :: "'d dt_state \<Rightarrow> int \<times> 'd dt_state" where
  "help_list s = (PASS, s)"

definition tests :: "(string \<times> ('d di_api \<Rightarrow> int \<Rightarrow> 'd dt_state \<Rightarrow> int \<times> 'd dt_state)) list" where
  "tests = [(''help'', \<lambda>api nr. help_list), (''setp'', test_setp), (''relp'', test_relp), (''getp'', test_getp),
     (''setr'', test_setr), (''sel'', test_sel), (''rel'', \<lambda>api nr. test_rel), (''chk'', test_chk),
     (''tamp'', \<lambda>api nr. test_tamp api), (''busy'', test_busy)]"

definition do_test ::
    "string \<times> ('d di_api \<Rightarrow> int \<Rightarrow> 'd dt_state \<Rightarrow> int \<times> 'd dt_state) \<Rightarrow> 'd di_api \<Rightarrow> int \<Rightarrow> 'd dt_state \<Rightarrow> int \<times> 'd dt_state" where
  "do_test tp api nr s = snd tp api nr s"

fun init_loop ::
    "(string \<times> ('d di_api \<Rightarrow> int \<Rightarrow> 'd dt_state \<Rightarrow> int \<times> 'd dt_state)) list \<Rightarrow> 'd di_api \<Rightarrow> string \<Rightarrow> int \<Rightarrow> 'd dt_state \<Rightarrow>
     int \<times> 'd dt_state" where
  "init_loop [] api test nr s = (- EINVAL, snd (help_list s))"
| "init_loop (tp # tps) api test nr s =
     (if test = fst tp then (let (rc, s') = do_test tp api nr s in (- rc, s')) else init_loop tps api test nr s)"

definition dryice_test_init :: "'d di_api \<Rightarrow> string \<Rightarrow> int \<Rightarrow> 'd dt_state \<Rightarrow> int \<times> 'd dt_state" where
  "dryice_test_init api test nr s = init_loop tests api test nr s"

section \<open>The generator\<close>

lemma bit_shift1: "bit (push_bit 1 (s :: u16)) n \<longleftrightarrow> 0 < n \<and> n < 16 \<and> bit s (n - 1)"
  unfolding bit_push_bit_iff by auto

lemma bit_rand16_next:
  "bit (rand16_next s) n \<longleftrightarrow> (if n = 0 then (bit s 15 \<noteq> bit s 13) \<noteq> (bit s 7 \<noteq> bit s 2) else n < 16 \<and> bit s (n - 1))"
  unfolding rand16_next_def Let_def bit_or_iff bit_shift1
  by (cases "bit s 15"; cases "bit s 13"; cases "bit s 7"; cases "bit s 2") (simp_all add: bit_1_iff)

lemma rand16_inj: "rand16_next s = rand16_next t \<Longrightarrow> s = t"
proof -
  assume eq: "rand16_next s = rand16_next t"
  have low: "bit s n = bit t n" if "n < 15" for n
    using arg_cong [OF eq, of "\<lambda>x. bit x (Suc n)"] that by (simp add: bit_rand16_next)
  moreover have "bit s 15 = bit t 15"
    using arg_cong [OF eq, of "\<lambda>x. bit x 0"] low [of 13] low [of 7] low [of 2] by (auto simp: bit_rand16_next)
  ultimately have "bit s n = bit t n" if "n < 16" for n using that by (cases "n = 15") simp_all
  then show "s = t" by (simp add: bit_eq_iff)
qed

text \<open>As the comment promises, the generator returns 0 only if it was seeded with 0.\<close>

lemma rand16_zero: "rand16_next s = 0 \<longleftrightarrow> s = 0"
proof -
  have "rand16_next 0 = 0" by (simp add: rand16_next_def)
  then show ?thesis using rand16_inj [of s 0] by auto
qed

section \<open>Scripts that pass\<close>

text \<open>The script returns PASS in a state with \<open>Q\<close>; \<open>test_ok\<close> says so of what a test returns.\<close>

definition pass :: "('d dt_state \<Rightarrow> bool) \<Rightarrow> 'd tstep list \<Rightarrow> 'd dt_state \<Rightarrow> bool" where
  "pass Q fs s \<longleftrightarrow> fst (script fs s) = Some PASS \<and> Q (snd (script fs s))"

definition test_ok :: "('d dt_state \<Rightarrow> bool) \<Rightarrow> int \<times> 'd dt_state \<Rightarrow> bool" where
  "test_ok Q r \<longleftrightarrow> fst r = PASS \<and> Q (snd r)"

lemma script_append: "script (xs @ ys) s = (case script xs s of (None, s') \<Rightarrow> script ys s' | r \<Rightarrow> r)"
  by (induction xs arbitrary: s) (auto split: prod.splits option.splits)

lemma pass_nested: "pass Q (script xs # fs) s = pass Q (xs @ fs) s"
  by (auto simp: pass_def script_append split: prod.splits option.splits)

lemma pass_ret: "pass Q (ret PASS # fs) s = Q s"
  by (simp add: pass_def ret_def)

lemma pass_assign: "pass Q (assign f # fs) s = pass Q fs (f s)"
  by (simp add: pass_def assign_def)

lemma pass_ignoring: "pass Q (ignoring call # fs) s = pass Q fs (snd (call s))"
  by (simp add: pass_def ignoring_def)

lemma pass_fail_if: "pass Q (fail_if bad # fs) s \<longleftrightarrow> \<not> bad s \<and> pass Q fs s"
  by (simp add: pass_def fail_if_def PASS_def FAIL_def)

lemma pass_UNLESS: "pass Q (UNLESS e call # fs) s \<longleftrightarrow> fst (call s) = e \<and> pass Q fs (snd (call s))"
  by (auto simp: pass_def UNLESS_def PASS_def FAIL_def split: prod.splits)

section \<open>A driver with a programmed key and its locks\<close>

text \<open>
  What the sources expect of the driver's return codes, over a view of the device: the programmed key, if
  any, and the soft or hard locks on reading and on writing it. A key is set once, until it is released;
  its length is a multiple of 8 bits up to 256; bad arguments are reported as such; what was set is what
  is read back, a word key from the most significant byte of each word. With a read lock the key cannot be
  read but it can be released; with a write lock it can neither be set nor released. \<open>V d\<close> is \<open>None\<close>
  while an asynchronous operation runs; nothing is said of calls in such a state (\<open>DI_ERR_BUSY\<close>), nor
  of those that start one. It is left open whether a read lock goes away with its key.
\<close>

datatype key_lock = Soft | Hard

record key_view =
  kv_key :: "u8 list option"
  kv_rlock :: "key_lock option"
  kv_wlock :: "key_lock option"

fun lock_err :: "key_lock \<Rightarrow> di_return" where
  "lock_err Soft = DI_ERR_SLOCK"
| "lock_err Hard = DI_ERR_HLOCK"

definition lock_of :: "di_flag \<Rightarrow> di_flag list \<Rightarrow> key_lock option" where
  "lock_of which flags = (if which \<in> set flags then Some (if DI_FUNC_FLAG_HARD_LOCK \<in> set flags then Hard else Soft) else None)"

definition bits_ok :: "int \<Rightarrow> bool" where
  "bits_ok bits \<longleftrightarrow> 0 \<le> bits \<and> bits \<le> 256 \<and> 8 dvd bits"

fun word_bytes :: "u8 list \<Rightarrow> u8 list" where
  "word_bytes (a # b # c # d # xs) = d # c # b # a # word_bytes xs"
| "word_bytes xs = xs"

definition key_prefix :: "int \<Rightarrow> u8 list \<Rightarrow> u8 list" where
  "key_prefix bits bs = take (nat (bits div 8)) bs"

fun bad_args :: "key_ptr \<Rightarrow> int \<Rightarrow> di_flag list \<Rightarrow> bool" where
  "bad_args Null_Key bits flags = True"
| "bad_args (Key off bs) bits flags \<longleftrightarrow> \<not> bits_ok bits \<or> DI_FUNC_FLAG_WORD_KEY \<in> set flags \<and> off mod 4 \<noteq> 0"

fun given_key :: "key_ptr \<Rightarrow> int \<Rightarrow> di_flag list \<Rightarrow> u8 list" where
  "given_key Null_Key bits flags = []"
| "given_key (Key off bs) bits flags =
     (if DI_FUNC_FLAG_WORD_KEY \<in> set flags then word_bytes (key_prefix bits bs) else key_prefix bits bs)"

text \<open>The memory behind the pointer holds the key, and a word key consists of whole words.\<close>

fun memory_ok :: "key_ptr \<Rightarrow> int \<Rightarrow> di_flag list \<Rightarrow> bool" where
  "memory_ok Null_Key bits flags = True"
| "memory_ok (Key off bs) bits flags \<longleftrightarrow>
     bits_ok bits \<longrightarrow> bits \<le> 8 * int (length bs) \<and> (DI_FUNC_FLAG_WORD_KEY \<in> set flags \<longrightarrow> 32 dvd bits)"

definition set_spec :: "key_view \<Rightarrow> key_ptr \<Rightarrow> int \<Rightarrow> di_flag list \<Rightarrow> di_return \<Rightarrow> key_view \<Rightarrow> bool" where
  "set_spec v p bits flags rc v' \<longleftrightarrow>
     (if kv_wlock v \<noteq> None then rc \<noteq> DI_SUCCESS \<and> v' = v
      else if bad_args p bits flags then rc \<noteq> DI_SUCCESS \<and> (kv_key v = None \<longrightarrow> rc = DI_ERR_INVAL) \<and> v' = v
      else if kv_key v \<noteq> None then rc = DI_ERR_INUSE \<and> v' = v
      else rc = DI_SUCCESS \<and> kv_key v' = Some (given_key p bits flags) \<and>
        kv_wlock v' = lock_of DI_FUNC_FLAG_WRITE_LOCK flags \<and>
        (kv_rlock v = None \<longrightarrow> kv_rlock v' = lock_of DI_FUNC_FLAG_READ_LOCK flags))"

definition get_spec :: "key_view \<Rightarrow> bool \<Rightarrow> int \<Rightarrow> di_return \<Rightarrow> u8 list \<Rightarrow> bool" where
  "get_spec v p bits rc bs \<longleftrightarrow>
     (if \<not> p \<or> \<not> bits_ok bits then rc \<noteq> DI_SUCCESS \<and> (kv_key v \<noteq> None \<and> kv_rlock v = None \<longrightarrow> rc = DI_ERR_INVAL)
      else (case (kv_key v, kv_rlock v) of
         (None, None) \<Rightarrow> rc = DI_ERR_UNSET
       | (None, Some l) \<Rightarrow> rc \<noteq> DI_SUCCESS
       | (Some k, Some l) \<Rightarrow> rc = lock_err l
       | (Some k, None) \<Rightarrow> bits \<le> 8 * int (length k) \<longrightarrow> rc = DI_SUCCESS \<and> bs = key_prefix bits k))"

definition release_spec :: "key_view \<Rightarrow> di_return \<Rightarrow> key_view \<Rightarrow> bool" where
  "release_spec v rc v' \<longleftrightarrow>
     (case (kv_wlock v, kv_key v) of
        (Some l, _) \<Rightarrow> rc = lock_err l \<and> v' = v
      | (None, None) \<Rightarrow> rc = DI_ERR_UNSET \<and> v' = v
      | (None, Some k) \<Rightarrow> rc = DI_SUCCESS \<and> kv_key v' = None \<and> kv_wlock v' = None \<and> (kv_rlock v = None \<longrightarrow> kv_rlock v' = None))"

definition keys_contract :: "'d di_api \<Rightarrow> ('d \<Rightarrow> key_view option) \<Rightarrow> bool" where
  "keys_contract api V \<longleftrightarrow>
     (\<forall>d v p bits flags. V d = Some v \<and> DI_FUNC_FLAG_ASYNC \<notin> set flags \<and> memory_ok p bits flags \<longrightarrow>
        (\<exists>rc d' v'. set_programmed_key api p bits flags d = (rc, d') \<and> V d' = Some v' \<and> set_spec v p bits flags rc v')) \<and>
     (\<forall>d v p bits. V d = Some v \<longrightarrow>
        (\<exists>rc bs d'. get_programmed_key api p bits d = (rc, bs, d') \<and> V d' = Some v \<and> get_spec v p bits rc bs)) \<and>
     (\<forall>d v. V d = Some v \<longrightarrow>
        (\<exists>rc d' v'. release_programmed_key api d = (rc, d') \<and> V d' = Some v' \<and> release_spec v rc v'))"

lemma contract_calls:
  assumes "keys_contract api V" and "V d = Some v"
  shows "DI_FUNC_FLAG_ASYNC \<notin> set flags \<Longrightarrow> memory_ok p bits flags \<Longrightarrow>
      \<exists>rc d' v'. set_programmed_key api p bits flags d = (rc, d') \<and> V d' = Some v' \<and> set_spec v p bits flags rc v'"
    and "\<exists>rc bs d'. get_programmed_key api q bits d = (rc, bs, d') \<and> V d' = Some v \<and> get_spec v q bits rc bs"
    and "\<exists>rc d' v'. release_programmed_key api d = (rc, d') \<and> V d' = Some v' \<and> release_spec v rc v'"
  using assms unfolding keys_contract_def by blast+

text \<open>An idle device without locks, and the state of a script on it: the key and the two arrays.\<close>

definition unlocked :: "u8 list option \<Rightarrow> key_view" where
  "unlocked k = \<lparr>kv_key = k, kv_rlock = None, kv_wlock = None\<rparr>"

lemma unlocked_sel [simp]: "kv_key (unlocked k) = k" "kv_rlock (unlocked k) = None" "kv_wlock (unlocked k) = None"
  by (simp_all add: unlocked_def)

lemma unlockedI: "kv_key v = k \<Longrightarrow> kv_rlock v = None \<Longrightarrow> kv_wlock v = None \<Longrightarrow> v = unlocked k"
  by (simp add: unlocked_def)

definition holds :: "('d \<Rightarrow> key_view option) \<Rightarrow> u8 list option \<Rightarrow> u8 list \<Rightarrow> u8 list \<Rightarrow> 'd dt_state \<Rightarrow> bool" where
  "holds V k ks kr s \<longleftrightarrow> V (dt_dev s) = Some (unlocked k) \<and> dt_key_store s = ks \<and> dt_key_ret s = kr"

lemma contract_set:
  assumes con: "keys_contract api V" and v: "V d = Some (unlocked k)"
    and flags: "set flags \<subseteq> {DI_FUNC_FLAG_WORD_KEY}" and mem: "memory_ok p bits flags"
  shows "k = None \<Longrightarrow> \<not> bad_args p bits flags \<Longrightarrow>
      \<exists>d'. set_programmed_key api p bits flags d = (DI_SUCCESS, d') \<and> V d' = Some (unlocked (Some (given_key p bits flags)))"
    and "k \<noteq> None \<Longrightarrow> \<not> bad_args p bits flags \<Longrightarrow>
      \<exists>d'. set_programmed_key api p bits flags d = (DI_ERR_INUSE, d') \<and> V d' = Some (unlocked k)"
    and "k = None \<Longrightarrow> bad_args p bits flags \<Longrightarrow>
      \<exists>d'. set_programmed_key api p bits flags d = (DI_ERR_INVAL, d') \<and> V d' = Some (unlocked k)"
proof -
  have "DI_FUNC_FLAG_ASYNC \<notin> set flags" and no: "lock_of DI_FUNC_FLAG_WRITE_LOCK flags = None" "lock_of DI_FUNC_FLAG_READ_LOCK flags = None"
    using flags by (auto simp: lock_of_def)
  then obtain rc d' v' where "set_programmed_key api p bits flags d = (rc, d')" "V d' = Some v'" "set_spec (unlocked k) p bits flags rc v'"
    using contract_calls(1) [OF con v _ mem] by blast
  then show "k = None \<Longrightarrow> \<not> bad_args p bits flags \<Longrightarrow>
      \<exists>d'. set_programmed_key api p bits flags d = (DI_SUCCESS, d') \<and> V d' = Some (unlocked (Some (given_key p bits flags)))"
    "k \<noteq> None \<Longrightarrow> \<not> bad_args p bits flags \<Longrightarrow>
      \<exists>d'. set_programmed_key api p bits flags d = (DI_ERR_INUSE, d') \<and> V d' = Some (unlocked k)"
    "k = None \<Longrightarrow> bad_args p bits flags \<Longrightarrow>
      \<exists>d'. set_programmed_key api p bits flags d = (DI_ERR_INVAL, d') \<and> V d' = Some (unlocked k)"
    using no by (auto simp: set_spec_def intro: unlockedI)
qed

lemma contract_get:
  assumes "keys_contract api V" and "V d = Some (unlocked k)"
  shows "k = Some b \<Longrightarrow> bits_ok bits \<Longrightarrow> bits \<le> 8 * int (length b) \<Longrightarrow>
      \<exists>d'. get_programmed_key api True bits d = (DI_SUCCESS, key_prefix bits b, d') \<and> V d' = Some (unlocked k)"
    and "k \<noteq> None \<Longrightarrow> \<not> p \<or> \<not> bits_ok bits \<Longrightarrow> \<exists>bs d'. get_programmed_key api p bits d = (DI_ERR_INVAL, bs, d') \<and> V d' = Some (unlocked k)"
    and "k = None \<Longrightarrow> bits_ok bits \<Longrightarrow> \<exists>bs d'. get_programmed_key api True bits d = (DI_ERR_UNSET, bs, d') \<and> V d' = Some (unlocked k)"
  using contract_calls(2) [OF assms, of True bits] contract_calls(2) [OF assms, of p bits] by (auto simp: get_spec_def)

lemma contract_release:
  assumes "keys_contract api V" and "V d = Some (unlocked k)"
  shows "\<exists>d'. release_programmed_key api d = (if k = None then DI_ERR_UNSET else DI_SUCCESS, d') \<and> V d' = Some (unlocked None)"
  using contract_calls(3) [OF assms] by (cases k) (auto simp: release_spec_def intro: unlockedI)

text \<open>One rule per kind of call; each hands the state on to the rest of the script.\<close>

lemma pass_setk:
  assumes st: "holds V k ks kr s"
    and call: "\<exists>d'. set_programmed_key api (Key off (drop off ks)) bits flags (dt_dev s) = (e, d') \<and> V d' = Some (unlocked k')"
    and rest: "\<And>s'. holds V k' ks kr s' \<Longrightarrow> pass Q fs s'"
  shows "pass Q (UNLESS e (setk api off bits flags) # fs) s"
  using call st rest by (auto simp: pass_UNLESS setk_def on_dev_def holds_def)

lemma pass_on_dev:
  assumes st: "holds V k ks kr s" and call: "\<exists>d'. f (dt_dev s) = (e, d') \<and> V d' = Some (unlocked k')"
    and rest: "\<And>s'. holds V k' ks kr s' \<Longrightarrow> pass Q fs s'"
  shows "pass Q (UNLESS e (on_dev f) # fs) s"
  using call st rest by (auto simp: pass_UNLESS on_dev_def holds_def)

lemma holds_key: "holds V k ks kr s \<Longrightarrow> V (dt_dev s) = Some (unlocked k)"
  by (simp add: holds_def)

lemma pass_set:
  assumes con: "keys_contract api V" and st: "holds V None ks kr s" and bits: "bits_ok bits" "bits \<le> 8 * int (length (drop off ks))"
    and rest: "\<And>s'. holds V (Some (key_prefix bits (drop off ks))) ks kr s' \<Longrightarrow> pass Q fs s'"
  shows "pass Q (UNLESS DI_SUCCESS (setk api off bits []) # fs) s"
  using contract_set(1) [OF con holds_key [OF st], of "[]" "Key off (drop off ks)" bits] bits
  by (intro pass_setk [OF st _ rest]) simp_all

lemma pass_set_word:
  assumes con: "keys_contract api V" and st: "holds V None ks kr s" and bits: "bits_ok bits" "bits \<le> 8 * int (length ks)" "32 dvd bits"
    and rest: "\<And>s'. holds V (Some (word_bytes (key_prefix bits ks))) ks kr s' \<Longrightarrow> pass Q fs s'"
  shows "pass Q (UNLESS DI_SUCCESS (setk api 0 bits [DI_FUNC_FLAG_WORD_KEY]) # fs) s"
  using contract_set(1) [OF con holds_key [OF st], of "[DI_FUNC_FLAG_WORD_KEY]" "Key 0 ks" bits] bits
  by (intro pass_setk [OF st _ rest]) simp_all

lemma pass_set_inuse:
  assumes con: "keys_contract api V" and st: "holds V (Some k) ks kr s" and bits: "bits_ok bits" "bits \<le> 8 * int (length (drop off ks))"
    and rest: "\<And>s'. holds V (Some k) ks kr s' \<Longrightarrow> pass Q fs s'"
  shows "pass Q (UNLESS DI_ERR_INUSE (setk api off bits []) # fs) s"
  using contract_set(2) [OF con holds_key [OF st], of "[]" "Key off (drop off ks)" bits] bits
  by (intro pass_setk [OF st _ rest]) simp_all

lemma pass_set_inval:
  assumes con: "keys_contract api V" and st: "holds V None ks kr s" and rest: "\<And>s'. holds V None ks kr s' \<Longrightarrow> pass Q fs s'"
  shows "\<not> bits_ok bits \<Longrightarrow> pass Q (UNLESS DI_ERR_INVAL (setk api off bits []) # fs) s"
    and "off mod 4 \<noteq> 0 \<Longrightarrow> bits_ok bits \<longrightarrow> bits \<le> 8 * int (length (drop off ks)) \<and> 32 dvd bits \<Longrightarrow>
      pass Q (UNLESS DI_ERR_INVAL (setk api off bits [DI_FUNC_FLAG_WORD_KEY]) # fs) s"
    and "pass Q (UNLESS DI_ERR_INVAL (setk_null api bits) # fs) s"
proof -
  note inval = contract_set(3) [OF con holds_key [OF st]]
  show "pass Q (UNLESS DI_ERR_INVAL (setk api off bits []) # fs) s" if "\<not> bits_ok bits"
    using inval [of "[]" "Key off (drop off ks)" bits] that by (intro pass_setk [OF st _ rest]) simp_all
  show "pass Q (UNLESS DI_ERR_INVAL (setk api off bits [DI_FUNC_FLAG_WORD_KEY]) # fs) s"
    if "off mod 4 \<noteq> 0" "bits_ok bits \<longrightarrow> bits \<le> 8 * int (length (drop off ks)) \<and> 32 dvd bits"
    using inval [of "[DI_FUNC_FLAG_WORD_KEY]" "Key off (drop off ks)" bits] that by (intro pass_setk [OF st _ rest]) simp_all
  show "pass Q (UNLESS DI_ERR_INVAL (setk_null api bits) # fs) s"
    unfolding setk_null_def using inval [of "[]" Null_Key bits] by (intro pass_on_dev [OF st _ rest]) simp_all
qed

lemma pass_get:
  assumes con: "keys_contract api V" and st: "holds V (Some k) ks kr s" and bits: "bits_ok bits" "bits \<le> 8 * int (length k)"
    and rest: "\<And>s'. holds V (Some k) ks (key_prefix bits k @ drop (length (key_prefix bits k)) kr) s' \<Longrightarrow> pass Q fs s'"
  shows "pass Q (UNLESS DI_SUCCESS (getk api bits) # fs) s"
  using contract_get(1) [OF con holds_key [OF st] refl bits] st rest by (auto simp: pass_UNLESS getk_def holds_def)

lemma pass_get_unset:
  assumes con: "keys_contract api V" and st: "holds V None ks kr s" and bits: "bits_ok bits"
    and rest: "\<And>kr' s'. holds V None ks kr' s' \<Longrightarrow> pass Q fs s'"
  shows "pass Q (UNLESS DI_ERR_UNSET (getk api bits) # fs) s"
  using contract_get(3) [OF con holds_key [OF st] refl bits] st rest by (auto simp: pass_UNLESS getk_def holds_def)

lemma pass_get_inval:
  assumes con: "keys_contract api V" and st: "holds V (Some k) ks kr s" and rest: "\<And>kr' s'. holds V (Some k) ks kr' s' \<Longrightarrow> pass Q fs s'"
  shows "\<not> bits_ok bits \<Longrightarrow> pass Q (UNLESS DI_ERR_INVAL (getk api bits) # fs) s"
    and "pass Q (UNLESS DI_ERR_INVAL (getk_null api bits) # fs) s"
  using contract_get(2) [OF con holds_key [OF st], of True bits] contract_get(2) [OF con holds_key [OF st], of False bits] st rest
  by (auto simp: pass_UNLESS getk_def getk_null_def on_dev_def holds_def)

lemma pass_rel:
  assumes con: "keys_contract api V" and st: "holds V k ks kr s" and rest: "\<And>s'. holds V None ks kr s' \<Longrightarrow> pass Q fs s'"
  shows "k \<noteq> None \<Longrightarrow> pass Q (UNLESS DI_SUCCESS (relk api) # fs) s"
    and "k = None \<Longrightarrow> pass Q (UNLESS DI_ERR_UNSET (relk api) # fs) s"
  unfolding relk_def
  using contract_release [OF con holds_key [OF st]] by (auto intro: pass_on_dev [OF st _ rest])

lemma pass_ignore_rel:
  assumes con: "keys_contract api V" and st: "holds V k ks kr s" and rest: "\<And>s'. holds V None ks kr s' \<Longrightarrow> pass Q fs s'"
  shows "pass Q (ignoring (relk api) # fs) s"
  using contract_release [OF con holds_key [OF st]] st rest
  by (auto simp: pass_ignoring relk_def on_dev_def holds_def split: if_splits)

lemma pass_locals:
  assumes "V (dt_dev s) = Some (unlocked k)" and "\<And>s'. holds V k (replicate 36 0) (replicate 32 0) s' \<Longrightarrow> pass Q fs s'"
  shows "pass Q (locals # fs) s"
  using assms by (simp add: locals_def pass_assign holds_def MAX_KEY_BYTES_def)

text \<open>The end of a test: an idle device without key and locks.\<close>

definition clean :: "('d \<Rightarrow> key_view option) \<Rightarrow> 'd dt_state \<Rightarrow> bool" where
  "clean V s \<longleftrightarrow> V (dt_dev s) = Some (unlocked None)"

lemma pass_done: "holds V None ks kr s \<Longrightarrow> pass (clean V) (ret PASS # fs) s"
  by (simp add: pass_ret clean_def holds_def)

lemma fill_key_sel [simp]:
  "dt_dev (fill_key off r k s) = dt_dev s" "dt_key_ret (fill_key off r k s) = dt_key_ret s"
  "length (dt_key_store (fill_key off r k s)) = length (dt_key_store s)"
  by (induction k arbitrary: r s) (simp_all add: rand16_def)

lemma key_lengths_ok: "bits \<in> set key_lengths \<Longrightarrow> bits_ok bits \<and> bits \<le> 256"
  by (auto simp: key_lengths_def bits_ok_def)

lemma key_prefix_idem [simp]: "key_prefix bits (key_prefix bits bs) = key_prefix bits bs"
  by (simp add: key_prefix_def)

lemma pass_round:
  assumes con: "keys_contract api V" and st: "holds V None ks kr s" and len: "length ks = 36" "off \<le> 4" and bits: "bits \<in> set key_lengths"
    and rest: "\<And>ks' kr' s'. holds V None ks' kr' s' \<Longrightarrow> length ks' = 36 \<Longrightarrow> pass Q fs s'"
  shows "pass Q (key_round api off bits # fs) s"
proof -
  define ks' where "ks' = dt_key_store (fill_key off 0 MAX_KEY_BYTES s)"
  have ks': "length ks' = 36" using st len by (simp add: ks'_def holds_def)
  have ok: "bits_ok bits" "bits \<le> 8 * int (length (drop off ks'))" using key_lengths_ok [OF bits] ks' len(2) by simp_all
  define got where "got = key_prefix bits (drop off ks')"
  have n: "nat (bits div 8) \<le> length (drop off ks')" using ok by (simp add: nat_le_iff bits_ok_def)
  then have lg: "length got = nat (bits div 8)" by (simp add: got_def key_prefix_def)
  have 8: "bits = 8 * int (length got)" using ok(1) by (auto simp: lg bits_ok_def)
  have fill: "holds V None ks' kr (fill_key off 0 MAX_KEY_BYTES s)" using st by (simp add: holds_def ks'_def)
  show ?thesis
    unfolding key_round_def pass_nested append.simps pass_assign
  proof (rule pass_set [OF con fill ok])
    fix s1
    assume "holds V (Some (key_prefix bits (drop off ks'))) ks' kr s1"
    then have s1: "holds V (Some got) ks' (replicate MAX_KEY_BYTES 0) (s1\<lparr>dt_key_ret := replicate MAX_KEY_BYTES 0\<rparr>)"
      by (simp add: holds_def got_def)
    show "pass Q (assign (\<lambda>s. s\<lparr>dt_key_ret := replicate MAX_KEY_BYTES 0\<rparr>) # UNLESS DI_SUCCESS (getk api bits) #
        UNLESS DI_SUCCESS (relk api) # fail_if (key_mismatch off bits) # fs) s1"
      unfolding pass_assign
    proof (rule pass_get [OF con s1 ok(1)])
      show "bits \<le> 8 * int (length got)" using 8 by simp
      fix s2
      assume s2: "holds V (Some got) ks' (key_prefix bits got @ drop (length (key_prefix bits got)) (replicate MAX_KEY_BYTES 0)) s2"
      show "pass Q (UNLESS DI_SUCCESS (relk api) # fail_if (key_mismatch off bits) # fs) s2"
      proof (rule pass_rel(1) [OF con s2])
        fix s3
        assume s3: "holds V None ks' (key_prefix bits got @ drop (length (key_prefix bits got)) (replicate MAX_KEY_BYTES 0)) s3"
        have "key_prefix bits got = got" by (simp add: got_def)
        then have "\<not> key_mismatch off bits s3"
          using s3 lg by (simp add: key_mismatch_def holds_def flip: key_prefix_def) (simp add: got_def)
        then show "pass Q (fail_if (key_mismatch off bits) # fs) s3" using rest [OF s3 ks'] by (simp add: pass_fail_if)
      qed simp
    qed
  qed
qed

lemma pass_rounds:
  assumes con: "keys_contract api V" and st: "holds V None ks kr s" and len: "length ks = 36" "off \<le> 4" and bits: "set bl \<subseteq> set key_lengths"
    and rest: "\<And>ks' kr' s'. holds V None ks' kr' s' \<Longrightarrow> length ks' = 36 \<Longrightarrow> pass Q fs s'"
  shows "pass Q (map (key_round api off) bl @ fs) s"
  using st len(1) bits
proof (induction bl arbitrary: ks kr s)
  case Nil
  then show ?case using rest by simp
next
  case (Cons b bl)
  show ?case unfolding list.map append.simps
    by (rule pass_round [OF con Cons.prems(1,2) len(2)]) (use Cons in auto)
qed

section \<open>The key tests on such a driver\<close>

lemma returned_pass: "pass Q fs s \<Longrightarrow> test_ok Q (returned rc (script fs s))"
  by (cases "script fs s") (auto simp: pass_def test_ok_def returned_def)

lemma bits_ok_consts [simp]:
  "bits_ok 256" "bits_ok 32" "bits_ok 0" "\<not> bits_ok 264" "\<not> bits_ok 1" "\<not> bits_ok 33"
  by (simp_all add: bits_ok_def)

lemmas pass_calls = pass_ignore_rel pass_set pass_set_word pass_set_inuse pass_set_inval pass_get pass_get_unset pass_get_inval pass_rel

lemma test_relp_passes:
  assumes con: "keys_contract api V" and st: "V (dt_dev s) = Some (unlocked k)"
  shows "test_ok (clean V) (test_relp api 0 s)"
  unfolding test_relp_def MAX_KEY_LEN_def if_P [OF refl]
  by (rule returned_pass, rule pass_locals [where V = V, OF st])
    (erule pass_calls [OF con] | erule pass_done | (simp; fail))+

lemma test_getp_passes:
  assumes con: "keys_contract api V" and st: "V (dt_dev s) = Some (unlocked k)"
  shows "test_ok (clean V) (test_getp api 0 s)"
  unfolding test_getp_def MAX_KEY_LEN_def if_P [OF refl]
  by (rule returned_pass, rule pass_locals [where V = V, OF st])
    (erule pass_calls [OF con] | erule pass_done | (simp add: key_prefix_def; fail))+

lemma pass_seed:
  assumes "holds V k ks kr s" and "\<And>s'. holds V k ks kr s' \<Longrightarrow> pass Q fs s'"
  shows "pass Q (assign (\<lambda>s. s\<lparr>dt_rand16 := v\<rparr>) # fs) s"
  using assms by (simp add: pass_assign holds_def)

lemma pass_constant: "\<not> b \<Longrightarrow> pass Q fs s \<Longrightarrow> pass Q (fail_if (\<lambda>_. b) # fs) s"
  by (simp add: pass_fail_if)

text \<open>The two rounds over all key lengths, at an aligned and at an unaligned address.\<close>

lemma pass_all_rounds:
  fixes s :: "'d dt_state"
  assumes con: "keys_contract api V" and st: "holds V None ks kr s" "length ks = 36"
  shows "pass (clean V) (assign (\<lambda>s. s\<lparr>dt_rand16 := 0x1234\<rparr>) # map (key_round api 0) key_lengths @
    fail_if (\<lambda>_. (1 :: nat) mod 4 = 0) # assign (\<lambda>s. s\<lparr>dt_rand16 := 0x4321\<rparr>) #
    map (key_round api 1) key_lengths @ [ret PASS]) s"
proof (rule pass_seed [OF st(1)], rule pass_rounds [OF con _ st(2)], assumption)
  fix ks' kr' s'
  assume s': "holds V None ks' kr' s'" and len: "length ks' = 36"
  show "pass (clean V) (fail_if (\<lambda>_. (1 :: nat) mod 4 = 0) # assign (\<lambda>s. s\<lparr>dt_rand16 := 0x4321\<rparr>) # map (key_round api 1) key_lengths @ [ret PASS]) s'"
    by (rule pass_constant, simp, rule pass_seed [OF s'], rule pass_rounds [OF con _ len], assumption) (simp_all add: pass_done)
qed simp_all

lemma test_setp_0_passes:
  assumes con: "keys_contract api V" and st: "V (dt_dev s) = Some (unlocked k)"
  shows "test_ok (clean V) (test_setp api 0 s)"
  unfolding test_setp_def if_P [OF refl] test_setp_0_def MAX_KEY_LEN_def
  by (rule returned_pass, unfold append.simps, rule pass_locals [where V = V, OF st])
    (erule pass_calls [OF con] | (rule pass_constant, simp) | erule pass_all_rounds [OF con] | (simp; fail))+

text \<open>The digits in the words are those the loop computes for the bytes read back.\<close>

definition bcd_key :: "u8 list" where
  "bcd_key = map (\<lambda>i. of_nat ((i + 1) div 10 * 16 + (i + 1) mod 10)) [0..<32]"

definition word_store :: "u8 list" where
  "word_store = concat (map le32 setp_words) @ replicate 4 0"

lemma word_store_facts:
  "length word_store = 36" "word_bytes (key_prefix 256 word_store) = bcd_key" "word_bytes (key_prefix 32 word_store) = take 4 bcd_key"
  "key_prefix 256 bcd_key = bcd_key" "key_prefix 32 (take 4 bcd_key) = take 4 bcd_key" "length bcd_key = 32"
  by (simp_all add: word_store_def setp_words_def le32_def key_prefix_def bcd_key_def upt_conv_Cons)

lemma bcd_key_digits: "list_all (\<lambda>i. unat (bcd_key ! i) = (i + 1) div 10 * 16 + (i + 1) mod 10) [0..<32]"
  by (simp add: bcd_key_def upt_conv_Cons)

lemma pass_setp_words:
  assumes "holds V k (replicate 36 0) kr s" and "\<And>s'. holds V k word_store kr s' \<Longrightarrow> pass Q fs s'"
  shows "pass Q (assign (store_words setp_words) # fs) s"
  using assms by (simp add: pass_assign store_words_def holds_def word_store_def) (simp add: setp_words_def)

lemma pass_bcd:
  assumes "holds V k ks kr s" and "list_all (\<lambda>i. unat (kr ! i) = (i + 1) div 10 * 16 + (i + 1) mod 10) [0..<n]" and "pass Q fs s"
  shows "pass Q (fail_if (bcd_mismatch n) # fs) s"
  using assms by (simp add: pass_fail_if bcd_mismatch_def holds_def)

lemma pass_word_round:
  assumes con: "keys_contract api V" and st: "holds V None word_store kr s" and bits: "bits_ok bits" "32 dvd bits"
    and w: "word_bytes (key_prefix bits word_store) = w" "key_prefix bits w = w" "bits = 8 * int (length w)"
    and kr': "kr' = w @ drop (length w) kr" and dig: "list_all (\<lambda>i. unat (kr' ! i) = (i + 1) div 10 * 16 + (i + 1) mod 10) [0..<n]"
    and rest: "\<And>s'. holds V None word_store kr' s' \<Longrightarrow> pass Q fs s'"
  shows "pass Q (UNLESS DI_SUCCESS (setk api 0 bits [DI_FUNC_FLAG_WORD_KEY]) # UNLESS DI_SUCCESS (getk api bits) #
    UNLESS DI_SUCCESS (relk api) # fail_if (bcd_mismatch n) # fs) s"
proof (rule pass_set_word [OF con st bits(1) _ bits(2)])
  show "bits \<le> 8 * int (length word_store)" using bits(1) by (simp add: word_store_facts bits_ok_def)
  fix s1
  assume "holds V (Some (word_bytes (key_prefix bits word_store))) word_store kr s1"
  then have s1: "holds V (Some w) word_store kr s1" by (simp only: w(1))
  show "pass Q (UNLESS DI_SUCCESS (getk api bits) # UNLESS DI_SUCCESS (relk api) # fail_if (bcd_mismatch n) # fs) s1"
  proof (rule pass_get [OF con s1 bits(1)])
    show "bits \<le> 8 * int (length w)" using w(3) by simp
    fix s2
    assume "holds V (Some w) word_store (key_prefix bits w @ drop (length (key_prefix bits w)) kr) s2"
    then have s2: "holds V (Some w) word_store kr' s2" by (simp only: w(2) kr')
    show "pass Q (UNLESS DI_SUCCESS (relk api) # fail_if (bcd_mismatch n) # fs) s2"
    proof (rule pass_rel(1) [OF con s2])
      fix s3
      assume s3: "holds V None word_store kr' s3"
      show "pass Q (fail_if (bcd_mismatch n) # fs) s3" by (rule pass_bcd [OF s3 dig rest [OF s3]])
    qed simp
  qed
qed

lemma test_setp_case_1: "test_setp api 1 s = returned PASS (test_setp_1 api s)"
  by (simp add: test_setp_def)

lemma test_setp_1_passes:
  assumes con: "keys_contract api V" and st: "V (dt_dev s) = Some (unlocked k)"
  shows "test_ok (clean V) (test_setp api 1 s)"
proof -
  have dig4: "list_all (\<lambda>i. unat (bcd_key ! i) = (i + 1) div 10 * 16 + (i + 1) mod 10) [0..<4]"
    using bcd_key_digits by (simp add: list_all_iff)
  have words: "pass (clean V) (UNLESS DI_SUCCESS (setk api 0 256 [DI_FUNC_FLAG_WORD_KEY]) # UNLESS DI_SUCCESS (getk api 256) #
      UNLESS DI_SUCCESS (relk api) # fail_if (bcd_mismatch 32) #
      UNLESS DI_SUCCESS (setk api 0 32 [DI_FUNC_FLAG_WORD_KEY]) # UNLESS DI_SUCCESS (getk api 32) #
      UNLESS DI_SUCCESS (relk api) # fail_if (bcd_mismatch 4) #
      UNLESS DI_ERR_INVAL (setk api 1 32 [DI_FUNC_FLAG_WORD_KEY]) # UNLESS DI_ERR_INVAL (setk api 1 33 [DI_FUNC_FLAG_WORD_KEY]) # [ret PASS]) s'"
    if w: "holds V None word_store (replicate 32 0) s'" for s'
  proof (rule pass_word_round [OF con w, where w = bcd_key and kr' = bcd_key])
    fix s1
    assume s1: "holds V None word_store bcd_key s1"
    show "pass (clean V) (UNLESS DI_SUCCESS (setk api 0 32 [DI_FUNC_FLAG_WORD_KEY]) # UNLESS DI_SUCCESS (getk api 32) #
      UNLESS DI_SUCCESS (relk api) # fail_if (bcd_mismatch 4) #
      UNLESS DI_ERR_INVAL (setk api 1 32 [DI_FUNC_FLAG_WORD_KEY]) # UNLESS DI_ERR_INVAL (setk api 1 33 [DI_FUNC_FLAG_WORD_KEY]) # [ret PASS]) s1"
      by (rule pass_word_round [OF con s1, where w = "take 4 bcd_key" and kr' = bcd_key])
        (simp_all add: word_store_facts dig4 [simplified] pass_set_inval(2) [OF con] pass_done)
  qed (simp_all add: word_store_facts bcd_key_digits [simplified])
  show ?thesis
    unfolding test_setp_case_1 test_setp_1_def MAX_KEY_LEN_def MAX_KEY_BYTES_def
    by (rule returned_pass, rule pass_locals [where V = V, OF st])
      (erule words | erule pass_setp_words | erule pass_calls [OF con] | (simp; fail))+
qed

section \<open>The lock tests, and what they leave\<close>

text \<open>The state of a lock test: a view of the device that may have locks, and the key array.\<close>

definition sees :: "('d \<Rightarrow> key_view option) \<Rightarrow> key_view \<Rightarrow> u8 list \<Rightarrow> 'd dt_state \<Rightarrow> bool" where
  "sees V v ks s \<longleftrightarrow> V (dt_dev s) = Some v \<and> dt_key_store s = ks"

lemma pass_set_sees:
  assumes "keys_contract api V" and "sees V v ks s" and "DI_FUNC_FLAG_ASYNC \<notin> set flags"
    and "memory_ok (Key off (drop off ks)) bits flags"
    and "\<And>rc v' s'. set_spec v (Key off (drop off ks)) bits flags rc v' \<Longrightarrow> sees V v' ks s' \<Longrightarrow> rc = e \<and> pass Q fs s'"
  shows "pass Q (UNLESS e (setk api off bits flags) # fs) s"
proof -
  obtain rc d' v' where "set_programmed_key api (Key off (drop off ks)) bits flags (dt_dev s) = (rc, d')" "V d' = Some v'"
      "set_spec v (Key off (drop off ks)) bits flags rc v'"
    using contract_calls(1) [OF assms(1) _ assms(3,4)] assms(2) unfolding sees_def by blast
  then show ?thesis
    using assms(2) assms(5) [of rc v' "s\<lparr>dt_dev := d'\<rparr>"] by (simp add: pass_UNLESS setk_def on_dev_def sees_def)
qed

lemma pass_get_sees:
  assumes "keys_contract api V" and "sees V v ks s"
    and "\<And>rc bs s'. get_spec v True bits rc bs \<Longrightarrow> sees V v ks s' \<Longrightarrow> rc = e \<and> pass Q fs s'"
  shows "pass Q (UNLESS e (getk api bits) # fs) s"
proof -
  obtain rc bs d' where "get_programmed_key api True bits (dt_dev s) = (rc, bs, d')" "V d' = Some v" "get_spec v True bits rc bs"
    using contract_calls(2) [OF assms(1)] assms(2) unfolding sees_def by blast
  then show ?thesis
    using assms(2) assms(3) [of rc bs "s\<lparr>dt_dev := d', dt_key_ret := bs @ drop (length bs) (dt_key_ret s)\<rparr>"]
    by (simp add: pass_UNLESS getk_def sees_def)
qed

lemma pass_rel_sees:
  assumes "keys_contract api V" and "sees V v ks s"
    and "\<And>rc v' s'. release_spec v rc v' \<Longrightarrow> sees V v' ks s' \<Longrightarrow> rc = e \<and> pass Q fs s'"
  shows "pass Q (UNLESS e (relk api) # fs) s"
proof -
  obtain rc d' v' where "release_programmed_key api (dt_dev s) = (rc, d')" "V d' = Some v'" "release_spec v rc v'"
    using contract_calls(3) [OF assms(1)] assms(2) unfolding sees_def by blast
  then show ?thesis
    using assms(2) assms(3) [of rc v' "s\<lparr>dt_dev := d'\<rparr>"] by (simp add: pass_UNLESS relk_def on_dev_def sees_def)
qed

text \<open>What a lock test leaves behind: a key of full length under a write lock.\<close>

definition write_locked :: "('d \<Rightarrow> key_view option) \<Rightarrow> key_lock \<Rightarrow> 'd dt_state \<Rightarrow> bool" where
  "write_locked V l s \<longleftrightarrow> (\<exists>v k. V (dt_dev s) = Some v \<and> kv_wlock v = Some l \<and> kv_key v = Some k \<and> length k = 32)"

lemma pass_write_lock:
  assumes con: "keys_contract api V" and s: "sees V v (replicate 36 0) s" and v: "kv_key v = None" "kv_wlock v = None"
    and w: "DI_FUNC_FLAG_ASYNC \<notin> set flags" "DI_FUNC_FLAG_WORD_KEY \<notin> set flags" "lock_of DI_FUNC_FLAG_WRITE_LOCK flags = Some l"
  shows "pass (write_locked V l) [UNLESS DI_SUCCESS (setk api 0 256 flags), UNLESS (lock_err l) (relk api), ret PASS] s"
proof (rule pass_set_sees [OF con s w(1)])
  fix rc v1 s1
  assume "set_spec v (Key 0 (drop 0 (replicate 36 0))) 256 flags rc v1" and s1: "sees V v1 (replicate 36 0) s1"
  then have v1: "rc = DI_SUCCESS" "kv_key v1 = Some (replicate 32 0)" "kv_wlock v1 = Some l"
    using v w by (simp_all add: set_spec_def key_prefix_def)
  have "pass (write_locked V l) [UNLESS (lock_err l) (relk api), ret PASS] s1"
    by (rule pass_rel_sees [OF con s1]) (use v1 in \<open>auto simp: release_spec_def pass_ret write_locked_def sees_def\<close>)
  then show "rc = DI_SUCCESS \<and> pass (write_locked V l) [UNLESS (lock_err l) (relk api), ret PASS] s1" using v1(1) by simp
qed (use w in simp_all)

lemma pass_locking:
  assumes con: "keys_contract api V" and st: "holds V None (replicate 36 0) kr s" and hard: "hard = (if l = Hard then [DI_FUNC_FLAG_HARD_LOCK] else [])"
  shows "pass (write_locked V l)
    [UNLESS DI_SUCCESS (setk api 0 256 (DI_FUNC_FLAG_READ_LOCK # hard)), UNLESS (lock_err l) (getk api 256),
     UNLESS DI_SUCCESS (relk api), UNLESS DI_SUCCESS (setk api 0 256 (DI_FUNC_FLAG_WRITE_LOCK # hard)),
     UNLESS (lock_err l) (relk api), ret PASS] s"
proof -
  have flags: "DI_FUNC_FLAG_ASYNC \<notin> set (f # hard)" "DI_FUNC_FLAG_WORD_KEY \<notin> set (f # hard)" "lock_of f (f # hard) = Some l"
    if "f = DI_FUNC_FLAG_READ_LOCK \<or> f = DI_FUNC_FLAG_WRITE_LOCK" for f
    using that by (cases l; auto simp: hard lock_of_def)+
  have none: "lock_of DI_FUNC_FLAG_WRITE_LOCK (DI_FUNC_FLAG_READ_LOCK # hard) = None"
    by (simp add: hard lock_of_def)
  note r = flags [OF disjI1 [OF refl]] and w = flags [OF disjI2 [OF refl]]
  have s: "sees V (unlocked None) (replicate 36 0) s" using st by (simp add: sees_def holds_def)
  show ?thesis
  proof (rule pass_set_sees [OF con s])
    fix rc v1 s1
    assume "set_spec (unlocked None) (Key 0 (drop 0 (replicate 36 0))) 256 (DI_FUNC_FLAG_READ_LOCK # hard) rc v1"
      and s1: "sees V v1 (replicate 36 0) s1"
    then have v1: "rc = DI_SUCCESS" "kv_key v1 \<noteq> None" "kv_wlock v1 = None" "kv_rlock v1 = Some l"
      using r none by (simp_all add: set_spec_def)
    have "pass (write_locked V l) [UNLESS (lock_err l) (getk api 256),
     UNLESS DI_SUCCESS (relk api), UNLESS DI_SUCCESS (setk api 0 256 (DI_FUNC_FLAG_WRITE_LOCK # hard)),
     UNLESS (lock_err l) (relk api), ret PASS] s1"
    proof (rule pass_get_sees [OF con s1], rule conjI)
      fix rc bs s2
      assume "get_spec v1 True 256 rc bs" and s2: "sees V v1 (replicate 36 0) s2"
      then show "rc = lock_err l" using v1 by (auto simp: get_spec_def)
      show "pass (write_locked V l) [UNLESS DI_SUCCESS (relk api), UNLESS DI_SUCCESS (setk api 0 256 (DI_FUNC_FLAG_WRITE_LOCK # hard)),
        UNLESS (lock_err l) (relk api), ret PASS] s2"
      proof (rule pass_rel_sees [OF con s2])
        fix rc v3 s3
        assume "release_spec v1 rc v3" and s3: "sees V v3 (replicate 36 0) s3"
        then have v3: "rc = DI_SUCCESS" "kv_key v3 = None" "kv_wlock v3 = None" using v1 by (auto simp: release_spec_def)
        have "pass (write_locked V l) [UNLESS DI_SUCCESS (setk api 0 256 (DI_FUNC_FLAG_WRITE_LOCK # hard)),
          UNLESS (lock_err l) (relk api), ret PASS] s3"
          by (rule pass_write_lock [OF con s3 v3(2,3) w])
        then show "rc = DI_SUCCESS \<and> pass (write_locked V l) [UNLESS DI_SUCCESS (setk api 0 256 (DI_FUNC_FLAG_WRITE_LOCK # hard)),
          UNLESS (lock_err l) (relk api), ret PASS] s3" using v3(1) by simp
      qed
    qed
    then show "rc = DI_SUCCESS \<and> pass (write_locked V l) [UNLESS (lock_err l) (getk api 256),
     UNLESS DI_SUCCESS (relk api), UNLESS DI_SUCCESS (setk api 0 256 (DI_FUNC_FLAG_WRITE_LOCK # hard)),
     UNLESS (lock_err l) (relk api), ret PASS] s1" using v1(1) by simp
  qed (use r in simp_all)
qed

lemma test_setp_lock_passes:
  assumes con: "keys_contract api V" and st: "V (dt_dev s) = Some (unlocked k)"
  shows "test_ok (write_locked V Soft) (test_setp api 3 s)" "test_ok (write_locked V Hard) (test_setp api 4 s)"
proof -
  have "test_setp api 3 s = returned PASS (test_setp_lock api [] DI_ERR_SLOCK s)"
    "test_setp api 4 s = returned PASS (test_setp_lock api [DI_FUNC_FLAG_HARD_LOCK] DI_ERR_HLOCK s)"
    by (simp_all add: test_setp_def)
  moreover have lock: "test_ok (write_locked V l) (returned PASS (test_setp_lock api hard (lock_err l) s))"
    if hard: "hard = (if l = Hard then [DI_FUNC_FLAG_HARD_LOCK] else [])" for l hard
    unfolding test_setp_lock_def MAX_KEY_LEN_def
    by (rule returned_pass, rule pass_locals [where V = V, OF st])
      (erule pass_locking [OF con _ hard] | erule pass_calls [OF con] | (simp; fail))+
  ultimately show "test_ok (write_locked V Soft) (test_setp api 3 s)" "test_ok (write_locked V Hard) (test_setp api 4 s)"
    using lock [of "[]" Soft] lock [of "[DI_FUNC_FLAG_HARD_LOCK]" Hard] by simp_all
qed

text \<open>On a write-locked device every key test fails at its first or second call.\<close>

lemma locked_calls:
  assumes con: "keys_contract api V" and lk: "write_locked V l s"
  shows "\<exists>s'. script [locals, ignoring (relk api)] s = (None, s') \<and> write_locked V l s' \<and>
    fst (setk api 0 256 [] s') \<noteq> DI_SUCCESS \<and> fst (getk api 256 s') \<noteq> DI_ERR_UNSET"
proof -
  let ?s = "s\<lparr>dt_key_store := replicate 36 0, dt_key_ret := replicate 32 0\<rparr>"
  obtain v k where v: "V (dt_dev s) = Some v" "kv_wlock v = Some l" "kv_key v = Some k" "length k = 32"
    using lk by (auto simp: write_locked_def)
  obtain rc d' where d': "release_programmed_key api (dt_dev s) = (rc, d')" "V d' = Some v"
    using contract_calls(3) [OF con v(1)] v(2) by (auto simp: release_spec_def)
  have "script [locals, ignoring (relk api)] s = (None, ?s\<lparr>dt_dev := d'\<rparr>)"
    using d' by (simp add: locals_def assign_def ignoring_def relk_def on_dev_def MAX_KEY_BYTES_def)
  moreover have "write_locked V l (?s\<lparr>dt_dev := d'\<rparr>)" using d' v by (simp add: write_locked_def)
  moreover have "fst (setk api 0 256 [] (?s\<lparr>dt_dev := d'\<rparr>)) \<noteq> DI_SUCCESS"
    using contract_calls(1) [OF con d'(2), of "[]" "Key 0 (replicate 36 0)" 256] v(2)
    by (auto simp: setk_def on_dev_def set_spec_def)
  moreover have "fst (getk api 256 (?s\<lparr>dt_dev := d'\<rparr>)) \<noteq> DI_ERR_UNSET"
    using contract_calls(2) [OF con d'(2), of True 256] v(3,4)
    by (cases "kv_rlock v"; cases "the (kv_rlock v)") (auto simp: getk_def get_spec_def)
  ultimately show ?thesis by blast
qed

lemma locked_script_fails:
  assumes con: "keys_contract api V" and lk: "write_locked V l s"
  shows "fst (script (locals # ignoring (relk api) # UNLESS DI_SUCCESS (setk api 0 256 []) # fs) s) = Some FAIL"
    and "fst (script (locals # ignoring (relk api) # UNLESS DI_ERR_UNSET (getk api 256) # fs) s) = Some FAIL"
proof -
  obtain s' where s': "script [locals, ignoring (relk api)] s = (None, s')"
      "fst (setk api 0 256 [] s') \<noteq> DI_SUCCESS" "fst (getk api 256 s') \<noteq> DI_ERR_UNSET"
    using locked_calls [OF con lk] by blast
  have "script ([locals, ignoring (relk api)] @ fs') s = script fs' s'" for fs'
    unfolding script_append s'(1) by simp
  then show "fst (script (locals # ignoring (relk api) # UNLESS DI_SUCCESS (setk api 0 256 []) # fs) s) = Some FAIL"
    "fst (script (locals # ignoring (relk api) # UNLESS DI_ERR_UNSET (getk api 256) # fs) s) = Some FAIL"
    using s'(2,3) by (simp_all add: UNLESS_def case_prod_beta)
qed

lemma returned_fail: "fst r = Some FAIL \<Longrightarrow> fst (returned rc r) = FAIL"
  by (cases r) (simp add: returned_def)

lemma locked_tests_fail:
  assumes con: "keys_contract api V" and lk: "write_locked V l s"
  shows "fst (test_setp api 0 s) = FAIL" "fst (test_setp api 1 s) = FAIL" "fst (test_setp api 3 s) = FAIL" "fst (test_setp api 4 s) = FAIL"
    "fst (test_relp api 0 s) = FAIL" "fst (test_getp api 0 s) = FAIL"
  unfolding test_setp_def test_relp_def test_getp_def test_setp_0_def test_setp_1_def test_setp_lock_def MAX_KEY_LEN_def append.simps
  by (simp_all add: returned_fail locked_script_fails [OF con lk] del: script.simps)

section \<open>Waiting and dispatch\<close>

text \<open>The device before the \<open>k\<close>-th poll of the loop, when the polls before it found no failure state.\<close>

primrec poll_state :: "'d di_api \<Rightarrow> 'd dt_state \<Rightarrow> nat \<Rightarrow> 'd dt_state" where
  "poll_state api s 0 = s"
| "poll_state api s (Suc k) = poll_state api (snd (sleep api 10 (snd (snd (poll api s))))) k"

definition poll_code :: "'d di_api \<Rightarrow> 'd dt_state \<Rightarrow> nat \<Rightarrow> di_return" where
  "poll_code api s k = fst (poll api (poll_state api s k))"

definition poll_events :: "'d di_api \<Rightarrow> 'd dt_state \<Rightarrow> nat \<Rightarrow> u32" where
  "poll_events api s k = fst (snd (poll api (poll_state api s k)))"

declare tamp_loop.simps [simp del]

lemma ex_less_Suc_split: "(\<exists>k. k \<le> Suc n \<and> P k) \<longleftrightarrow> P 0 \<or> (\<exists>k \<le> n. P (Suc k))"
  by (metis Suc_le_mono le0 not0_implies_Suc)

lemma fail_not_pass: "FAIL \<noteq> PASS"
  by (simp add: PASS_def FAIL_def)

lemma tamp_loop_pass:
  assumes "tries \<le> 1001"
  shows "fst (tamp_loop api tries s) = PASS \<longleftrightarrow>
    (\<exists>k \<le> 1001 - tries. (\<forall>j < k. poll_code api s j = DI_ERR_STATE) \<and> poll_code api s k = DI_SUCCESS \<and> poll_events api s k \<noteq> 0)"
  using assms
proof (induction "1001 - tries" arbitrary: tries s)
  case 0
  then show ?case
    by (subst tamp_loop.simps) (auto simp: poll_code_def poll_events_def fail_not_pass case_prod_beta Let_def)
next
  case (Suc n)
  let ?t = "snd (sleep api 10 (snd (snd (poll api s))))"
  have n: "1001 - tries = Suc n" "1001 - Suc tries = n" "\<not> 1000 < tries" using Suc.hyps(2) by auto
  have shift: "poll_code api s (Suc k) = poll_code api ?t k" "poll_events api s (Suc k) = poll_events api ?t k" for k
    by (simp_all add: poll_code_def poll_events_def)
  have all: "(\<forall>j < Suc k. poll_code api s j = DI_ERR_STATE) \<longleftrightarrow> poll_code api s 0 = DI_ERR_STATE \<and> (\<forall>j < k. poll_code api ?t j = DI_ERR_STATE)" for k
    by (simp add: All_less_Suc2 shift)
  have IH: "fst (tamp_loop api (Suc tries) ?t) = PASS \<longleftrightarrow>
      (\<exists>k \<le> n. (\<forall>j < k. poll_code api ?t j = DI_ERR_STATE) \<and> poll_code api ?t k = DI_SUCCESS \<and> poll_events api ?t k \<noteq> 0)"
    using Suc.hyps(1) [of "Suc tries" ?t] n by simp
  show ?case
    unfolding n(1) ex_less_Suc_split all shift
    by (subst tamp_loop.simps) (auto simp: case_prod_beta Let_def n(3) IH poll_code_def [of api s 0] poll_events_def [of api s 0] fail_not_pass)
qed

definition test_names :: "string list" where
  "test_names = [''help'', ''setp'', ''relp'', ''getp'', ''setr'', ''sel'', ''rel'', ''chk'', ''tamp'', ''busy'']"

lemma dryice_init_unknown: "test \<notin> set test_names \<Longrightarrow> dryice_test_init api test nr s = (- EINVAL, s)"
  by (simp add: dryice_test_init_def tests_def test_names_def help_list_def)

text \<open>
  So the tamper test returns after at most 1003 polls, and passes exactly if the first finds no failure
  state and one of the next 1002 is the first to find one, with a tamper event.
\<close>

lemma test_tamp_pass:
  assumes "s1 = snd (snd (poll api s))"
  shows "fst (test_tamp api s) = PASS \<longleftrightarrow> fst (poll api s) \<noteq> DI_SUCCESS \<and>
    (\<exists>k \<le> 1001. (\<forall>j < k. poll_code api s1 j = DI_ERR_STATE) \<and> poll_code api s1 k = DI_SUCCESS \<and> poll_events api s1 k \<noteq> 0)"
  using tamp_loop_pass [of 0 api s1] assms by (simp add: test_tamp_def case_prod_beta Let_def fail_not_pass)

text \<open>A round whose calls succeed fails the test when the key read back is another one.\<close>

lemma key_round_detects:
  assumes "fst (setk api off bits [] (fill_key off 0 MAX_KEY_BYTES s)) = DI_SUCCESS"
    and "s1 = (snd (setk api off bits [] (fill_key off 0 MAX_KEY_BYTES s)))\<lparr>dt_key_ret := replicate MAX_KEY_BYTES 0\<rparr>"
    and "fst (getk api bits s1) = DI_SUCCESS" and "fst (relk api (snd (getk api bits s1))) = DI_SUCCESS"
    and "key_mismatch off bits (snd (relk api (snd (getk api bits s1))))"
  shows "fst (key_round api off bits s) = Some FAIL"
  using assms by (simp add: key_round_def assign_def UNLESS_def fail_if_def case_prod_beta)

section \<open>Examples\<close>

text \<open>A device whose locks stay, with an operation in the background or not.\<close>

definition key_device :: "(key_view \<times> bool) di_api" where
  "key_device = \<lparr>
     set_programmed_key = (\<lambda>p bits flags (v, busy).
       if busy then (DI_ERR_BUSY, v, busy)
       else case kv_wlock v of
         Some l \<Rightarrow> (lock_err l, v, False)
       | None \<Rightarrow> (if bad_args p bits flags then (DI_ERR_INVAL, v, False)
           else if kv_key v \<noteq> None then (DI_ERR_INUSE, v, False)
           else (DI_SUCCESS, v\<lparr>kv_key := Some (given_key p bits flags), kv_wlock := lock_of DI_FUNC_FLAG_WRITE_LOCK flags,
                kv_rlock := (if kv_rlock v = None then lock_of DI_FUNC_FLAG_READ_LOCK flags else kv_rlock v)\<rparr>,
                DI_FUNC_FLAG_ASYNC \<in> set flags))),
     get_programmed_key = (\<lambda>p bits (v, busy).
       if busy then (DI_ERR_BUSY, [], v, busy)
       else if \<not> p \<or> \<not> bits_ok bits then (DI_ERR_INVAL, [], v, False)
       else case kv_key v of
         None \<Rightarrow> (DI_ERR_UNSET, [], v, False)
       | Some k \<Rightarrow> (case kv_rlock v of Some l \<Rightarrow> (lock_err l, [], v, False) | None \<Rightarrow> (DI_SUCCESS, key_prefix bits k, v, False))),
     release_programmed_key = (\<lambda>(v, busy).
       if busy then (DI_ERR_BUSY, v, busy)
       else case kv_wlock v of
         Some l \<Rightarrow> (lock_err l, v, False)
       | None \<Rightarrow> (if kv_key v = None then DI_ERR_UNSET else DI_SUCCESS, v\<lparr>kv_key := None\<rparr>, False)),
     set_random_key = (\<lambda>_ d. (DI_SUCCESS, d)), select_key = (\<lambda>_ _ d. (DI_SUCCESS, d)), release_key_selection = (\<lambda>d. (DI_SUCCESS, d)),
     check_key = (\<lambda>_ d. (DI_SUCCESS, 0, d)), get_tamper_event = (\<lambda>_ d. (DI_ERR_STATE, 0, d)),
     register_callback = (\<lambda>_ _ d. (DI_SUCCESS, d)),
     msleep = (\<lambda>_ (v, busy). (if busy then [(Setp_Cb, DI_SUCCESS, 0)] else [], v, False)), DI_KEY_FK = 0, DI_KEY_FRK = 5\<rparr>"

definition key_device_view :: "key_view \<times> bool \<Rightarrow> key_view option" where
  "key_device_view d = (case d of (v, busy) \<Rightarrow> if busy then None else Some v)"

lemma keys_contractI:
  assumes "\<And>d v p bits flags. V d = Some v \<Longrightarrow> DI_FUNC_FLAG_ASYNC \<notin> set flags \<Longrightarrow>
      (case set_programmed_key api p bits flags d of (rc, d') \<Rightarrow> V d' \<noteq> None \<and> set_spec v p bits flags rc (the (V d')))"
    and "\<And>d v p bits. V d = Some v \<Longrightarrow> (case get_programmed_key api p bits d of (rc, bs, d') \<Rightarrow> V d' = Some v \<and> get_spec v p bits rc bs)"
    and "\<And>d v. V d = Some v \<Longrightarrow> (case release_programmed_key api d of (rc, d') \<Rightarrow> V d' \<noteq> None \<and> release_spec v rc (the (V d')))"
  shows "keys_contract api V"
  unfolding keys_contract_def
proof (intro conjI allI impI)
  fix d v p bits flags
  assume "V d = Some v \<and> DI_FUNC_FLAG_ASYNC \<notin> set flags \<and> memory_ok p bits flags"
  then show "\<exists>rc d' v'. set_programmed_key api p bits flags d = (rc, d') \<and> V d' = Some v' \<and> set_spec v p bits flags rc v'"
    using assms(1) [of d v flags p bits] by (auto split: prod.splits)
next
  fix d v p bits
  assume "V d = Some v"
  then show "\<exists>rc bs d'. get_programmed_key api p bits d = (rc, bs, d') \<and> V d' = Some v \<and> get_spec v p bits rc bs"
    using assms(2) [of d v p bits] by (auto split: prod.splits)
next
  fix d v
  assume "V d = Some v"
  then show "\<exists>rc d' v'. release_programmed_key api d = (rc, d') \<and> V d' = Some v' \<and> release_spec v rc v'"
    using assms(3) [of d v] by (auto split: prod.splits)
qed

lemma key_device_contract: "keys_contract key_device key_device_view"
proof (rule keys_contractI)
  fix d v p and bits :: int and flags
  assume v: "key_device_view d = Some v"
  then have d: "d = (v, False)" by (auto simp: key_device_view_def split: prod.splits if_splits)
  show "case get_programmed_key key_device p bits d of (rc, bs, d') \<Rightarrow> key_device_view d' = Some v \<and> get_spec v p bits rc bs"
    by (auto simp: d key_device_def key_device_view_def get_spec_def split: option.split)
  have "kv_key v = None \<Longrightarrow> v\<lparr>kv_key := None\<rparr> = v" by simp
  then show "case release_programmed_key key_device d of (rc, d') \<Rightarrow> key_device_view d' \<noteq> None \<and> release_spec v rc (the (key_device_view d'))"
    by (auto simp: d key_device_def key_device_view_def release_spec_def split: option.split)
next
  fix d v p and bits :: int and flags
  assume v: "key_device_view d = Some v" and a: "DI_FUNC_FLAG_ASYNC \<notin> set flags"
  then have d: "d = (v, False)" by (auto simp: key_device_view_def split: prod.splits if_splits)
  have err: "lock_err l \<noteq> DI_SUCCESS" for l by (cases l) simp_all
  show "case set_programmed_key key_device p bits flags d of (rc, d') \<Rightarrow>
      key_device_view d' \<noteq> None \<and> set_spec v p bits flags rc (the (key_device_view d'))"
    using a by (auto simp: d err key_device_def key_device_view_def set_spec_def split: option.split)
qed

definition dt_demo :: "(key_view \<times> bool) dt_state" where
  "dt_demo = \<lparr>dt_dev = (unlocked (Some [1, 2]), False), dt_rand16 = 0x1234, dt_setp_state = None, dt_setr_done = 0, dt_sel_done = 0,
     dt_busy_done = 0, dt_key_store = [], dt_key_ret = []\<rparr>"

section \<open>Properties\<close>

text \<open>
  C36: the tests of the programmed key on every driver that keeps the contract, from an idle device
  without locks. The tests \<open>setp\<close> 0 and 1, \<open>relp\<close> 0 and \<open>getp\<close> 0 return 0 and leave the device
  without key or locks: all 64 pseudo-random keys are read back from both alignments, the word key
  comes back as the digits the test computes, and every bad argument is answered with the code the script
  expects. The lock tests \<open>setp\<close> 3 and 4 return 0 as well, but they are destructive, as their comments
  say: each leaves a write lock, soft or hard, and then loading the module with any of the six tests fails.
\<close>

theorem dryice_key_tests_pass:
  assumes "keys_contract api V" and "V (dt_dev s) = Some v" and "kv_rlock v = None" and "kv_wlock v = None"
    and "tests_ok = [(''setp'', 0), (''setp'', 1), (''relp'', 0), (''getp'', 0)]" and "tests_lock = [(''setp'', 3), (''setp'', 4)]"
  shows "(\<forall>(test, nr) \<in> set tests_ok. fst (dryice_test_init api test nr s) = 0 \<and>
      V (dt_dev (snd (dryice_test_init api test nr s))) = Some \<lparr>kv_key = None, kv_rlock = None, kv_wlock = None\<rparr>) \<and>
    (\<forall>(test, nr) \<in> set tests_lock. fst (dryice_test_init api test nr s) = 0 \<and>
      (\<forall>(test', nr') \<in> set (tests_ok @ tests_lock). fst (dryice_test_init api test' nr' (snd (dryice_test_init api test nr s))) = -1))"
proof -
  have init: "dryice_test_init api ''setp'' nr t = (- fst (test_setp api nr t), snd (test_setp api nr t))"
    "dryice_test_init api ''relp'' nr t = (- fst (test_relp api nr t), snd (test_relp api nr t))"
    "dryice_test_init api ''getp'' nr t = (- fst (test_getp api nr t), snd (test_getp api nr t))" for nr t
    by (simp_all add: dryice_test_init_def tests_def do_test_def case_prod_beta)
  have st: "V (dt_dev s) = Some (unlocked (kv_key v))" using assms(2) unlockedI [OF refl assms(3,4)] by simp
  note ok = test_setp_0_passes [OF assms(1) st] test_setp_1_passes [OF assms(1) st] test_relp_passes [OF assms(1) st]
    test_getp_passes [OF assms(1) st]
  have lock: "test_ok (write_locked V Soft) (test_setp api 3 s)" "test_ok (write_locked V Hard) (test_setp api 4 s)"
    by (rule test_setp_lock_passes [OF assms(1) st])+
  then have left: "write_locked V Soft (snd (test_setp api 3 s))" "write_locked V Hard (snd (test_setp api 4 s))"
    by (simp_all add: test_ok_def)
  show ?thesis
    using ok lock unfolding assms(5,6)
    by (simp add: init test_ok_def clean_def unlocked_def PASS_def locked_tests_fail [OF assms(1) left(1)]
        locked_tests_fail [OF assms(1) left(2)] FAIL_def)
qed

theorem dryice_key_tests_pass_witness:
  "fst (dryice_test_init key_device ''setp'' 1 dt_demo) = 0 \<and> fst (dryice_test_init key_device ''setp'' 3 dt_demo) = 0 \<and>
   fst (dryice_test_init key_device ''getp'' 0 (snd (dryice_test_init key_device ''setp'' 3 dt_demo))) = -1"
  using dryice_key_tests_pass [OF key_device_contract, of dt_demo "unlocked (Some [1, 2])", OF _ _ _ refl refl]
  by (simp add: dt_demo_def key_device_view_def)

end
