(* ===== verification/Spec2Isabelle.thy ===== *)
theory Spec2Isabelle
  imports Prelude Buf_Queue Vpu_Cmd Vpu_Io Vpu_Net Kernel_Env Memalloc Rng_Driver Scc_Driver Scc2_Driver Spdc_Driver
    Driver_Abi C_Strings Soc_Check Memtool Vpu_Fb Vpu_Args Vpu_Config
    Ring_Memory Dec_Bitstream Enc_Bitstream Vpu_Files
    Dec_Crop Dec_Output Mjpeg_Reader Loopback Enc_Source
    Shw_Env Sahara_Run Km_Driver Kernel_Heap Sdma_Copy Sdma_Mem Dryice_Test
begin

text \<open>
  Verification of the i.MX Linux unit tests (\<^verbatim>\<open>src/\<close>).

  \<^bold>\<open>The program.\<close> The repository holds test programs for the devices of the i.MX processors. Three
  parts carry logic of their own. The kernel modules of \<^verbatim>\<open>src/module_test\<close> are character
  drivers: a user program opens the device, fills in a structure and passes it to
  \<open>ioctl\<close>, the handler copies the structure from user memory, calls the real
  driver (RNG, SCC, SCC2, SPDC or the DMA allocator) and copies the results back; the
  structures and the command numbers are in \<^verbatim>\<open>src/include\<close>. Others are tests in themselves, started by
  a write or when the module is loaded. The VPU test
  (\<^verbatim>\<open>src/test/mxc_vpu_test\<close>) parses options and configuration files into one command
  record per instance, opens files or sockets, and moves bitstreams and frame buffers
  between them and the VPU library. The memory tool (\<^verbatim>\<open>src/test/memtool\<close>) reads and
  writes registers through \<^verbatim>\<open>/dev/mem\<close>, by address or by the names of generated
  register tables. Most programs first call the chip check of \<^verbatim>\<open>src/include/soc_check.h\<close>.

  \<^bold>\<open>Shared theories.\<close>

  \<^item> \<open>Prelude\<close>: fixed-width integers of the 32-bit target, checked array access, the
    outcome type \<open>run\<close> (\<open>Done\<close>, \<open>Blocked\<close> or \<open>Undef\<close>: a C function that
    returns, waits for ever or leaves defined behaviour), the little-endian layout of words,
    \<open>errno\<close> values, and the collections \<open>c_arr\<close> and \<open>c_num\<close>.
  \<^item> \<open>C_Strings\<close>: what the programs use of \<^verbatim>\<open>string.h\<close>, \<^verbatim>\<open>ctype.h\<close> and \<^verbatim>\<open>stdlib.h\<close>.
  \<^item> \<open>Kernel_Env\<close>: user memory with byte-wise access rights and the copy functions, kernel
    buffers, device registration. The locale \<open>user_copy\<close> states what the copy functions promise
    and is interpreted on them; the locale \<open>char_driver\<close> states what a driver promises under every
    call it admits and gives every sequence of calls. It is interpreted once per driver, so that the
    safety properties of the drivers are facts of these interpretations.
  \<^item> \<open>Shw_Env\<close>: error codes, state and invariant of the drivers on top of the security hardware API.
  \<^item> \<open>Kernel_Heap\<close>: kernel blocks, the fill and compare loops and the registration of the two DMA test modules.

  \<^bold>\<open>Kernel modules.\<close> Each theory has the driver's state as a record, the environment it calls as
  a record of functions, one definition per handler and command, a \<open>_step\<close> function on a datatype of
  system calls, and load and unload of the module.

  \<^item> \<open>Memalloc\<close> (\<^verbatim>\<open>memalloc.c\<close>): list of DMA blocks, \<open>ioctl\<close> commands, \<open>mmap\<close>. The list and
    the allocator agree under every sequence of calls, nothing is freed twice, the last close frees
    all, a mapping is exactly a live buffer, load registers everything or nothing (C10, C11, C13).
  \<^item> \<open>Rng_Driver\<close> (\<^verbatim>\<open>rng_test_driver.c\<close>): contexts per open file and all commands. Invariant of
    the contexts, delivery of random bytes and register values, the overrun for lengths that are not whole words and
    the ignored entropy (C16 to C18).
  \<^item> \<open>Scc_Driver\<close> (\<^verbatim>\<open>scc_test_driver.c\<close>): commands on the SCC, key slots and ciphers. Safety,
    delivery, and the error paths that lose a failure or a registration (C21 to C23).
  \<^item> \<open>Scc2_Driver\<close> (\<^verbatim>\<open>scc2_test_driver.c\<close>): partitions in kernel memory. Safety of the DMA buffers,
    load and read back (C26, C27), the effect of encryption.
  \<^item> \<open>Spdc_Driver\<close> (\<^verbatim>\<open>spdc_test_driver.c\<close>): a thin layer over the frame buffer driver; what each
    command does and the balance of module references (C30).
  \<^item> \<open>Driver_Abi\<close> (\<^verbatim>\<open>rng_test_driver.h\<close>, \<^verbatim>\<open>scc_test_driver.h\<close>, \<^verbatim>\<open>scc2_test_driver.h\<close>): the
    structures as declared, their layout, the command numbers. The drivers address words by
    position; the layout gives the positions names, and the key slot commands are stated on named members
    (C39).
  \<^item> \<open>Sahara_Run\<close>, \<open>Km_Driver\<close> (\<^verbatim>\<open>run_tests.c\<close>, \<^verbatim>\<open>km_test.c\<close>): a write to the device is a string of test
    suites, interpreted by a function that calls itself for the full suite. It ends on every terminated string; the
    module hands it one, runs the suites the caller named and leaks nothing (C5, C29).
  \<^item> \<open>Sdma_Copy\<close> (\<^verbatim>\<open>mxc_sdma_memcopy_test.c\<close>): eight global buffers and a DMA channel. With an engine that copies, each
    run passes and gives everything back, and no failing allocation breaks a call, as long as one file is
    open at a time (C6, C34). Lemmas show the leak of a failed open, the second release and the NULL descriptor.
  \<^item> \<open>Sdma_Mem\<close> (\<^verbatim>\<open>mxc_sdma_mem_test.c\<close>): the generator, filling and verifying, with the transfer as a step of its own:
    the verdict after the transfer and before it (C28), and the addresses of the context dump.
  \<^item> \<open>Dryice_Test\<close> (\<^verbatim>\<open>dryice_test.c\<close>): every test as a script of driver calls with expected codes. The generator never
    returns 0; on every driver that keeps the contract of the programmed key and its locks, from a device without locks,
    the key tests pass, the lock tests pass too and make every later key test fail (C36); the wait for a tamper event is
    bounded and exact.

  \<^bold>\<open>VPU test.\<close>

  \<^item> \<open>Buf_Queue\<close> (\<^verbatim>\<open>vpu_test.h\<close>): the ring of buffer indices, refined to a list of bounded length
    through the locale \<open>bounded_fifo\<close> (C1).
  \<^item> \<open>Vpu_Cmd\<close> (\<^verbatim>\<open>vpu_test.h\<close>): the command record.
  \<^item> \<open>Vpu_Io\<close>, \<open>Vpu_Net\<close> (\<^verbatim>\<open>utils.c\<close>): complete transfers and the UDP path: what is read is the
    stream that was sent, transfers are complete or fail (C3, C4), reads stay in their buffers and a short datagram breaks the length.
  \<^item> \<open>Vpu_Args\<close>, \<open>Vpu_Config\<close> (\<^verbatim>\<open>utils.c\<close>, \<^verbatim>\<open>main.c\<close>): the tokeniser that cuts a line in place is
    equal to a reference tokeniser; options, configuration files and \<open>check_params\<close> (C15, C31).
  \<^item> \<open>Vpu_Files\<close> (\<^verbatim>\<open>utils.c\<close>): descriptors and buffers balance over \<open>open_files\<close> and \<open>close_files\<close>, with
    the leaks of the failure paths (C32).
  \<^item> \<open>Ring_Memory\<close>, \<open>Dec_Bitstream\<close>, \<open>Enc_Bitstream\<close> (\<^verbatim>\<open>dec.c\<close>, \<^verbatim>\<open>enc.c\<close>): the bitstream rings. The program and the
    hardware are the two sides of an inductive step relation; by rule induction over its runs the decoder receives
    the input in order (C20), all of it and with its end signalled (C24) except in one case that loses the last bytes (C25),
    and the output file receives all the encoder produced (C2). They use the transfer loops of \<open>Vpu_Io\<close>.
  \<^item> \<open>Loopback\<close> (\<^verbatim>\<open>loopback.c\<close>): the ring between encoder and decoder of the loop-back test, on the same laws of the
    library; it is a queue of whole buffers, and the headers go into it in order (C7).
  \<^item> \<open>Mjpeg_Reader\<close> (\<^verbatim>\<open>dec.c\<close>): the start code automaton and the cache in front of it; a clip is handed over picture by
    picture, without a byte lost at the borders of the reads (C14).
  \<^item> \<open>Dec_Crop\<close>, \<open>Dec_Output\<close> (\<^verbatim>\<open>dec.c\<close>): the cropping rectangle of a rotated picture is the image of the rectangle under
    the movement of the pixels (C9); the output file receives the planes of the picture, cropped and with the chroma
    taken apart, exactly as long as the sizes computed in \<open>int\<close> do not overflow (C19). Tiled pictures are modelled, with the address function of the library as a parameter.
  \<^item> \<open>Enc_Source\<close> (\<^verbatim>\<open>enc.c\<close>): loading a source picture. On a buffer laid out by \<open>framebuf_alloc\<close> of \<open>Vpu_Fb\<close>, with the transfer
    loops of \<open>Vpu_Io\<close>, each pixel arrives at its place for every way of reading (C8). The root theory
    joins it with \<open>Dec_Output\<close>: a picture loaded into a frame buffer is the picture that is written from it (C12).
  \<^item> \<open>Vpu_Fb\<close> (\<^verbatim>\<open>fb.c\<close>): linear and tiled frame buffers: layout and release on all paths (C37, C38).

  \<^bold>\<open>Tools.\<close>

  \<^item> \<open>Soc_Check\<close> (\<^verbatim>\<open>soc_check.h\<close>): the chip check ends and finds the name (C40).
  \<^item> \<open>Memtool\<close> (\<^verbatim>\<open>memtool.c\<close>): command line, lookup in the tables, field and plain accesses.
    A field write changes the bits of the field only, the command performs the access it names, a range
    read stays inside its mapping (C33, C35).

  \<^bold>\<open>Parameters and bounds.\<close> Code outside the repository is a parameter: the real drivers, the DMA allocator and engine,
  the VPU library, the register tables. How much a system call transfers, which datagram arrives and
  whether an allocation succeeds are schedules kept in the state, so that a theorem over all states covers every
  behaviour. Loops are structural or have a measure, except the reader of motion JPEG chunks, whose fuel is proved to be
  enough when it exceeds the length of the rest of the file by three. The rings are of any size that fits the address space twice;
  the code's is 2 MiB. Reads of
  a socket that never becomes ready are \<open>Blocked\<close>. Accesses outside a buffer are \<open>Undef\<close>, as is a size of a written picture that overflows \<open>int\<close>, and the safety properties
  say when they cannot occur. Command numbers, structure sizes and words are kept at their width.

  \<^bold>\<open>Not modelled.\<close> The sequences of VPU library calls in the rest of \<^verbatim>\<open>dec.c\<close> and \<^verbatim>\<open>enc.c\<close>, \<^verbatim>\<open>transcode.c\<close> and \<^verbatim>\<open>loopback.c\<close>
  and the V4L2 calls in \<^verbatim>\<open>display.c\<close> and \<^verbatim>\<open>capture.c\<close>: their effect is that of the hardware.
  \<^verbatim>\<open>scc_test_mmap\<close>, which no table refers to. \<^verbatim>\<open>dptc_daemon.h\<close> declares the types of a daemon that is not in the
  repository. The register tables and images are data. Messages are not modelled, except those of the memory tool
  that are its result. Concurrency inside the kernel modules is not modelled: a call runs to its end. The remaining
  directories under \<^verbatim>\<open>src/test\<close> are scripts of system calls on one device each.
\<close>

section \<open>Across components\<close>

lemma deinterleave_take: "A + 2 * (A div 4) \<le> n \<Longrightarrow> n \<le> length d \<Longrightarrow> deinterleave A (take n d) = deinterleave A d"
  by (auto simp: deinterleave_def)

text \<open>
  C12: A picture survives the way through a frame buffer. A 4:2:0 picture that \<open>read_from_file\<close> loads from a file into a buffer of its
  size from \<open>framebuf_alloc\<close> is what \<open>write_to_file\<close> appends to the output file when it is given that buffer: byte for byte with planar
  chroma, and with the two chroma planes taken apart when they are interleaved. The sizes are those up to which \<open>write_to_file\<close> computes
  the size of the picture without overflow. Both use the same layout, the input is left behind the
  picture, and no temporary memory is kept.
\<close>

theorem picture_round_trip:
  assumes "io_laws io_lib phys virt" and "framebuf_alloc io_lib (Some fb) m MODE420 (int W) (int H) 0 io = Done (True, Some pfb, io')"
    and "even W" and "16 dvd H" and "W * H * 3 < 2 ^ 31" and "W < 2 ^ 31 \<and> H < 2 ^ 31" and "n = W * H + W * H div 2"
    and "int (length mem) = md_size (desc pfb)" and "uint (md_virt_uaddr (desc pfb)) + md_size (desc pfb) < 2 ^ 32"
    and "None \<notin> set (rf_sched f)" and "n \<le> length (rf_data f)"
    and "enc = \<lparr>src_picwidth = int W, src_picheight = int H, src_mjpg_fmt = MODE420, src_chromaInterleave = ci\<rparr>"
    and "dp_picwidth dec = int W" and "dp_picheight dec = int H" and "dp_stride dec = int W" and "cl_chromaInterleave (dp_cmdl dec) = ci"
    and "\<not> pic_rotated (dp_cmdl dec)" and "cl_format (dp_cmdl dec) \<noteq> STD_MJPG lib"
    and "\<not> (is_mx6x lib \<and> cl_mapType (dp_cmdl dec) \<noteq> LINEAR_FRAME_MAP lib \<and> dp_tiled2LinearEnable dec = 0)"
    and "crop = \<lparr>r_left = 0, r_top = 0, r_right = 0, r_bottom = 0\<rparr>"
    and "\<forall>b\<in>set (ow_malloc w). b" and "writes_succeed (ow_dst w)"
  shows "\<exists>r mem' f' w'. read_from_file enc pfb (mem, f) = Done (r, mem', f') \<and> rf_data f' = drop n (rf_data f) \<and>
    write_to_file lib (\<lambda>a. if a = md_virt_uaddr (desc pfb) then mem' else []) dec crop pfb w = Done w' \<and>
    wf_data (ow_dst w') = wf_data (ow_dst w) @ (if ci = 0 then take n (rf_data f) else deinterleave (W * H) (rf_data f)) \<and>
    ow_live w' = ow_live w"
proof -
  obtain a where a: "W = 2 * a" using assms(3) by (elim evenE)
  obtain b where b: "H = 2 * b" using assms(4) by (metis dvd_def dvd_trans even_numeral)
  have n: "n = W * H + 2 * (a * b)" using assms(7) by (simp add: a b)
  have src: "src_ok n f" using assms(10,11) by (simp add: src_ok_def)
  have dv: "div_x MODE420 = int 2" "div_y MODE420 = int 2" by (simp_all add: div_x_def div_y_def)
  obtain mem' f' where rd: "read_from_file enc pfb (mem, f) = Done (int n, mem', f')" "mem' = take n (rf_data f)" "rf_data f' = drop n (rf_data f)"
    by (rule read_from_file_whole [OF assms(1,2) dv a b assms(8,9) src n assms(12)])
  let ?mem_at = "\<lambda>x. if x = md_virt_uaddr (desc pfb) then mem' else []"
  have buf: "mem' = ?mem_at (addrY pfb + md_virt_uaddr (desc pfb) - md_phy_addr (desc pfb))"
    using linear_layout(1) [OF assms(1,2)] by simp
  have len: "length mem' = n" using rd(2) assms(11) by simp
  have "16 dvd dp_picheight dec" using assms(4,14) by (metis int_dvd_int_iff of_nat_numeral)
  then obtain w' where wr: "write_to_file lib ?mem_at dec crop pfb w = Done w'" "ow_live w' = ow_live w"
    "wf_data (ow_dst w') = wf_data (ow_dst w) @ take n (if cl_chromaInterleave (dp_cmdl dec) = 0 then mem' else deinterleave (W * H) mem')"
    using write_to_file_appends [where mem_at = ?mem_at and pfb = pfb and buf = mem', OF assms(19,18) _ _ _ _ assms(6) _ buf _ assms(21,22) refl, of crop]
      assms(3,5,7,13-15,17,20) len by (auto simp: rect_ok_def rect_any_def size_factor_def)
  have "W * H + 2 * (W * H div 4) \<le> n" using n by (simp add: a b)
  then have "deinterleave (W * H) mem' = deinterleave (W * H) (rf_data f)" unfolding rd(2) using assms(11) by (rule deinterleave_take)
  moreover have "length (deinterleave (W * H) (rf_data f)) = n"
    using length_deinterleave [of "W * H" "rf_data f"] assms(7,11) by (simp add: a b)
  ultimately show ?thesis using rd wr assms(16) len by auto
qed

theorem picture_round_trip_witness:
  "\<exists>r mem' f' w'. read_from_file \<lparr>src_picwidth = int 64, src_picheight = int 16, src_mjpg_fmt = MODE420, src_chromaInterleave = 0\<rparr> fb_demo_lin
      (replicate 1536 0, \<lparr>rf_data = replicate 1000 5 @ replicate 1000 6, rf_sched = []\<rparr>) = Done (r, mem', f') \<and>
    rf_data f' = replicate 464 6 \<and>
    write_to_file \<lparr>STD_MJPG = 7, LINEAR_FRAME_MAP = 0, is_mx6x = True, GetXY2AXIAddr = (\<lambda>c y x s a b d. 0)\<rparr>
      (\<lambda>a. if a = md_virt_uaddr (desc fb_demo_lin) then mem' else [])
      \<lparr>dp_picwidth = 64, dp_picheight = 16, dp_stride = 64, dp_mjpg_fmt = 0,
        dp_picCropRect = \<lparr>r_left = 0, r_top = 0, r_right = 0, r_bottom = 0\<rparr>, dp_tiled2LinearEnable = 0, dp_cmdl = cmd_zero\<rparr>
      \<lparr>r_left = 0, r_top = 0, r_right = 0, r_bottom = 0\<rparr> fb_demo_lin
      \<lparr>ow_dst = \<lparr>wf_data = [9], wf_sched = []\<rparr>, ow_malloc = [], ow_live = 0, ow_junk = 7\<rparr> = Done w' \<and>
    wf_data (ow_dst w') = [9] @ replicate 1000 5 @ replicate 536 6 \<and> ow_live w' = 0"
proof -
  let ?f = "\<lparr>rf_data = replicate 1000 5 @ replicate 1000 6, rf_sched = []\<rparr>"
  let ?lib = "\<lparr>STD_MJPG = 7, LINEAR_FRAME_MAP = 0, is_mx6x = True, GetXY2AXIAddr = (\<lambda>c y x s a b d. 0)\<rparr>"
  let ?dec = "\<lparr>dp_picwidth = 64, dp_picheight = 16, dp_stride = 64, dp_mjpg_fmt = 0,
        dp_picCropRect = \<lparr>r_left = 0, r_top = 0, r_right = 0, r_bottom = 0\<rparr>, dp_tiled2LinearEnable = 0, dp_cmdl = cmd_zero\<rparr>"
  let ?w = "\<lparr>ow_dst = \<lparr>wf_data = [9], wf_sched = []\<rparr>, ow_malloc = [], ow_live = 0, ow_junk = 7\<rparr>"
  have alloc: "framebuf_alloc io_demo (Some fb_demo) 0 MODE420 (int 64) (int 16) 0 ({#}, {#}) =
      Done (True, Some fb_demo_lin, ({#0x10000800#}, {#0x76000000#}))"
    using fb_demo_alloc by (simp add: MODE420_def)
  have cmd: "cl_chromaInterleave (dp_cmdl ?dec) = 0" "\<not> pic_rotated (dp_cmdl ?dec)" "cl_format (dp_cmdl ?dec) \<noteq> STD_MJPG ?lib"
    "\<not> (is_mx6x ?lib \<and> cl_mapType (dp_cmdl ?dec) \<noteq> LINEAR_FRAME_MAP ?lib \<and> dp_tiled2LinearEnable ?dec = 0)"
    by (simp_all add: cmd_zero_def pic_rotated_def)
  have "\<exists>r mem' f' w'. read_from_file \<lparr>src_picwidth = int 64, src_picheight = int 16, src_mjpg_fmt = MODE420, src_chromaInterleave = 0\<rparr> fb_demo_lin
      (replicate 1536 0, ?f) = Done (r, mem', f') \<and> rf_data f' = drop 1536 (rf_data ?f) \<and>
    write_to_file ?lib (\<lambda>a. if a = md_virt_uaddr (desc fb_demo_lin) then mem' else []) ?dec
      \<lparr>r_left = 0, r_top = 0, r_right = 0, r_bottom = 0\<rparr> fb_demo_lin ?w = Done w' \<and>
    wf_data (ow_dst w') = wf_data (ow_dst ?w) @ (if (0 :: int) = 0 then take 1536 (rf_data ?f) else deinterleave (64 * 16) (rf_data ?f)) \<and>
    ow_live w' = ow_live ?w"
    by (rule picture_round_trip [OF io_demo_laws alloc _ _ _ _ _ _ _ _ _ refl _ _ _ cmd refl])
      (simp_all add: fb_demo_lin_def writes_succeed_def)
  then show ?thesis by simp
qed

end
